(* ===== verification/Ingest_Prelude.thy ===== *)
theory Ingest_Prelude
  imports Main "HOL-Library.Sublist" "HOL-Library.Word"
begin

text \<open>
  Shared vocabulary of the development.  Go strings and byte slices are both sequences of
  bytes, so both are \<open>bytes\<close>, the lists of 8-bit characters of HOL.  A call that returns
  \<^verbatim>\<open>(T, error)\<close> is a value of a sum type, \<open>Inl\<close> for the error.  The theory holds
  the part of the Go library the program uses on text: byte classes, \<^verbatim>\<open>strings\<close>,
  \<^verbatim>\<open>strconv\<close> and \<^verbatim>\<open>unicode/utf8\<close>, with the lemmas the components share.
\<close>

named_theorems byte_simps "byte classes unfolded to comparisons of numbers"
named_theorems go_defs "definitions of program operations, for unfolding in proofs"

type_synonym bytes = string

section \<open>Lists\<close>

lemma subseq_set: "subseq xs ys \<Longrightarrow> set xs \<subseteq> set ys"
  by (induction rule: list_emb.induct) auto

lemma subseq_distinct: "subseq xs ys \<Longrightarrow> distinct ys \<Longrightarrow> distinct xs"
  by (induction rule: list_emb.induct) (auto dest: subseq_set)

section \<open>Bytes\<close>

definition byte :: "char \<Rightarrow> nat" where
  "byte c = of_char c"

definition between :: "nat \<Rightarrow> nat \<Rightarrow> char \<Rightarrow> bool" where
  [byte_simps]: "between lo hi c \<longleftrightarrow> lo \<le> byte c \<and> byte c \<le> hi"

definition is_digit :: "char \<Rightarrow> bool" where
  [byte_simps]: "is_digit c \<longleftrightarrow> between 48 57 c"

definition is_hex :: "char \<Rightarrow> bool" where
  "is_hex c \<longleftrightarrow> between 48 57 c \<or> between 97 102 c \<or> between 65 70 c"

definition digit_val :: "char \<Rightarrow> nat" where
  "digit_val c = byte c - 48"

definition is_space :: "char \<Rightarrow> bool" where
  \<comment> \<open>the white space of JSON: space, tab, carriage return, line feed\<close>
  [byte_simps]: "is_space c \<longleftrightarrow> byte c = 32 \<or> byte c = 9 \<or> byte c = 13 \<or> byte c = 10"


lemma byte_Char [simp]:
  "byte (Char b0 b1 b2 b3 b4 b5 b6 b7) =
     horner_sum of_bool 2 [b0, b1, b2, b3, b4, b5, b6, b7]"
  by (simp add: byte_def)

lemma byte_less_256 [simp]: "byte c < 256"
  by (simp add: byte_def)

lemma byte_char_of [simp]: "byte (char_of n) = n mod 256"
  by (simp add: byte_def)

lemma char_of_byte [simp]: "char_of (byte c) = c"
  by (simp add: byte_def)

lemma byte_eq_iff [simp]: "byte c = byte d \<longleftrightarrow> c = d"
  by (simp add: byte_def)

lemma byte_eqI: "byte c = byte d \<Longrightarrow> c = d"
  by simp

abbreviation quote_c :: char where "quote_c \<equiv> CHR 0x22"
abbreviation backslash_c :: char where "backslash_c \<equiv> CHR 0x5C"
abbreviation newline_c :: char where "newline_c \<equiv> CHR 0x0A"

definition plain_char :: "char \<Rightarrow> bool" where
  \<comment> \<open>stands for itself in a JSON literal\<close>
  "plain_char c \<longleftrightarrow> 32 \<le> byte c \<and> byte c < 128 \<and> c \<noteq> quote_c \<and> c \<noteq> backslash_c"

section \<open>Package strings\<close>

definition HasPrefix :: "bytes \<Rightarrow> bytes \<Rightarrow> bool" where
  [go_defs]: "HasPrefix s p \<longleftrightarrow> take (length p) s = p"

definition TrimPrefix :: "bytes \<Rightarrow> bytes \<Rightarrow> bytes" where
  [go_defs]: "TrimPrefix s p = (if HasPrefix s p then drop (length p) s else s)"

lemma HasPrefix_append [simp]: "HasPrefix (p @ s) p"
  by (simp add: HasPrefix_def)

lemma TrimPrefix_append [simp]: "TrimPrefix (p @ s) p = s"
  by (simp add: TrimPrefix_def)

lemma HasPrefix_iff: "HasPrefix s p \<longleftrightarrow> (\<exists>r. s = p @ r)"
  by (metis HasPrefix_append HasPrefix_def append_take_drop_id)

text \<open>\<^verbatim>\<open>strings.Split\<close> with a separator of one byte: n separators give n + 1 parts.\<close>

fun split_on :: "char \<Rightarrow> bytes \<Rightarrow> bytes list" where
  "split_on sep [] = [[]]"
| "split_on sep (c # cs) =
     (if c = sep then [] # split_on sep cs
      else (case split_on sep cs of [] \<Rightarrow> [[c]] | p # ps \<Rightarrow> (c # p) # ps))"

text \<open>\<^verbatim>\<open>strings.Cut\<close> at the first occurrence of one byte.\<close>

definition Cut :: "bytes \<Rightarrow> char \<Rightarrow> (bytes \<times> bytes) option" where
  [go_defs]: "Cut s sep =
     (case dropWhile (\<lambda>c. c \<noteq> sep) s of [] \<Rightarrow> None
      | _ # after \<Rightarrow> Some (takeWhile (\<lambda>c. c \<noteq> sep) s, after))"

lemma split_on_not_Nil [simp]: "split_on sep s \<noteq> []"
  by (cases s) (auto split: list.splits)

lemma Cut_append: "sep \<notin> set k \<Longrightarrow> Cut (k @ sep # v) sep = Some (k, v)"
  by (simp add: Cut_def takeWhile_tail dropWhile_append)

section \<open>Package strconv\<close>

definition digit_in :: "int \<Rightarrow> char \<Rightarrow> int option" where
  "digit_in base c =
     (let d = (if between 48 57 c then Some (int (byte c) - 48)
               else if between 97 122 c then Some (int (byte c) - 97 + 10)
               else if between 65 90 c then Some (int (byte c) - 65 + 10) else None)
      in case d of None \<Rightarrow> None | Some v \<Rightarrow> if v < base then Some v else None)"

fun digits_value :: "int \<Rightarrow> int \<Rightarrow> bytes \<Rightarrow> int option" where
  "digits_value base acc [] = Some acc"
| "digits_value base acc (c # cs) =
     (case digit_in base c of None \<Rightarrow> None
      | Some v \<Rightarrow> digits_value base (acc * base + v) cs)"

definition ParseUint :: "bytes \<Rightarrow> int \<Rightarrow> nat \<Rightarrow> int option" where
  "ParseUint s base bits =
     (if s = [] then None
      else case digits_value base 0 s of None \<Rightarrow> None
           | Some n \<Rightarrow> if n < 2 ^ bits then Some n else None)"

definition ParseInt :: "bytes \<Rightarrow> int \<Rightarrow> nat \<Rightarrow> int option" where
  "ParseInt s base bits =
     (case s of [] \<Rightarrow> None
      | c # cs \<Rightarrow>
          (let neg = (c = CHR ''-''); body = (if c = CHR ''-'' \<or> c = CHR ''+'' then cs else s)
           in case ParseUint body base bits of None \<Rightarrow> None
              | Some n \<Rightarrow>
                  if \<not> neg \<and> n \<ge> 2 ^ (bits - 1) then None
                  else if neg \<and> n > 2 ^ (bits - 1) then None
                  else Some (if neg then - n else n)))"

definition Atoi :: "bytes \<Rightarrow> int option" where
  "Atoi s = ParseInt s 10 64"

fun dec :: "nat \<Rightarrow> bytes" where
  "dec n = (if n < 10 then [char_of (48 + n)] else dec (n div 10) @ [char_of (48 + n mod 10)])"

declare dec.simps [simp del]

definition Itoa :: "int \<Rightarrow> bytes" where
  "Itoa i = (if i < 0 then CHR ''-'' # dec (nat (- i)) else dec (nat i))"

lemma digit_in_char_of: "n < 10 \<Longrightarrow> digit_in 10 (char_of (48 + n)) = Some (int n)"
  by (simp add: digit_in_def between_def)

lemma digits_value_append:
  "digits_value base acc (xs @ ys) =
     (case digits_value base acc xs of None \<Rightarrow> None | Some v \<Rightarrow> digits_value base v ys)"
  by (induction xs arbitrary: acc) (auto split: option.splits)

lemma digits_value_dec: "digits_value 10 0 (dec n) = Some (int n)"
proof (induction n rule: dec.induct)
  case (1 n)
  show ?case
  proof (cases "n < 10")
    case True
    then show ?thesis by (simp add: dec.simps [of n] digit_in_char_of)
  next
    case False
    have last: "digit_in 10 (char_of (48 + n mod 10)) = Some (int (n mod 10))"
      by (rule digit_in_char_of) simp
    have "digits_value 10 0 (dec n) = digits_value 10 (int (n div 10)) [char_of (48 + n mod 10)]"
      using False "1.IH" by (simp add: dec.simps [of n] digits_value_append)
    also have "\<dots> = Some (int n)" using last by (simp add: zdiv_int zmod_int)
    finally show ?thesis .
  qed
qed

lemma dec_not_Nil [simp]: "dec n \<noteq> []"
  by (subst dec.simps) simp

lemma digit_char [simp]: "(n :: nat) < 10 \<Longrightarrow> is_digit (char_of (48 + n))"
  by (simp add: is_digit_def between_def)

lemma dec_digits: "list_all is_digit (dec n)"
  by (induction n rule: dec.induct) (subst dec.simps, simp)

lemma digits_value_nonneg: "digits_value base a s = Some v \<Longrightarrow> 0 \<le> base \<Longrightarrow> 0 \<le> a \<Longrightarrow> 0 \<le> v"
proof (induction s arbitrary: a)
  case (Cons c cs)
  from Cons.prems(1) obtain d where d: "digit_in base c = Some d" "digits_value base (a * base + d) cs = Some v"
    by (auto split: option.splits)
  then have "0 \<le> d" by (auto simp: digit_in_def Let_def between_def split: if_splits option.splits)
  with d Cons show ?case by simp
qed simp

lemma ParseUint_dec: "int n < 2 ^ bits \<Longrightarrow> ParseUint (dec n) 10 bits = Some (int n)"
  by (simp add: ParseUint_def digits_value_dec)

section \<open>Package unicode/utf8\<close>

definition cont :: "char \<Rightarrow> bool" where
  [byte_simps]: "cont c \<longleftrightarrow> between 128 191 c"

definition second3 :: "nat \<Rightarrow> char \<Rightarrow> bool" where
  \<comment> \<open>the second byte of a three byte sequence: no overlong form, no surrogate\<close>
  "second3 x c \<longleftrightarrow> between (if x = 224 then 160 else 128) (if x = 237 then 159 else 191) c"

definition second4 :: "nat \<Rightarrow> char \<Rightarrow> bool" where
  \<comment> \<open>the second byte of a four byte sequence: no overlong form, at most U+10FFFF\<close>
  "second4 x c \<longleftrightarrow> between (if x = 240 then 144 else 128) (if x = 244 then 143 else 191) c"

fun utf8_valid :: "bytes \<Rightarrow> bool" where
  "utf8_valid [] = True"
| "utf8_valid (a # r) =
     (if byte a < 128 then utf8_valid r
      else if between 194 223 a then (case r of b # r' \<Rightarrow> cont b \<and> utf8_valid r' | _ \<Rightarrow> False)
      else if between 224 239 a then
        (case r of b # c # r' \<Rightarrow> second3 (byte a) b \<and> cont c \<and> utf8_valid r' | _ \<Rightarrow> False)
      else if between 240 244 a then
        (case r of b # c # d # r' \<Rightarrow>
           second4 (byte a) b \<and> cont c \<and> cont d \<and> utf8_valid r' | _ \<Rightarrow> False)
      else False)"

text \<open>\<^verbatim>\<open>utf8.DecodeRune\<close>: the rune and its width; (65533, 1) marks an invalid sequence.\<close>

fun decode_rune :: "bytes \<Rightarrow> nat \<times> nat" where
  "decode_rune [] = (65533, 0)"
| "decode_rune (a # r) =
     (if byte a < 128 then (byte a, 1)
      else if between 194 223 a then
        (case r of b # _ \<Rightarrow> if cont b then ((byte a - 192) * 64 + (byte b - 128), 2) else (65533, 1)
         | _ \<Rightarrow> (65533, 1))
      else if between 224 239 a then
        (case r of b # c # _ \<Rightarrow>
           if second3 (byte a) b \<and> cont c
           then ((byte a - 224) * 4096 + (byte b - 128) * 64 + (byte c - 128), 3) else (65533, 1)
         | _ \<Rightarrow> (65533, 1))
      else if between 240 244 a then
        (case r of b # c # d # _ \<Rightarrow>
           if second4 (byte a) b \<and> cont c \<and> cont d
           then ((byte a - 240) * 262144 + (byte b - 128) * 4096 + (byte c - 128) * 64
                 + (byte d - 128), 4) else (65533, 1)
         | _ \<Rightarrow> (65533, 1))
      else (65533, 1))"

text \<open>\<^verbatim>\<open>utf8.AppendRune\<close>, with U+FFFD for a surrogate or a value out of range.\<close>

definition encode_rune :: "nat \<Rightarrow> bytes" where
  "encode_rune r =
     (let r = (if r > 1114111 \<or> (55296 \<le> r \<and> r \<le> 57343) then 65533 else r) in
      if r < 128 then [char_of r]
      else if r < 2048 then [char_of (192 + r div 64), char_of (128 + r mod 64)]
      else if r < 65536 then
        [char_of (224 + r div 4096), char_of (128 + r div 64 mod 64), char_of (128 + r mod 64)]
      else [char_of (240 + r div 262144), char_of (128 + r div 4096 mod 64),
            char_of (128 + r div 64 mod 64), char_of (128 + r mod 64)])"

lemma utf8_valid_append:
  "utf8_valid xs \<Longrightarrow> utf8_valid (xs @ ys) \<longleftrightarrow> utf8_valid ys"
proof (induction xs rule: utf8_valid.induct)
  case (2 a r)
  from "2.prems" consider "byte a < 128" | "\<not> byte a < 128" "between 194 223 a"
    | "\<not> byte a < 128" "\<not> between 194 223 a" "between 224 239 a"
    | "\<not> byte a < 128" "\<not> between 194 223 a" "\<not> between 224 239 a" "between 240 244 a"
    by (fastforce split: if_splits)
  then show ?case
    by cases (use 2 in \<open>simp; (simp split: list.splits)?\<close>)+
qed simp

lemma utf8_valid_ascii: "(\<And>c. c \<in> set s \<Longrightarrow> byte c < 128) \<Longrightarrow> utf8_valid s"
  by (induction s) auto

end
