(* ===== verification/Go_Json.thy ===== *)
theory Go_Json
  imports Ingest_Prelude
begin

text \<open>
  The part of Go's \<^verbatim>\<open>encoding/json\<close> the program relies on, on the bytes of a document.
  A document is first cut into lexemes (token, its source text, the white space before it).
  The grammar is the pushdown machine of the package's scanner: what is expected next, and
  a stack with one entry per open object or array.  \<open>take_value\<close> runs it over the lexemes
  until one value is complete; \<open>json_valid\<close> is \<^verbatim>\<open>json.Valid\<close>; \<open>members\<close> and
  \<open>elements\<close> cut an object or array into the source text of its parts, which is what
  decoding into a struct, a map or a slice of \<^verbatim>\<open>json.RawMessage\<close> sees; \<open>unquote\<close> and
  \<open>quote\<close> read and write string literals; \<open>compact_lex\<close> drops the white space between
  tokens as the encoder does with a raw message.
\<close>

section \<open>Lexemes\<close>

datatype token =
    TLBrace | TRBrace | TLBracket | TRBracket | TColon | TComma
  | TString bytes  \<comment> \<open>the source bytes between the quotes\<close>
  | TNumber bytes
  | TTrue | TFalse | TNull
  | TBad  \<comment> \<open>the source stops being a token here\<close>

record lexeme =
  lx_space :: bytes
  lx_text :: bytes
  lx_token :: token

definition hex4 :: "bytes \<Rightarrow> bool" where
  "hex4 s \<longleftrightarrow> 4 \<le> length s \<and> list_all is_hex (take 4 s)"

definition is_escape :: "char \<Rightarrow> bool" where
  "is_escape e \<longleftrightarrow> e \<in> {CHR ''b'', CHR ''f'', CHR ''n'', CHR ''r'', CHR ''t'', backslash_c, CHR ''/'', quote_c}"

text \<open>A string literal after its opening quote: the bytes before the closing quote, the rest.\<close>

fun lex_string :: "bytes \<Rightarrow> (bytes \<times> bytes) option" where
  "lex_string [] = None"
| "lex_string (c # cs) =
     (if c = quote_c then Some ([], cs)
      else if c = backslash_c then
        (case cs of [] \<Rightarrow> None
         | e # es \<Rightarrow>
            if is_escape e
            then map_option (\<lambda>(s, r). (c # e # s, r)) (lex_string es)
            else if e = CHR ''u'' \<and> hex4 es
            then map_option (\<lambda>(s, r). (c # e # take 4 es @ s, r)) (lex_string (drop 4 es))
            else None)
      else if byte c < 32 then None
      else map_option (\<lambda>(s, r). (c # s, r)) (lex_string cs))"

definition span_while :: "('a \<Rightarrow> bool) \<Rightarrow> 'a list \<Rightarrow> 'a list \<times> 'a list" where
  "span_while P xs = (takeWhile P xs, dropWhile P xs)"

text \<open>A number: sign, integer part without superfluous zero, fraction, exponent.\<close>

definition lex_int :: "bytes \<Rightarrow> (bytes \<times> bytes) option" where
  "lex_int s =
     (case s of [] \<Rightarrow> None
      | c # cs \<Rightarrow> if c = CHR ''0'' then Some ([c], cs)
                 else if is_digit c then Some (span_while is_digit s) else None)"

definition lex_frac :: "bytes \<Rightarrow> (bytes \<times> bytes) option" where
  "lex_frac s =
     (case s of c # cs \<Rightarrow>
        if c = CHR ''.'' then
          (case span_while is_digit cs of (ds, r) \<Rightarrow> if ds = [] then None else Some (c # ds, r))
        else Some ([], s)
      | [] \<Rightarrow> Some ([], []))"

definition lex_exp :: "bytes \<Rightarrow> (bytes \<times> bytes) option" where
  "lex_exp s =
     (case s of c # cs \<Rightarrow>
        if c = CHR ''e'' \<or> c = CHR ''E'' then
          (let (sg, r0) = (case cs of d # ds \<Rightarrow> if d = CHR ''+'' \<or> d = CHR ''-'' then ([d], ds) else ([], cs)
                           | [] \<Rightarrow> ([], []))
           in case span_while is_digit r0 of (ds, r) \<Rightarrow>
                if ds = [] then None else Some (c # sg @ ds, r))
        else Some ([], s)
      | [] \<Rightarrow> Some ([], []))"

definition lex_number :: "bytes \<Rightarrow> (bytes \<times> bytes) option" where
  "lex_number s =
     (let (sg, s1) = (case s of c # cs \<Rightarrow> if c = CHR ''-'' then ([c], cs) else ([], s) | [] \<Rightarrow> ([], []))
      in case lex_int s1 of None \<Rightarrow> None
         | Some (i, s2) \<Rightarrow>
             (case lex_frac s2 of None \<Rightarrow> None
              | Some (f, s3) \<Rightarrow>
                  (case lex_exp s3 of None \<Rightarrow> None
                   | Some (x, s4) \<Rightarrow> Some (sg @ i @ f @ x, s4))))"

definition lex_token :: "bytes \<Rightarrow> (token \<times> bytes \<times> bytes) option" where
  \<comment> \<open>token, source text, rest\<close>
  "lex_token s =
     (case s of [] \<Rightarrow> None
      | c # cs \<Rightarrow>
        if c = CHR ''{'' then Some (TLBrace, [c], cs)
        else if c = CHR ''}'' then Some (TRBrace, [c], cs)
        else if c = CHR ''['' then Some (TLBracket, [c], cs)
        else if c = CHR '']'' then Some (TRBracket, [c], cs)
        else if c = CHR '':'' then Some (TColon, [c], cs)
        else if c = CHR '','' then Some (TComma, [c], cs)
        else if c = quote_c then
          (case lex_string cs of None \<Rightarrow> None
           | Some (b, r) \<Rightarrow> Some (TString b, quote_c # b @ [quote_c], r))
        else if take 4 s = ''true'' then Some (TTrue, ''true'', drop 4 s)
        else if take 5 s = ''false'' then Some (TFalse, ''false'', drop 5 s)
        else if take 4 s = ''null'' then Some (TNull, ''null'', drop 4 s)
        else (case lex_number s of None \<Rightarrow> None | Some (n, r) \<Rightarrow> Some (TNumber n, n, r)))"

lemma lex_string_text: "lex_string s = Some (b, r) \<Longrightarrow> s = b @ quote_c # r"
proof (induction s arbitrary: b rule: lex_string.induct)
  case (2 c cs)
  show ?case
  proof (cases "c = backslash_c")
    case True
    then obtain e es where cs: "cs = e # es"
      using "2.prems" by (cases cs) auto
    show ?thesis
    proof (cases "is_escape e")
      case True
      then show ?thesis using "2.prems" "2.IH"(1) \<open>c = backslash_c\<close> cs by auto
    next
      case False
      then have u: "e = CHR ''u''" "hex4 es"
        using "2.prems" \<open>c = backslash_c\<close> cs by (auto split: if_splits)
      then obtain s' where b: "b = c # e # take 4 es @ s'" and l: "lex_string (drop 4 es) = Some (s', r)"
        using "2.prems" \<open>c = backslash_c\<close> cs False by auto
      have "drop 4 es = s' @ quote_c # r"
        using "2.IH"(2) \<open>c = backslash_c\<close> cs False u l by simp
      then have "es = take 4 es @ s' @ quote_c # r"
        by (metis append_take_drop_id)
      then show ?thesis using b cs by simp
    qed
  next
    case False
    then show ?thesis using "2.prems" "2.IH"(3) by (auto split: if_splits)
  qed
qed simp

lemma span_while_append: "span_while P xs = (a, b) \<Longrightarrow> a @ b = xs"
  by (auto simp: span_while_def)

lemma lex_int_text: "lex_int s = Some (t, r) \<Longrightarrow> s = t @ r \<and> t \<noteq> []"
  by (auto simp: lex_int_def span_while_def split: list.splits if_splits)

lemma lex_frac_text: "lex_frac s = Some (t, r) \<Longrightarrow> s = t @ r"
  by (auto simp: lex_frac_def span_while_def split: list.splits if_splits)

lemma lex_exp_text: "lex_exp s = Some (t, r) \<Longrightarrow> s = t @ r"
  by (auto simp: lex_exp_def span_while_def Let_def split: list.splits if_splits prod.splits)

lemma lex_number_text: "lex_number s = Some (t, r) \<Longrightarrow> s = t @ r \<and> t \<noteq> []"
  by (auto simp: lex_number_def Let_def split: list.splits if_splits prod.splits option.splits
      dest!: lex_int_text lex_frac_text lex_exp_text)

lemma lex_token_text:
  assumes "lex_token s = Some (t, x, r)"
  shows "s = x @ r \<and> x \<noteq> []"
proof -
  have lit: "take n z = w \<Longrightarrow> z = w @ drop n z" for n w and z :: bytes
    by (metis append_take_drop_id)
  from assms show ?thesis
    by (auto simp: lex_token_def split: list.splits if_splits option.splits
        dest: lex_string_text lex_number_text lit)
qed

function lex :: "bytes \<Rightarrow> lexeme list" where
  "lex s =
     (let ws = takeWhile is_space s; s' = dropWhile is_space s in
      if s' = [] then []
      else case lex_token s' of
             None \<Rightarrow> [\<lparr>lx_space = ws, lx_text = s', lx_token = TBad\<rparr>]
           | Some (t, x, r) \<Rightarrow> \<lparr>lx_space = ws, lx_text = x, lx_token = t\<rparr> # lex r)"
  by pat_completeness auto
termination
proof (relation "measure length", goal_cases)
  case (2 s ws s' p t q x r)
  then have "s' = x @ r" "x \<noteq> []" by (auto dest: lex_token_text)
  then have "length r < length s'" by simp
  also have "\<dots> \<le> length s" using 2 by (simp add: length_dropWhile_le)
  finally show ?case by simp
qed simp

declare lex.simps [simp del]


section \<open>The grammar\<close>

datatype frame = FObjectKey | FObjectValue | FArrayValue

datatype expect = EValue | EValueOrEnd | EKeyOrEnd | EKey | EDone

type_synonym scan = "expect \<times> frame list"

definition max_nesting :: int where
  "max_nesting = 10000"

definition push :: "frame \<Rightarrow> expect \<Rightarrow> frame list \<Rightarrow> scan option" where
  "push f x st = (if int (length st) < max_nesting then Some (x, f # st) else None)"

definition begin_value :: "token \<Rightarrow> frame list \<Rightarrow> scan option" where
  "begin_value t st =
     (case t of
        TLBrace \<Rightarrow> push FObjectKey EKeyOrEnd st
      | TLBracket \<Rightarrow> push FArrayValue EValueOrEnd st
      | TString _ \<Rightarrow> Some (EDone, st)
      | TNumber _ \<Rightarrow> Some (EDone, st)
      | TTrue \<Rightarrow> Some (EDone, st)
      | TFalse \<Rightarrow> Some (EDone, st)
      | TNull \<Rightarrow> Some (EDone, st)
      | _ \<Rightarrow> None)"

definition begin_key :: "token \<Rightarrow> frame list \<Rightarrow> scan option" where
  "begin_key t st = (case t of TString _ \<Rightarrow> Some (EDone, st) | _ \<Rightarrow> None)"

fun scan_step :: "scan \<Rightarrow> token \<Rightarrow> scan option" where
  "scan_step (EValue, st) t = begin_value t st"
| "scan_step (EValueOrEnd, st) t =
     (if t = TRBracket then Some (EDone, tl st) else begin_value t st)"
| "scan_step (EKeyOrEnd, st) t =
     (if t = TRBrace then Some (EDone, tl st) else begin_key t st)"
| "scan_step (EKey, st) t = begin_key t st"
| "scan_step (EDone, []) t = None"
| "scan_step (EDone, FObjectKey # st) t =
     (if t = TColon then Some (EValue, FObjectValue # st) else None)"
| "scan_step (EDone, FObjectValue # st) t =
     (if t = TComma then Some (EKey, FObjectKey # st)
      else if t = TRBrace then Some (EDone, st) else None)"
| "scan_step (EDone, FArrayValue # st) t =
     (if t = TComma then Some (EValue, FArrayValue # st)
      else if t = TRBracket then Some (EDone, st) else None)"

text \<open>Run the machine until the value it started on is complete: its lexemes and the rest.\<close>

fun take_from :: "scan \<Rightarrow> lexeme list \<Rightarrow> (lexeme list \<times> lexeme list) option" where
  "take_from sc [] = (if sc = (EDone, []) then Some ([], []) else None)"
| "take_from sc (l # ls) =
     (if sc = (EDone, []) then Some ([], l # ls)
      else case scan_step sc (lx_token l) of None \<Rightarrow> None
           | Some sc' \<Rightarrow> map_option (\<lambda>(v, r). (l # v, r)) (take_from sc' ls))"

definition take_value :: "lexeme list \<Rightarrow> (lexeme list \<times> lexeme list) option" where
  "take_value = take_from (EValue, [])"

definition json_valid :: "bytes \<Rightarrow> bool" where
  "json_valid raw \<longleftrightarrow> (case take_value (lex raw) of Some (v, r) \<Rightarrow> r = [] | None \<Rightarrow> False)"

fun raw_text :: "lexeme list \<Rightarrow> bytes" where
  "raw_text [] = []"
| "raw_text (l # ls) = lx_text l @ concat (map (\<lambda>m. lx_space m @ lx_text m) ls)"

definition compact_lex :: "lexeme list \<Rightarrow> bytes" where
  "compact_lex ls = concat (map lx_text ls)"

lemma take_from_append: "take_from sc ls = Some (v, r) \<Longrightarrow> ls = v @ r"
  by (induction ls arbitrary: sc v) (auto split: if_splits option.splits)

lemma take_value_append: "take_value ls = Some (v, r) \<Longrightarrow> ls = v @ r"
  unfolding take_value_def by (rule take_from_append)

lemma take_value_nonempty: "take_value ls = Some (v, r) \<Longrightarrow> v \<noteq> []"
  by (cases ls) (auto simp: take_value_def split: option.splits)

lemma take_value_shorter: "take_value ls = Some (v, r) \<Longrightarrow> length r < length ls"
  using take_value_append [of ls v r] take_value_nonempty [of ls v r] by simp

section \<open>Parts of objects and arrays\<close>

function members_from :: "lexeme list \<Rightarrow> (bytes \<times> lexeme list) list option" where
  "members_from ls =
     (case ls of k # c # r \<Rightarrow>
        (case (lx_token k, take_value r) of
           (TString key, Some (v, d # r')) \<Rightarrow>
             if lx_token c \<noteq> TColon then None
             else if lx_token d = TComma then map_option (\<lambda>ms. (key, v) # ms) (members_from r')
             else if lx_token d = TRBrace then Some [(key, v)] else None
         | _ \<Rightarrow> None)
      | _ \<Rightarrow> None)"
  by pat_completeness auto
termination
  by (relation "measure length") (auto dest: take_value_shorter take_value_shorter [OF sym])

declare members_from.simps [simp del]

definition members :: "lexeme list \<Rightarrow> (bytes \<times> lexeme list) list option" where
  "members ls =
     (case ls of l # r \<Rightarrow>
        if lx_token l \<noteq> TLBrace then None
        else if map lx_token r = [TRBrace] then Some [] else members_from r
      | [] \<Rightarrow> None)"

function elements_from :: "lexeme list \<Rightarrow> lexeme list list option" where
  "elements_from ls =
     (case take_value ls of
        Some (v, d # r') \<Rightarrow>
          if lx_token d = TComma then map_option (\<lambda>es. v # es) (elements_from r')
          else if lx_token d = TRBracket then Some [v] else None
      | _ \<Rightarrow> None)"
  by pat_completeness auto
termination
  by (relation "measure length") (auto dest: take_value_shorter take_value_shorter [OF sym])

declare elements_from.simps [simp del]

definition elements :: "lexeme list \<Rightarrow> lexeme list list option" where
  "elements ls =
     (case ls of l # r \<Rightarrow>
        if lx_token l \<noteq> TLBracket then None
        else if map lx_token r = [TRBracket] then Some [] else elements_from r
      | [] \<Rightarrow> None)"

section \<open>String literals\<close>

definition hex_value :: "bytes \<Rightarrow> nat" where
  "hex_value h = (case ParseUint h 16 64 of Some n \<Rightarrow> nat n | None \<Rightarrow> 0)"

definition is_surrogate :: "nat \<Rightarrow> bool" where
  "is_surrogate r \<longleftrightarrow> 55296 \<le> r \<and> r \<le> 57343"

definition is_high :: "nat \<Rightarrow> bool" where
  "is_high r \<longleftrightarrow> 55296 \<le> r \<and> r \<le> 56319"

definition is_low :: "nat \<Rightarrow> bool" where
  "is_low r \<longleftrightarrow> 56320 \<le> r \<and> r \<le> 57343"

definition pair_value :: "nat \<Rightarrow> nat \<Rightarrow> nat" where
  "pair_value hi lo = (hi - 55296) * 1024 + (lo - 56320) + 65536"

definition next_u :: "bytes \<Rightarrow> nat option" where
  \<comment> \<open>the code unit of an escape that starts right here\<close>
  "next_u s = (if take 2 s = [backslash_c, CHR ''u''] \<and> hex4 (drop 2 s)
               then Some (hex_value (take 4 (drop 2 s))) else None)"

definition simple_escape :: "char \<Rightarrow> char" where
  "simple_escape e =
     (if e = CHR ''b'' then CHR 0x08 else if e = CHR ''f'' then CHR 0x0C
      else if e = CHR ''n'' then CHR 0x0A else if e = CHR ''r'' then CHR 0x0D
      else if e = CHR ''t'' then CHR 0x09 else e)"

fun unquote :: "bytes \<Rightarrow> bytes" where
  "unquote [] = []"
| "unquote (c # cs) =
     (if c = backslash_c then
        (case cs of [] \<Rightarrow> []
         | e # es \<Rightarrow>
             if e = CHR ''u'' then
               (let rr = hex_value (take 4 es); r = drop 4 es in
                if is_high rr \<and> (case next_u r of Some lo \<Rightarrow> is_low lo | None \<Rightarrow> False)
                then encode_rune (pair_value rr (the (next_u r))) @ unquote (drop 10 es)
                else encode_rune (if is_surrogate rr then 65533 else rr) @ unquote (drop 4 es))
             else simple_escape e # unquote es)
      else if byte c < 128 then c # unquote cs
      else (let (rr, w) = decode_rune (c # cs) in
            if rr = 65533 \<and> w = 1 then encode_rune 65533 @ unquote cs
            else take w (c # cs) @ unquote (drop (w - 1) cs)))"

definition hex_digit :: "nat \<Rightarrow> char" where
  "hex_digit n = (if n < 10 then char_of (48 + n) else char_of (87 + n))"

definition quote_ascii :: "bool \<Rightarrow> char \<Rightarrow> bytes" where
  \<comment> \<open>one byte below 128; the flag is the encoder's escapeHTML\<close>
  "quote_ascii html c =
     (if c = quote_c \<or> c = backslash_c then [backslash_c, c]
      else if byte c = 8 then [backslash_c, CHR ''b'']
      else if byte c = 12 then [backslash_c, CHR ''f'']
      else if byte c = 10 then [backslash_c, CHR ''n'']
      else if byte c = 13 then [backslash_c, CHR ''r'']
      else if byte c = 9 then [backslash_c, CHR ''t'']
      else if byte c < 32 \<or> (html \<and> c \<in> {CHR ''<'', CHR ''>'', CHR ''&''})
      then [backslash_c, CHR ''u'', CHR ''0'', CHR ''0'', hex_digit (byte c div 16), hex_digit (byte c mod 16)]
      else [c])"

fun quote_body :: "bool \<Rightarrow> bytes \<Rightarrow> bytes" where
  "quote_body html [] = []"
| "quote_body html (c # cs) =
     (if byte c < 128 then quote_ascii html c @ quote_body html cs
      else (let (rr, w) = decode_rune (c # cs) in
            if rr = 65533 \<and> w = 1
            then [backslash_c] @ ''ufffd'' @ quote_body html cs
            else if rr = 8232 \<or> rr = 8233
            then [backslash_c] @ ''u202'' @ [hex_digit (rr mod 16)] @ quote_body html (drop (w - 1) cs)
            else take w (c # cs) @ quote_body html (drop (w - 1) cs)))"

definition quote :: "bool \<Rightarrow> bytes \<Rightarrow> bytes" where
  "quote html s = quote_c # quote_body html s @ [quote_c]"

section \<open>Struct fields\<close>

fun fold_name :: "bytes \<Rightarrow> bytes" where
  "fold_name [] = []"
| "fold_name (c # cs) =
     (if between 97 122 c then char_of (byte c - 32) # fold_name cs
      else if take 2 (c # cs) = [CHR 0xC5, CHR 0xBF] then CHR ''S'' # fold_name (drop 1 cs)
      else if take 3 (c # cs) = [CHR 0xE2, CHR 0x84, CHR 0xAA] then CHR ''K'' # fold_name (drop 2 cs)
      else c # fold_name cs)"

text \<open>The field a member sets: the exact name first, else the first equal under folding.\<close>

definition field_of :: "bytes list \<Rightarrow> bytes \<Rightarrow> bytes option" where
  "field_of names key =
     (if key \<in> set names then Some key
      else find (\<lambda>n. fold_name n = fold_name key) names)"

end
