(* ===== verification/Go_Time.thy ===== *)
theory Go_Time
  imports Ingest_Prelude
begin

text \<open>
  Instants, durations and contexts of the Go library, as the program uses them.  A
  \<^verbatim>\<open>time.Time\<close> is the number of seconds since the first instant of year 1 in UTC (the zero
  time), the nanoseconds within the second and the offset of its location.  Parsing is
  \<^verbatim>\<open>time.Parse\<close> with the RFC 3339 layout, as \<^verbatim>\<open>Time.UnmarshalJSON\<close> calls it, with the
  forms that layout accepts beyond the standard (an hour of one digit, a comma before the
  fraction, offsets up to 24:60).  Formatting is \<^verbatim>\<open>Time.MarshalJSON\<close>, which refuses years
  outside 0 to 9999 and offsets of 24 hours or more.  A \<^verbatim>\<open>context.Context\<close> is the moment it
  is done and the error it then reports.
\<close>

section \<open>Calendar\<close>

definition leap :: "int \<Rightarrow> bool" where
  "leap y \<longleftrightarrow> y mod 4 = 0 \<and> (y mod 100 \<noteq> 0 \<or> y mod 400 = 0)"

definition days_in :: "int \<Rightarrow> int \<Rightarrow> int" where
  "days_in y m =
     (if m = 2 then (if leap y then 29 else 28)
      else if m = 4 \<or> m = 6 \<or> m = 9 \<or> m = 11 then 30 else 31)"

definition days_before_year :: "int \<Rightarrow> int" where
  \<comment> \<open>days from the start of year 1 to the start of year y\<close>
  "days_before_year y = 365 * (y - 1) + (y - 1) div 4 - (y - 1) div 100 + (y - 1) div 400"

fun days_before_month :: "int \<Rightarrow> nat \<Rightarrow> int" where
  \<comment> \<open>days of year y before its month of the given number, counted from 0\<close>
  "days_before_month y 0 = 0"
| "days_before_month y (Suc k) = days_before_month y k + days_in y (int k + 1)"

definition day_number :: "int \<Rightarrow> int \<Rightarrow> int \<Rightarrow> int" where
  "day_number y m d = days_before_year y + days_before_month y (nat (m - 1)) + (d - 1)"

definition year_of_day :: "int \<Rightarrow> int" where
  "year_of_day n =
     (let y = n * 400 div 146097 + 1 in
      if n < days_before_year y then y - 1
      else if days_before_year (y + 1) \<le> n then y + 1 else y)"

fun month_search :: "int \<Rightarrow> int \<Rightarrow> nat \<Rightarrow> int" where
  \<comment> \<open>the last month whose first day is not after day r of year y\<close>
  "month_search y r 0 = 1"
| "month_search y r (Suc k) =
     (if days_before_month y (Suc k) \<le> r then int k + 2 else month_search y r k)"

definition civil :: "int \<Rightarrow> int \<times> int \<times> int" where
  "civil n =
     (let y = year_of_day n; r = n - days_before_year y; m = month_search y r 11
      in (y, m, r - days_before_month y (nat (m - 1)) + 1))"

section \<open>Time\<close>

record go_time =
  t_sec :: int
  t_nsec :: nat
  t_offset :: int

definition zero_time :: go_time where
  "zero_time = \<lparr>t_sec = 0, t_nsec = 0, t_offset = 0\<rparr>"

definition IsZero :: "go_time \<Rightarrow> bool" where
  [go_defs]: "IsZero t \<longleftrightarrow> t_sec t = 0 \<and> t_nsec t = 0"

definition UTC :: "go_time \<Rightarrow> go_time" where
  [go_defs]: "UTC t = t\<lparr>t_offset := 0\<rparr>"

definition time_equal :: "go_time \<Rightarrow> go_time \<Rightarrow> bool" where
  [go_defs]: "time_equal a b \<longleftrightarrow> t_sec a = t_sec b \<and> t_nsec a = t_nsec b"

section \<open>Parsing\<close>

definition num :: "bytes \<Rightarrow> nat option" where
  \<comment> \<open>decimal digits only\<close>
  "num s = (if s \<noteq> [] \<and> list_all is_digit s then map_option nat (digits_value 10 0 s) else None)"

definition fixed :: "nat \<Rightarrow> bytes \<Rightarrow> (nat \<times> bytes) option" where
  \<comment> \<open>exactly n digits\<close>
  "fixed n s = (if n \<le> length s then map_option (\<lambda>v. (v, drop n s)) (num (take n s)) else None)"

definition upto2 :: "bytes \<Rightarrow> (nat \<times> bytes) option" where
  \<comment> \<open>one digit, or two when a second one follows\<close>
  "upto2 s =
     (case s of a # b # r \<Rightarrow> if is_digit a \<and> is_digit b then fixed 2 s else fixed 1 s
      | _ \<Rightarrow> fixed 1 s)"

definition lit :: "char \<Rightarrow> bytes \<Rightarrow> bytes option" where
  "lit c s = (case s of d # r \<Rightarrow> if d = c then Some r else None | [] \<Rightarrow> None)"

definition ranged :: "nat \<Rightarrow> nat \<Rightarrow> (nat \<times> bytes) option \<Rightarrow> (nat \<times> bytes) option" where
  "ranged lo hi p = (case p of Some (v, r) \<Rightarrow> if lo \<le> v \<and> v \<le> hi then p else None | None \<Rightarrow> None)"

definition then_lit :: "char \<Rightarrow> (nat \<times> bytes) option \<Rightarrow> (nat \<times> bytes) option" where
  "then_lit c p =
     (case p of None \<Rightarrow> None
      | Some (v, s) \<Rightarrow> map_option (\<lambda>r. (v, r)) (lit c s))"

definition fraction :: "bytes \<Rightarrow> nat \<times> bytes" where
  \<comment> \<open>nanoseconds of an optional fraction; digits beyond the ninth are dropped\<close>
  "fraction s =
     (case s of a # b # r \<Rightarrow>
        if (a = CHR ''.'' \<or> a = CHR '','') \<and> is_digit b then
          (let ds = takeWhile is_digit (b # r); kept = take 9 ds
           in (the (num kept) * 10 ^ (9 - length kept), dropWhile is_digit (b # r)))
        else (0, s)
      | _ \<Rightarrow> (0, s))"

definition zone :: "bytes \<Rightarrow> int option" where
  \<comment> \<open>the whole rest is the offset\<close>
  "zone s =
     (if s = ''Z'' then Some 0
      else case s of g # r \<Rightarrow>
        (case then_lit CHR '':'' (fixed 2 r) of
           None \<Rightarrow> None
         | Some (hh, r') \<Rightarrow>
             (case fixed 2 r' of
                None \<Rightarrow> None
              | Some (mm, r'') \<Rightarrow>
                  if r'' \<noteq> [] \<or> hh > 24 \<or> mm > 60 then None
                  else if g = CHR ''+'' then Some ((int hh * 60 + int mm) * 60)
                  else if g = CHR ''-'' then Some (- ((int hh * 60 + int mm) * 60))
                  else None))
      | [] \<Rightarrow> None)"

definition make_time :: "nat \<Rightarrow> nat \<Rightarrow> nat \<Rightarrow> nat \<Rightarrow> nat \<Rightarrow> nat \<Rightarrow> nat \<Rightarrow> int \<Rightarrow> go_time" where
  "make_time y mo d h mi s ns off =
     \<lparr>t_sec = day_number (int y) (int mo) (int d) * 86400 + (int h * 3600 + int mi * 60 + int s) - off,
      t_nsec = ns, t_offset = off\<rparr>"

definition parse_rfc3339 :: "bytes \<Rightarrow> go_time option" where
  "parse_rfc3339 s0 =
     (case then_lit CHR ''-'' (fixed 4 s0) of None \<Rightarrow> None | Some (y, s1) \<Rightarrow>
     (case then_lit CHR ''-'' (ranged 1 12 (fixed 2 s1)) of None \<Rightarrow> None | Some (mo, s2) \<Rightarrow>
     (case then_lit CHR ''T'' (fixed 2 s2) of None \<Rightarrow> None | Some (d, s3) \<Rightarrow>
     (case then_lit CHR '':'' (ranged 0 23 (upto2 s3)) of None \<Rightarrow> None | Some (h, s4) \<Rightarrow>
     (case then_lit CHR '':'' (ranged 0 59 (fixed 2 s4)) of None \<Rightarrow> None | Some (mi, s5) \<Rightarrow>
     (case ranged 0 59 (fixed 2 s5) of None \<Rightarrow> None | Some (s, s6) \<Rightarrow>
     (case fraction s6 of (ns, s7) \<Rightarrow>
     (case zone s7 of None \<Rightarrow> None | Some off \<Rightarrow>
        if 1 \<le> d \<and> int d \<le> days_in (int y) (int mo) then Some (make_time y mo d h mi s ns off)
        else None))))))))"

section \<open>Formatting\<close>

definition pad :: "nat \<Rightarrow> nat \<Rightarrow> bytes" where
  "pad w n = replicate (w - length (dec n)) CHR ''0'' @ dec n"

definition format_nano :: "nat \<Rightarrow> bytes" where
  \<comment> \<open>the fraction with trailing zeros dropped, nothing for zero\<close>
  "format_nano ns =
     (if ns = 0 then [] else CHR ''.'' # rev (dropWhile (\<lambda>c. c = CHR ''0'') (rev (pad 9 ns))))"

definition format_zone :: "int \<Rightarrow> bytes" where
  "format_zone off =
     (if off = 0 then ''Z''
      else (let m = nat (\<bar>off\<bar> div 60) in
            (if off < 0 \<and> m \<noteq> 0 then CHR ''-'' else CHR ''+'') # pad 2 (m div 60) @ CHR '':'' # pad 2 (m mod 60)))"

definition format_rfc3339 :: "go_time \<Rightarrow> bytes option" where
  "format_rfc3339 t =
     (let local = t_sec t + t_offset t; (y, mo, d) = civil (local div 86400);
          r = nat (local mod 86400) in
      if y < 0 \<or> 9999 < y \<or> 24 \<le> \<bar>t_offset t\<bar> div 3600 then None
      else Some (pad 4 (nat y) @ ''-'' @ pad 2 (nat mo) @ ''-'' @ pad 2 (nat d) @ ''T''
                 @ pad 2 (r div 3600) @ '':'' @ pad 2 (r div 60 mod 60) @ '':'' @ pad 2 (r mod 60)
                 @ format_nano (t_nsec t) @ format_zone (t_offset t)))"

definition clock_time :: "int \<Rightarrow> go_time" where
  \<comment> \<open>\<^verbatim>\<open>time.Now().UTC()\<close>\<close>
  "clock_time now = \<lparr>t_sec = now div 1000000000, t_nsec = nat (now mod 1000000000), t_offset = 0\<rparr>"

section \<open>Contexts\<close>

datatype ctx_error = Canceled | DeadlineExceeded

type_synonym ctx = "(int \<times> ctx_error) option"

definition ctx_err :: "ctx \<Rightarrow> int \<Rightarrow> ctx_error option" where
  [go_defs]: "ctx_err ctx now =
     (case ctx of None \<Rightarrow> None | Some (at, e) \<Rightarrow> if at \<le> now then Some e else None)"

definition deadline :: "ctx \<Rightarrow> int \<Rightarrow> int \<Rightarrow> int \<times> ctx_error" where
  \<comment> \<open>when a context derived with a timeout is done, and why\<close>
  [go_defs]: "deadline ctx now d =
     (case ctx of None \<Rightarrow> (now + d, DeadlineExceeded)
      | Some (at, e) \<Rightarrow> if at \<le> now + d then (at, e) else (now + d, DeadlineExceeded))"

definition with_timeout :: "ctx \<Rightarrow> int \<Rightarrow> int \<Rightarrow> ctx" where
  [go_defs]: "with_timeout ctx now d = Some (deadline ctx now d)"

lemma deadline_le [simp]: "fst (deadline ctx now d) \<le> now + d"
  by (auto simp: deadline_def split: option.splits)

definition millisecond :: int where "millisecond = 1000000"
definition second :: int where "second = 1000000000"

lemma ctx_err_later: "ctx_err ctx now = Some e \<Longrightarrow> now \<le> later \<Longrightarrow> ctx_err ctx later = Some e"
  by (auto simp: ctx_err_def split: option.splits if_splits)

lemma with_timeout_done:
  "ctx_err ctx t = Some e \<Longrightarrow> \<exists>e'. ctx_err (with_timeout ctx now d) t = Some e'"
  by (auto simp: ctx_err_def with_timeout_def deadline_def split: option.splits if_splits)

lemma with_timeout_expires:
  "now + d \<le> t \<Longrightarrow> \<exists>e. ctx_err (with_timeout ctx now d) t = Some e"
  by (auto simp: ctx_err_def with_timeout_def deadline_def split: option.splits)

end
