(* ===== verification/Event.thy ===== *)
theory Event
  imports Go_Json Go_Time
begin

text \<open>
  Package \<^verbatim>\<open>internal/event\<close>: the event contract shared by the HTTP API and the broker.
  \<^verbatim>\<open>event.go\<close> gives the data and \<open>validate\<close> and \<open>Accept\<close>, \<^verbatim>\<open>decode.go\<close> the
  decoders and the encoder, \<^verbatim>\<open>jsonb.go\<close> the checks that keep PostgreSQL's JSONB happy.
  The package \<^verbatim>\<open>github.com/google/uuid\<close> is not part of the sources: its text codec is the
  parameter \<open>uuid_pkg\<close>.
\<close>

section \<open>Data\<close>

type_synonym uuid = "128 word"

abbreviation uuid_Nil :: uuid where "uuid_Nil \<equiv> 0"

record uuid_pkg =
  uuid_parse :: "bytes \<Rightarrow> uuid option"  \<comment> \<open>UnmarshalText\<close>
  uuid_string :: "uuid \<Rightarrow> bytes"  \<comment> \<open>String, MarshalText\<close>

text \<open>
  What the package documents of its codec: the text has 36 bytes, lower case hexadecimal
  digits and dashes, and parses back.
\<close>

definition uuid_char :: "char \<Rightarrow> bool" where
  "uuid_char c \<longleftrightarrow> between 48 57 c \<or> between 97 102 c \<or> c = CHR ''-''"

definition uuid_codec :: "uuid_pkg \<Rightarrow> bool" where
  "uuid_codec u \<longleftrightarrow>
     (\<forall>x. uuid_parse u (uuid_string u x) = Some x \<and> length (uuid_string u x) = 36 \<and>
          list_all uuid_char (uuid_string u x))"

definition MaxEventBytes :: int where "MaxEventBytes = 256 * 1024"
definition MaxEnvelopeBytes :: int where "MaxEnvelopeBytes = MaxEventBytes + 4096"
definition MaxRequestBytes :: int where "MaxRequestBytes = 1024 * 1024"
definition MaxBatchEvents :: int where "MaxBatchEvents = 100"
definition MaxPayloadDepth :: int where "MaxPayloadDepth = 64"

record Input =
  EventID :: uuid
  EventType :: bytes
  OccurredAt :: go_time
  Payload :: bytes

record Envelope = Input +
  TenantID :: bytes
  ReceivedAt :: go_time

datatype event_error =
    ValidationError bytes bool  \<comment> \<open>Message, TooLarge\<close>
  | PlainError bytes

definition IsTooLarge :: "event_error \<Rightarrow> bool" where
  [go_defs]: "IsTooLarge e = (case e of ValidationError _ big \<Rightarrow> big | PlainError _ \<Rightarrow> False)"

definition invalid :: "bytes \<Rightarrow> event_error" where
  [go_defs]: "invalid message = ValidationError message False"

definition error_text :: "event_error \<Rightarrow> bytes" where
  [go_defs]: "error_text e = (case e of ValidationError m _ \<Rightarrow> m | PlainError m \<Rightarrow> m)"

abbreviation en_dash :: bytes where "en_dash \<equiv> [CHR 0xE2, CHR 0x80, CHR 0x93]"

section \<open>JSONB compatibility\<close>

definition validText :: "bytes \<Rightarrow> bool" where
  [go_defs]: "validText s \<longleftrightarrow> utf8_valid s \<and> CHR 0x00 \<notin> set s"

definition ValidTenant :: "bytes \<Rightarrow> bool" where
  [go_defs]: "ValidTenant s \<longleftrightarrow> 1 \<le> length s \<and> length s \<le> 128 \<and> validText s"

text \<open>The loop of \<^verbatim>\<open>validUnicodeJSON\<close>, from its position to the end of the bytes.\<close>

fun valid_escapes :: "bytes \<Rightarrow> bool" where
  "valid_escapes [] = True"
| "valid_escapes (c # cs) =
     (if c \<noteq> backslash_c then valid_escapes cs
      else case cs of [] \<Rightarrow> False
        | e # es \<Rightarrow>
            if e \<noteq> CHR ''u'' then valid_escapes es
            else if length es < 4 then False
            else (case ParseUint (take 4 es) 16 16 of None \<Rightarrow> False
                  | Some unit \<Rightarrow>
                      if unit = 0 then False
                      else if 56320 \<le> unit \<and> unit \<le> 57343 then False
                      else if 55296 \<le> unit \<and> unit \<le> 56319 then
                        (let r = drop 4 es in
                         if length r < 6 \<or> take 2 r \<noteq> [backslash_c, CHR ''u''] then False
                         else (case ParseUint (take 4 (drop 2 r)) 16 16 of None \<Rightarrow> False
                               | Some low \<Rightarrow>
                                   if low < 56320 \<or> low > 57343 then False
                                   else valid_escapes (drop 10 es)))
                      else valid_escapes (drop 4 es)))"

definition validUnicodeJSON :: "bytes \<Rightarrow> bool" where
  [go_defs]: "validUnicodeJSON raw \<longleftrightarrow> utf8_valid raw \<and> valid_escapes raw"

definition is_e :: "char \<Rightarrow> bool" where
  "is_e c \<longleftrightarrow> c = CHR ''e'' \<or> c = CHR ''E''"

text \<open>The exponent and the mantissa of a number; no exponent counts as 0.\<close>

definition split_exponent :: "bytes \<Rightarrow> (int \<times> bytes) option" where
  "split_exponent s =
     (case dropWhile (\<lambda>c. \<not> is_e c) s of [] \<Rightarrow> Some (0, s)
      | _ # x \<Rightarrow> (case ParseInt x 10 32 of None \<Rightarrow> None
                  | Some v \<Rightarrow> Some (v, takeWhile (\<lambda>c. \<not> is_e c) s)))"

definition representableNumber :: "bytes \<Rightarrow> bool" where
  [go_defs]: "representableNumber number =
     (case split_exponent (TrimPrefix number ''-'') of
        None \<Rightarrow> False
      | Some (exponent, s) \<Rightarrow>
          if exponent > 131072 + int (length s) \<or> exponent < - 16383 - int (length s) then False
          else
            (let whole_len = length (takeWhile (\<lambda>c. c \<noteq> CHR ''.'') s);
                 fraction = (if CHR ''.'' \<in> set s then length s - whole_len - 1 else 0);
                 digits = filter (\<lambda>c. c \<noteq> CHR ''.'') s;
                 leading = length digits - length (dropWhile (\<lambda>c. c = CHR ''0'') digits);
                 whole = (if leading = length digits then 0
                          else int whole_len + exponent - int leading);
                 scale = int fraction - exponent
             in whole \<le> 131072 \<and> scale \<le> 16383))"

text \<open>The token loop of \<^verbatim>\<open>validJSONB\<close>; colons and commas are no tokens of the decoder.\<close>

fun walk_tokens :: "int \<Rightarrow> token list \<Rightarrow> bool" where
  "walk_tokens depth [] = True"
| "walk_tokens depth (t # ts) =
     (case t of
        TLBrace \<Rightarrow> if depth + 1 > MaxPayloadDepth then False else walk_tokens (depth + 1) ts
      | TLBracket \<Rightarrow> if depth + 1 > MaxPayloadDepth then False else walk_tokens (depth + 1) ts
      | TRBrace \<Rightarrow> walk_tokens (depth - 1) ts
      | TRBracket \<Rightarrow> walk_tokens (depth - 1) ts
      | TNumber n \<Rightarrow> if \<not> representableNumber n then False else walk_tokens depth ts
      | TBad \<Rightarrow> False
      | _ \<Rightarrow> walk_tokens depth ts)"

definition validJSONB :: "bytes \<Rightarrow> bool" where
  [go_defs]: "validJSONB raw \<longleftrightarrow>
     json_valid raw \<and> validUnicodeJSON raw \<and> walk_tokens 0 (map lx_token (lex raw))"

section \<open>Validation\<close>

definition json_object :: "bytes \<Rightarrow> bool" where
  \<comment> \<open>unmarshalling into a map succeeds and leaves a map\<close>
  "json_object raw \<longleftrightarrow>
     json_valid raw \<and> (case lex raw of l # _ \<Rightarrow> lx_token l = TLBrace | [] \<Rightarrow> False)"

definition validate :: "'a Input_scheme \<Rightarrow> event_error option" where
  [go_defs]: "validate inp =
     (if EventID inp = uuid_Nil then Some (invalid ''event_id must be a nonzero UUID'')
      else if length (EventType inp) = 0 \<or> length (EventType inp) > 128 \<or> \<not> validText (EventType inp)
      then Some (invalid (''event_type must contain 1'' @ en_dash @ ''128 bytes''))
      else if IsZero (OccurredAt inp)
      then Some (invalid ''occurred_at must be an RFC 3339 timestamp'')
      else if \<not> json_object (Payload inp) then Some (invalid ''payload must be a JSON object'')
      else if \<not> validJSONB (Payload inp)
      then Some (invalid ''payload must be PostgreSQL-compatible JSON with nesting at most 64'')
      else None)"

definition Accept :: "Input \<Rightarrow> bytes \<Rightarrow> go_time \<Rightarrow> event_error + Envelope" where
  [go_defs]: "Accept inp tenant received =
     (case validate inp of
        Some e \<Rightarrow> Inl e
      | None \<Rightarrow>
          if \<not> ValidTenant tenant \<or> IsZero received
          then Inl (PlainError ''invalid server event identity'')
          else Inr (Input.extend inp \<lparr>TenantID = tenant, ReceivedAt = UTC received\<rparr>))"

section \<open>Decoding\<close>

text \<open>
  Decoding a value into a struct: null leaves it alone, every member of an object sets the
  field it names, an unknown name or a value of the wrong kind is an error.
\<close>

fun set_members ::
  "bytes list \<Rightarrow> (bytes \<Rightarrow> lexeme list \<Rightarrow> 'a \<Rightarrow> 'a option) \<Rightarrow> (bytes \<times> lexeme list) list \<Rightarrow> 'a \<Rightarrow> 'a option"
where
  "set_members names put [] dst = Some dst"
| "set_members names put ((key, v) # ms) dst =
     (case field_of names (unquote key) of None \<Rightarrow> None
      | Some f \<Rightarrow> (case put f v dst of None \<Rightarrow> None | Some dst' \<Rightarrow> set_members names put ms dst'))"

definition decode_struct ::
  "bytes list \<Rightarrow> (bytes \<Rightarrow> lexeme list \<Rightarrow> 'a \<Rightarrow> 'a option) \<Rightarrow> 'a \<Rightarrow> lexeme list \<Rightarrow> 'a option"
where
  "decode_struct names put dst v =
     (if map lx_token v = [TNull] then Some dst
      else case members v of None \<Rightarrow> None | Some ms \<Rightarrow> set_members names put ms dst)"

definition decode ::
  "bytes list \<Rightarrow> (bytes \<Rightarrow> lexeme list \<Rightarrow> 'a \<Rightarrow> 'a option) \<Rightarrow> 'a \<Rightarrow> bytes \<Rightarrow> int \<Rightarrow> event_error + 'a"
where
  [go_defs]: "decode names put dst raw limit =
     (if int (length raw) > limit then Inl (ValidationError ''event or request exceeds byte limit'' True)
      else if \<not> validUnicodeJSON raw
      then Inl (invalid ''JSON text must be valid Unicode without NUL'')
      else case take_value (lex raw) of
             None \<Rightarrow> Inl (invalid ''invalid event JSON or field'')
           | Some (v, rest) \<Rightarrow>
               (case decode_struct names put dst v of
                  None \<Rightarrow> Inl (invalid ''invalid event JSON or field'')
                | Some r \<Rightarrow> if rest = [] then Inr r
                            else Inl (invalid ''expected one JSON document'')))"

definition json_string :: "lexeme list \<Rightarrow> bytes \<Rightarrow> bytes option" where
  "json_string v old =
     (case map lx_token v of [TNull] \<Rightarrow> Some old | [TString s] \<Rightarrow> Some (unquote s) | _ \<Rightarrow> None)"

definition json_uuid :: "uuid_pkg \<Rightarrow> lexeme list \<Rightarrow> uuid \<Rightarrow> uuid option" where
  "json_uuid u v old =
     (case map lx_token v of [TNull] \<Rightarrow> Some old
      | [TString s] \<Rightarrow> uuid_parse u (unquote s) | _ \<Rightarrow> None)"

definition json_time :: "lexeme list \<Rightarrow> go_time \<Rightarrow> go_time option" where
  \<comment> \<open>\<^verbatim>\<open>Time.UnmarshalJSON\<close> reads the bytes between the quotes as they stand\<close>
  "json_time v old =
     (case map lx_token v of [TNull] \<Rightarrow> Some old | [TString s] \<Rightarrow> parse_rfc3339 s | _ \<Rightarrow> None)"

definition input_fields :: "bytes list" where
  "input_fields = [''event_id'', ''event_type'', ''occurred_at'', ''payload'']"

definition set_input :: "uuid_pkg \<Rightarrow> bytes \<Rightarrow> lexeme list \<Rightarrow> 'a Input_scheme \<Rightarrow> 'a Input_scheme option" where
  "set_input u f v d =
     (if f = ''event_id'' then map_option (\<lambda>x. d\<lparr>EventID := x\<rparr>) (json_uuid u v (EventID d))
      else if f = ''event_type'' then map_option (\<lambda>x. d\<lparr>EventType := x\<rparr>) (json_string v (EventType d))
      else if f = ''occurred_at'' then map_option (\<lambda>x. d\<lparr>OccurredAt := x\<rparr>) (json_time v (OccurredAt d))
      else if f = ''payload'' then Some (d\<lparr>Payload := raw_text v\<rparr>)
      else None)"

definition envelope_fields :: "bytes list" where
  "envelope_fields = input_fields @ [''tenant_id'', ''received_at'']"

definition set_envelope :: "uuid_pkg \<Rightarrow> bytes \<Rightarrow> lexeme list \<Rightarrow> Envelope \<Rightarrow> Envelope option" where
  "set_envelope u f v d =
     (if f = ''tenant_id'' then map_option (\<lambda>x. d\<lparr>TenantID := x\<rparr>) (json_string v (TenantID d))
      else if f = ''received_at'' then map_option (\<lambda>x. d\<lparr>ReceivedAt := x\<rparr>) (json_time v (ReceivedAt d))
      else set_input u f v d)"

definition zero_input :: Input where
  "zero_input = \<lparr>EventID = uuid_Nil, EventType = [], OccurredAt = zero_time, Payload = []\<rparr>"

definition zero_envelope :: Envelope where
  "zero_envelope = Input.extend zero_input \<lparr>TenantID = [], ReceivedAt = zero_time\<rparr>"

definition DecodeInput :: "uuid_pkg \<Rightarrow> bytes \<Rightarrow> event_error + Input" where
  [go_defs]: "DecodeInput u raw =
     (case decode input_fields (set_input u) zero_input raw MaxEventBytes of
        Inl e \<Rightarrow> Inl e
      | Inr inp \<Rightarrow> (case validate inp of Some e \<Rightarrow> Inl e | None \<Rightarrow> Inr inp))"

definition set_batch :: "bytes \<Rightarrow> lexeme list \<Rightarrow> bytes list \<Rightarrow> bytes list option" where
  "set_batch f v d =
     (if map lx_token v = [TNull] then Some [] else map_option (map raw_text) (elements v))"

fun decode_inputs :: "uuid_pkg \<Rightarrow> bytes list \<Rightarrow> event_error + Input list" where
  "decode_inputs u [] = Inr []"
| "decode_inputs u (b # bs) =
     (case DecodeInput u b of Inl e \<Rightarrow> Inl e
      | Inr inp \<Rightarrow> (case decode_inputs u bs of Inl e \<Rightarrow> Inl e | Inr rest \<Rightarrow> Inr (inp # rest)))"

definition DecodeBatch :: "uuid_pkg \<Rightarrow> bytes \<Rightarrow> event_error + Input list" where
  [go_defs]: "DecodeBatch u raw =
     (case decode [''events''] set_batch [] raw MaxRequestBytes of
        Inl e \<Rightarrow> Inl e
      | Inr events \<Rightarrow>
          if length events = 0 \<or> int (length events) > MaxBatchEvents
          then Inl (invalid (''batch must contain 1'' @ en_dash @ ''100 events''))
          else decode_inputs u events)"

definition DecodeEnvelope :: "uuid_pkg \<Rightarrow> bytes \<Rightarrow> event_error + Envelope" where
  [go_defs]: "DecodeEnvelope u raw =
     (case decode envelope_fields (set_envelope u) zero_envelope raw MaxEnvelopeBytes of
        Inl e \<Rightarrow> Inl e
      | Inr e \<Rightarrow> Accept (Input.truncate e) (TenantID e) (ReceivedAt e))"

section \<open>Encoding\<close>

definition json_field :: "bytes \<Rightarrow> bytes \<Rightarrow> bytes" where
  "json_field name value = quote_c # name @ quote_c # '':'' @ value"

definition quoted :: "bytes \<Rightarrow> bytes" where
  "quoted s = quote_c # s @ [quote_c]"

definition encode_json :: "uuid_pkg \<Rightarrow> Envelope \<Rightarrow> bytes option" where
  \<comment> \<open>the encoder without HTML escaping, with its final newline\<close>
  "encode_json u e =
     (case (format_rfc3339 (OccurredAt e), format_rfc3339 (ReceivedAt e)) of
        (Some at, Some rc) \<Rightarrow>
          if \<not> json_valid (Payload e) then None
          else Some (''{'' @ json_field ''event_id'' (quote False (uuid_string u (EventID e))) @ '',''
               @ json_field ''event_type'' (quote False (EventType e)) @ '',''
               @ json_field ''occurred_at'' (quoted at) @ '',''
               @ json_field ''payload'' (compact_lex (lex (Payload e))) @ '',''
               @ json_field ''tenant_id'' (quote False (TenantID e)) @ '',''
               @ json_field ''received_at'' (quoted rc) @ ''}'' @ [newline_c])
      | _ \<Rightarrow> None)"

definition EncodeEnvelope :: "uuid_pkg \<Rightarrow> Envelope \<Rightarrow> event_error + bytes" where
  [go_defs]: "EncodeEnvelope u e =
     (case Accept (Input.truncate e) (TenantID e) (ReceivedAt e) of
        Inl err \<Rightarrow> Inl err
      | Inr _ \<Rightarrow>
          (case encode_json u e of
             None \<Rightarrow> Inl (PlainError ''json: error calling MarshalJSON'')
           | Some b \<Rightarrow>
               if int (length b) > MaxEnvelopeBytes
               then Inl (ValidationError ''broker envelope exceeds byte limit'' True)
               else Inr b))"

section \<open>A codec with the documented behaviour\<close>

fun nibbles :: "nat \<Rightarrow> int \<Rightarrow> bytes" where
  "nibbles 0 n = []"
| "nibbles (Suc k) n = nibbles k (n div 16) @ [hex_digit (nat (n mod 16))]"

definition dashed :: "bytes \<Rightarrow> bytes" where
  "dashed h = take 8 h @ ''-'' @ take 4 (drop 8 h) @ ''-'' @ take 4 (drop 12 h) @ ''-''
     @ take 4 (drop 16 h) @ ''-'' @ drop 20 h"

definition uuid_canonical :: uuid_pkg where
  "uuid_canonical =
     \<lparr>uuid_parse = (\<lambda>s. map_option of_int (digits_value 16 0 (filter (\<lambda>c. c \<noteq> CHR ''-'') s))),
      uuid_string = (\<lambda>x. dashed (nibbles 32 (uint x)))\<rparr>"

lemma hex_digit_class:
  "n < 16 \<Longrightarrow> digit_in 16 (hex_digit n) = Some (int n) \<and> (between 48 57 (hex_digit n) \<or> between 97 102 (hex_digit n))"
  by (auto simp: hex_digit_def digit_in_def between_def)

lemma nibbles_value: "0 \<le> n \<Longrightarrow> n < 16 ^ k \<Longrightarrow> digits_value 16 0 (nibbles k n) = Some n"
proof (induction k arbitrary: n)
  case (Suc k)
  then have "0 \<le> n div 16" "n div 16 < 16 ^ k" by auto
  with Suc.IH have "digits_value 16 0 (nibbles k (n div 16)) = Some (n div 16)" .
  then show ?case
    using hex_digit_class [of "nat (n mod 16)"] by (simp add: digits_value_append)
qed simp

lemma nibbles_class: "c \<in> set (nibbles k n) \<Longrightarrow> between 48 57 c \<or> between 97 102 c"
proof (induction k arbitrary: n)
  case (Suc k)
  then show ?case using hex_digit_class [of "nat (n mod 16)"] by auto
qed simp

lemma length_nibbles [simp]: "length (nibbles k n) = k"
  by (induction k arbitrary: n) auto

lemma dashed_undo: "CHR ''-'' \<notin> set h \<Longrightarrow> filter (\<lambda>c. c \<noteq> CHR ''-'') (dashed h) = h"
proof -
  assume "CHR ''-'' \<notin> set h"
  then have keep: "filter (\<lambda>c. c \<noteq> CHR ''-'') xs = xs" if "set xs \<subseteq> set h" for xs
    using that by (auto simp: filter_id_conv)
  have "filter (\<lambda>c. c \<noteq> CHR ''-'') (dashed h) =
      take 8 h @ take 4 (drop 8 h) @ take 4 (drop 12 h) @ take 4 (drop 16 h) @ drop 20 h"
    by (simp add: dashed_def keep set_drop_subset set_take_subset
          order_trans [OF set_take_subset set_drop_subset])
  also have "\<dots> = h"
    using append_take_drop_id [of 8 h] append_take_drop_id [of 4 "drop 8 h"]
      append_take_drop_id [of 4 "drop 12 h"] append_take_drop_id [of 4 "drop 16 h"]
    by simp
  finally show ?thesis .
qed

lemma uuid_canonical_codec: "uuid_codec uuid_canonical"
proof -
  have "uuid_parse uuid_canonical (uuid_string uuid_canonical x) = Some x" for x
  proof -
    have "CHR ''-'' \<notin> set (nibbles 32 (uint x))"
      using nibbles_class [of "CHR ''-''"] by (auto simp: between_def)
    moreover have "uint x < 16 ^ 32" using uint_lt2p [of x] by simp
    ultimately show ?thesis
      by (simp add: uuid_canonical_def dashed_undo nibbles_value)
  qed
  moreover have "length (uuid_string uuid_canonical x) = 36" for x
    by (simp add: uuid_canonical_def dashed_def)
  moreover have "list_all uuid_char (uuid_string uuid_canonical x)" for x
    using nibbles_class [of _ 32 "uint x"]
    by (auto simp: uuid_canonical_def dashed_def list_all_iff uuid_char_def
        dest!: in_set_takeD in_set_dropD)
  ultimately show ?thesis by (simp add: uuid_codec_def)
qed

end
