(* ===== verification/Persistence.thy ===== *)
theory Persistence
  imports Event
begin

text \<open>
  Package \<^verbatim>\<open>internal/persistence\<close>: the event table and \<^verbatim>\<open>EventStore.WriteBatch\<close>.  The
  statement the code builds is modelled down to its text, placeholders and arguments.
  PostgreSQL is not part of the sources: running a statement is the parameter \<open>pg_exec\<close>
  (the number of the call makes outages and lost answers possible), and \<open>pg_contract\<close> states
  what its manual promises about this statement: it commits all its rows or none, a row
  whose key is taken is skipped, and an error answer does not say which of the two happened.
\<close>

section \<open>The table\<close>

type_synonym event_key = "bytes \<times> uuid"

definition key_of :: "Envelope \<Rightarrow> event_key" where
  [go_defs]: "key_of e = (TenantID e, EventID e)"

text \<open>The columns of a row are the fields of the envelope it was inserted from.\<close>

type_synonym table = "event_key \<rightharpoonup> Envelope"

text \<open>The documented effect of the insert: the first row of a key stays.\<close>

fun insert_rows :: "table \<Rightarrow> Envelope list \<Rightarrow> table \<times> int" where
  "insert_rows t [] = (t, 0)"
| "insert_rows t (e # es) =
     (if key_of e \<in> dom t then insert_rows t es
      else (let r = insert_rows (t(key_of e \<mapsto> e)) es in (fst r, snd r + 1)))"

section \<open>The statement\<close>

datatype sql_arg = ArgText bytes | ArgTime go_time | ArgBytes bytes

record sql_stmt =
  sql_text :: bytes
  sql_args :: "sql_arg list"

definition insert_prefix :: bytes where
  "insert_prefix = ''INSERT INTO ingestkit.events(tenant_id,event_id,event_type,occurred_at,received_at,payload) VALUES ''"

definition insert_suffix :: bytes where
  "insert_suffix = '' ON CONFLICT (tenant_id,event_id) DO NOTHING''"

definition placeholder :: "nat \<Rightarrow> bytes" where
  "placeholder k = CHR ''$'' # dec k"

fun join_with :: "bytes \<Rightarrow> bytes list \<Rightarrow> bytes" where
  "join_with sep [] = []"
| "join_with sep [x] = x"
| "join_with sep (x # y # ys) = x @ sep @ join_with sep (y # ys)"

definition value_group :: "nat \<Rightarrow> bytes" where
  \<comment> \<open>the text of row i\<close>
  "value_group i =
     ''('' @ join_with '','' (map (\<lambda>k. placeholder (i * 6 + k)) [1, 2, 3, 4, 5, 6]) @ '')''"

definition row_args :: "uuid_pkg \<Rightarrow> Envelope \<Rightarrow> sql_arg list" where
  "row_args u e =
     [ArgText (TenantID e), ArgText (uuid_string u (EventID e)), ArgText (EventType e),
      ArgTime (OccurredAt e), ArgTime (ReceivedAt e), ArgBytes (Payload e)]"

definition insert_stmt :: "uuid_pkg \<Rightarrow> Envelope list \<Rightarrow> sql_stmt" where
  [go_defs]: "insert_stmt u events =
     \<lparr>sql_text = insert_prefix @ join_with '','' (map value_group [0..<length events]) @ insert_suffix,
      sql_args = concat (map (row_args u) events)\<rparr>"

section \<open>WriteBatch\<close>

datatype infra_error = InfraCanceled | InfraDeadline | InfraOther bytes

type_synonym pg_exec = "nat \<Rightarrow> table \<Rightarrow> sql_stmt \<Rightarrow> table \<times> (infra_error + int)"

definition pg_contract :: "uuid_pkg \<Rightarrow> pg_exec \<Rightarrow> bool" where
  "pg_contract u exec \<longleftrightarrow>
     (\<forall>n t es. es \<noteq> [] \<longrightarrow>
        (case exec n t (insert_stmt u es) of
           (t', Inr k) \<Rightarrow> (t', k) = insert_rows t es
         | (t', Inl _) \<Rightarrow> t' = t \<or> t' = fst (insert_rows t es)))"

record WriteResult =
  Inserted :: int
  Duplicates :: int

definition WriteBatch ::
  "uuid_pkg \<Rightarrow> pg_exec \<Rightarrow> nat \<Rightarrow> table \<Rightarrow> Envelope list \<Rightarrow> table \<times> (infra_error + WriteResult)"
where
  [go_defs]: "WriteBatch u exec n t events =
     (if length events = 0 then (t, Inr \<lparr>Inserted = 0, Duplicates = 0\<rparr>)
      else case exec n t (insert_stmt u events) of
             (t', Inl err) \<Rightarrow> (t', Inl err)
           | (t', Inr affected) \<Rightarrow>
               (t', Inr \<lparr>Inserted = affected, Duplicates = int (length events) - affected\<rparr>))"

section \<open>Facts about the insert\<close>

lemma insert_rows_dom [simp]: "dom (fst (insert_rows t es)) = dom t \<union> key_of ` set es"
  by (induction t es rule: insert_rows.induct) (auto simp: Let_def simp del: fun_upd_apply)

lemma insert_rows_keeps: "t k = Some e \<Longrightarrow> fst (insert_rows t es) k = Some e"
proof (induction t es rule: insert_rows.induct)
  case (2 t f es)
  then show ?case
    by (cases "k = key_of f") (auto simp: Let_def fun_upd_other simp del: fun_upd_apply)
qed simp

lemma insert_rows_origin:
  "fst (insert_rows t es) k = Some e \<Longrightarrow> t k = Some e \<or> (e \<in> set es \<and> key_of e = k)"
proof (induction t es rule: insert_rows.induct)
  case (2 t f es)
  then show ?case
    by (cases "k = key_of f")
       (auto simp: Let_def fun_upd_other fun_upd_same simp del: fun_upd_apply split: if_splits)
qed simp

lemma insert_rows_count_bounds:
  "0 \<le> snd (insert_rows t es) \<and> snd (insert_rows t es) \<le> int (length es)"
proof (induction t es rule: insert_rows.induct)
  case (2 t e es)
  then show ?case
    by (cases "key_of e \<in> dom t") (simp_all add: Let_def domIff del: fun_upd_apply)
qed simp

lemma insert_rows_same: "key_of ` set es \<subseteq> dom t \<Longrightarrow> insert_rows t es = (t, 0)"
  by (induction t es rule: insert_rows.induct) auto

lemma insert_rows_idem: "insert_rows (fst (insert_rows t es)) es = (fst (insert_rows t es), 0)"
  by (rule insert_rows_same) simp

lemma insert_rows_append:
  "insert_rows t (xs @ ys) =
     (fst (insert_rows (fst (insert_rows t xs)) ys),
      snd (insert_rows t xs) + snd (insert_rows (fst (insert_rows t xs)) ys))"
  by (induction t xs rule: insert_rows.induct) (auto simp: Let_def simp del: fun_upd_apply)

lemma insert_rows_card:
  "finite (dom t) \<Longrightarrow>
   int (card (dom (fst (insert_rows t es)))) = int (card (dom t)) + snd (insert_rows t es)"
  by (induction t es rule: insert_rows.induct) (auto simp: Let_def simp del: fun_upd_apply)

lemma insert_rows_first_wins:
  "t (key_of e) = None \<Longrightarrow> key_of e \<notin> key_of ` set pre \<Longrightarrow>
   fst (insert_rows t (pre @ e # post)) (key_of e) = Some e"
proof -
  assume "t (key_of e) = None" "key_of e \<notin> key_of ` set pre"
  then have "key_of e \<notin> dom (fst (insert_rows t pre))" by auto
  then show ?thesis
    by (simp add: insert_rows_append Let_def insert_rows_keeps del: insert_rows_dom)
qed

lemma WriteBatch_cases:
  assumes "pg_contract u exec" and "WriteBatch u exec n t es = (t', x)"
  shows "case x of
           Inr r \<Rightarrow> t' = fst (insert_rows t es) \<and> Inserted r = snd (insert_rows t es) \<and>
             Duplicates r = int (length es) - Inserted r
         | Inl _ \<Rightarrow> t' = t \<or> t' = fst (insert_rows t es)"
proof (cases "es = []")
  case True
  with assms show ?thesis by (auto simp: WriteBatch_def)
next
  case False
  obtain t1 y where run: "exec n t (insert_stmt u es) = (t1, y)" by fastforce
  with False assms(1) have "case y of Inr k \<Rightarrow> (t1, k) = insert_rows t es
     | Inl _ \<Rightarrow> t1 = t \<or> t1 = fst (insert_rows t es)"
    unfolding pg_contract_def by (metis (no_types, lifting) case_prod_conv)
  then show ?thesis
    using assms(2) False run by (cases y; cases "insert_rows t es") (auto simp: WriteBatch_def)
qed

lemma WriteBatch_stores:
  "pg_contract u exec \<Longrightarrow> WriteBatch u exec n t es = (t', Inr r) \<Longrightarrow> key_of ` set es \<subseteq> dom t'"
  using WriteBatch_cases [of u exec n t es t' "Inr r"] by simp

lemma WriteBatch_keeps:
  "pg_contract u exec \<Longrightarrow> WriteBatch u exec n t es = (t', x) \<Longrightarrow> t \<subseteq>\<^sub>m t'"
  using WriteBatch_cases [of u exec n t es t' x]
  by (auto simp: map_le_def insert_rows_keeps split: sum.splits)

lemma WriteBatch_origin:
  "pg_contract u exec \<Longrightarrow> WriteBatch u exec n t es = (t', x) \<Longrightarrow> t' k = Some e \<Longrightarrow>
   t k = Some e \<or> (e \<in> set es \<and> key_of e = k)"
  using WriteBatch_cases [of u exec n t es t' x]
  by (auto split: sum.splits dest: insert_rows_origin)

section \<open>What a store promises its client\<close>

text \<open>
  The interface \<^verbatim>\<open>BatchStore\<close> the reader depends on.  \<open>promised\<close> says that the
  environment of the store keeps its documented behaviour.
\<close>

locale batch_store =
  fixes promised :: "'e \<Rightarrow> bool"
    and put :: "'e \<Rightarrow> nat \<Rightarrow> table \<Rightarrow> Envelope list \<Rightarrow> table \<times> (infra_error + WriteResult)"
  assumes put_stores:
      "promised env \<Longrightarrow> put env n t es = (t', Inr r) \<Longrightarrow> key_of ` set es \<subseteq> dom t'"
    and put_keeps: "promised env \<Longrightarrow> put env n t es = (t', x) \<Longrightarrow> t \<subseteq>\<^sub>m t'"
    and put_origin:
      "promised env \<Longrightarrow> put env n t es = (t', x) \<Longrightarrow> t' k = Some e \<Longrightarrow>
       t k = Some e \<or> (e \<in> set es \<and> key_of e = k)"
begin

text \<open>Any number of attempts with the same batch, each at the state the last one left.\<close>

fun attempts :: "'e \<Rightarrow> nat list \<Rightarrow> table \<Rightarrow> Envelope list \<Rightarrow> table" where
  "attempts env [] t es = t"
| "attempts env (n # ns) t es = attempts env ns (fst (put env n t es)) es"

lemma attempts_keeps: "promised env \<Longrightarrow> t \<subseteq>\<^sub>m attempts env ns t es"
proof (induction ns arbitrary: t)
  case (Cons n ns)
  from Cons.prems have "t \<subseteq>\<^sub>m fst (put env n t es)"
    by (metis prod.collapse put_keeps)
  with Cons show ?case by (auto intro: map_le_trans)
qed simp

lemma attempts_origin:
  "promised env \<Longrightarrow> attempts env ns t es k = Some e \<Longrightarrow>
   t k = Some e \<or> (e \<in> set es \<and> key_of e = k)"
proof (induction ns arbitrary: t)
  case (Cons n ns)
  then have "fst (put env n t es) k = Some e \<or> (e \<in> set es \<and> key_of e = k)" by simp
  with Cons.prems(1) show ?case by (metis prod.collapse put_origin)
qed simp

end

interpretation pg: batch_store "\<lambda>(u, exec). pg_contract u exec" "\<lambda>(u, exec). WriteBatch u exec"
  by unfold_locales (auto dest: WriteBatch_stores WriteBatch_keeps WriteBatch_origin)

section \<open>A database with the documented behaviour\<close>

text \<open>It reads the rows back from the arguments, and can lose answers at chosen calls.\<close>

fun rows_of :: "uuid_pkg \<Rightarrow> sql_arg list \<Rightarrow> Envelope list" where
  "rows_of u (ArgText tenant # ArgText i # ArgText kind # ArgTime oc # ArgTime rc # ArgBytes p # rest) =
     \<lparr>EventID = the (uuid_parse u i), EventType = kind, OccurredAt = oc, Payload = p,
      TenantID = tenant, ReceivedAt = rc\<rparr> # rows_of u rest"
| "rows_of u _ = []"

definition pg_example :: "uuid_pkg \<Rightarrow> nat set \<Rightarrow> pg_exec" where
  "pg_example u lost n t stmt =
     (let r = insert_rows t (rows_of u (sql_args stmt)) in
      if n \<in> lost then (fst r, Inl (InfraOther ''connection lost'')) else (fst r, Inr (snd r)))"

lemma rows_of_args: "uuid_codec u \<Longrightarrow> rows_of u (concat (map (row_args u) es)) = es"
  by (induction es) (simp_all add: row_args_def uuid_codec_def)

lemma pg_example_contract: "uuid_codec u \<Longrightarrow> pg_contract u (pg_example u lost)"
  by (simp add: pg_contract_def pg_example_def insert_stmt_def rows_of_args Let_def)

lemmas pg_canonical = pg_example_contract [OF uuid_canonical_codec]

definition sample_event :: Envelope where
  "sample_event =
     \<lparr>EventID = 7, EventType = ''signup'',
      OccurredAt = \<lparr>t_sec = 63902908800, t_nsec = 0, t_offset = 0\<rparr>, Payload = ''{}'',
      TenantID = ''acme'', ReceivedAt = \<lparr>t_sec = 63902908801, t_nsec = 5, t_offset = 0\<rparr>\<rparr>"

section \<open>Properties\<close>

text \<open>Reading the numbered parameters back from the text of a statement.\<close>

fun params_of :: "bytes \<Rightarrow> int list" where
  "params_of [] = []"
| "params_of (c # cs) =
     (if c = CHR ''$'' then the (digits_value 10 0 (takeWhile is_digit cs)) # params_of cs
      else params_of cs)"

lemma params_of_plain: "CHR ''$'' \<notin> set xs \<Longrightarrow> params_of (xs @ ys) = params_of ys"
  by (induction xs) auto

lemma params_of_placeholder:
  assumes "\<not> is_digit c"
  shows "params_of (placeholder k @ c # r) = int k # params_of (c # r)"
proof -
  have "takeWhile is_digit (dec k @ c # r) = dec k"
    using assms dec_digits [of k] by (simp add: takeWhile_tail list_all_iff)
  moreover have "CHR ''$'' \<notin> set (dec k)"
    using dec_digits [of k] by (auto simp: list_all_iff is_digit_def between_def)
  ultimately show ?thesis
    by (simp add: placeholder_def digits_value_dec params_of_plain)
qed

lemma params_of_group:
  "params_of (value_group i @ r) = map int [i * 6 + 1 ..< i * 6 + 7] @ params_of r"
proof -
  have "\<not> is_digit (CHR '','')" "\<not> is_digit (CHR '')'')" by (simp_all add: is_digit_def between_def)
  then show ?thesis
    by (simp add: value_group_def params_of_placeholder upt_rec)
qed

lemma params_of_groups:
  "params_of (join_with '','' (map value_group [a..<b]) @ r) = map int [a * 6 + 1 ..< b * 6 + 1] @ params_of r"
  if "a \<le> b"
  using that
proof (induction "b - a" arbitrary: a)
  case (Suc d)
  then have ab: "a < b" and IH: "params_of (join_with '','' (map value_group [Suc a..<b]) @ r) =
      map int [Suc a * 6 + 1 ..< b * 6 + 1] @ params_of r" by auto
  have "[a * 6 + 1 ..< b * 6 + 1] = [a * 6 + 1 ..< a * 6 + 7] @ [Suc a * 6 + 1 ..< b * 6 + 1]"
    using ab upt_add_eq_append [of "a * 6 + 1" "a * 6 + 7" "b * 6 + 1 - (a * 6 + 7)"]
    by (simp add: algebra_simps del: upt_Suc)
  with IH ab show ?case
    by (cases "Suc a < b") (auto simp: upt_conv_Cons params_of_group simp del: upt_Suc)
qed simp

lemma params_of_stmt:
  "params_of (sql_text (insert_stmt u es)) = map int [1 ..< 6 * length es + 1]"
proof -
  have "CHR ''$'' \<notin> set insert_prefix" "CHR ''$'' \<notin> set insert_suffix"
    by (simp_all add: insert_prefix_def insert_suffix_def)
  then show ?thesis
    using params_of_plain [of insert_suffix "[]"]
    by (simp add: insert_stmt_def params_of_plain params_of_groups mult.commute del: upt_Suc)
qed

lemma nth_row_args:
  "i < length es \<Longrightarrow> j < 6 \<Longrightarrow> concat (map (row_args u) es) ! (6 * i + j) = row_args u (es ! i) ! j"
proof (induction es arbitrary: i)
  case (Cons e es)
  have [simp]: "length (row_args u e) = 6" by (simp add: row_args_def)
  from Cons show ?case by (cases i) (auto simp: nth_append)
qed simp

lemma length_args: "length (concat (map (row_args u) es)) = 6 * length es"
  by (induction es) (simp_all add: row_args_def)

text \<open>
  The statement \<^verbatim>\<open>WriteBatch\<close> builds numbers its parameters 1 to 6n from left to right,
  it has exactly 6n arguments for n events, and parameter 6i + j + 1 is column j of event i, so
  no event is bound to the columns of another.
\<close>

theorem insert_stmt_parameters:
  assumes "i < length es" and "j < 6"
  shows "params_of (sql_text (insert_stmt u es)) = map int [1 ..< 6 * length es + 1] \<and>
         length (sql_args (insert_stmt u es)) = 6 * length es \<and>
         params_of (sql_text (insert_stmt u es)) ! (6 * i + j) = int (6 * i + j + 1) \<and>
         sql_args (insert_stmt u es) ! (6 * i + j) =
           [ArgText (TenantID (es ! i)), ArgText (uuid_string u (EventID (es ! i))),
            ArgText (EventType (es ! i)), ArgTime (OccurredAt (es ! i)),
            ArgTime (ReceivedAt (es ! i)), ArgBytes (Payload (es ! i))] ! j"
proof -
  have "6 * i + j < 6 * length es" using assms by simp
  moreover have "sql_args (insert_stmt u es) = concat (map (row_args u) es)"
    by (simp add: insert_stmt_def)
  ultimately show ?thesis
    using assms unfolding params_of_stmt
    by (simp add: length_args nth_row_args del: upt_Suc) (simp add: row_args_def)
qed

theorem insert_stmt_parameters_witness:
  "params_of (sql_text (insert_stmt uuid_canonical [sample_event, sample_event\<lparr>EventID := 8\<rparr>])) ! 11 = 12 \<and>
   sql_args (insert_stmt uuid_canonical [sample_event, sample_event\<lparr>EventID := 8\<rparr>]) ! 11 = ArgBytes ''{}''"
  using insert_stmt_parameters [of 1 "[sample_event, sample_event\<lparr>EventID := 8\<rparr>]" 5 uuid_canonical]
  by (simp add: sample_event_def)

text \<open>
  C10. When PostgreSQL keeps its contract and \<^verbatim>\<open>WriteBatch\<close> succeeds, every event of the
  batch has a row, rows that were there are unchanged, the first of several events with one
  key is the one kept, and \<^verbatim>\<open>Inserted\<close> and \<^verbatim>\<open>Duplicates\<close> are the exact counts: the
  table grew by \<^verbatim>\<open>Inserted\<close> rows, both are not negative and they add up to the batch.
\<close>

theorem WriteBatch_success:
  assumes "pg_contract u exec" and "WriteBatch u exec n t es = (t', Inr r)"
  shows "key_of ` set es \<subseteq> dom t' \<and> t \<subseteq>\<^sub>m t' \<and>
         (\<forall>pre e post. es = pre @ e # post \<longrightarrow> t (key_of e) = None \<longrightarrow>
            key_of e \<notin> key_of ` set pre \<longrightarrow> t' (key_of e) = Some e) \<and>
         (finite (dom t) \<longrightarrow> int (card (dom t')) = int (card (dom t)) + Inserted r) \<and>
         0 \<le> Inserted r \<and> 0 \<le> Duplicates r \<and> Inserted r + Duplicates r = int (length es)"
  using WriteBatch_cases [OF assms] WriteBatch_keeps [OF assms] WriteBatch_stores [OF assms]
    insert_rows_count_bounds [of t es]
  by (simp add: insert_rows_card insert_rows_first_wins del: insert_rows_dom)

theorem WriteBatch_success_witness:
  "\<exists>t' r. WriteBatch uuid_canonical (pg_example uuid_canonical {}) 0 Map.empty [sample_event, sample_event] = (t', Inr r) \<and>
     Inserted r + Duplicates r = 2 \<and> key_of sample_event \<in> dom t'"
proof -
  let ?es = "[sample_event, sample_event]"
  obtain t' r where run:
    "WriteBatch uuid_canonical (pg_example uuid_canonical {}) 0 Map.empty ?es = (t', Inr r)"
    by (simp add: WriteBatch_def pg_example_def Let_def)
  from WriteBatch_success [OF pg_canonical this] run show ?thesis by auto
qed



end
