(* ===== verification/Go_Text.thy ===== *)
theory Go_Text
  imports Ingest_Prelude
begin

text \<open>
  What \<^verbatim>\<open>internal/runenv\<close> and \<^verbatim>\<open>internal/runtimeinfo\<close> use of Go's \<^verbatim>\<open>strings\<close>, \<^verbatim>\<open>bufio\<close> and \<^verbatim>\<open>path/filepath\<close>:
  white space, fields, substrings, scanned lines and joined paths.
\<close>

section \<open>White space\<close>

text \<open>The length of the white space at the start of a text in UTF-8, 0 when there is none.\<close>

definition ascii_space :: "char \<Rightarrow> bool" where
  "ascii_space c \<longleftrightarrow> c \<in> {CHR 0x09, CHR 0x0A, CHR 0x0B, CHR 0x0C, CHR 0x0D, CHR '' ''}"

definition wide_spaces :: "bytes list" where
  \<comment> \<open>U+0085, U+00A0, U+1680, U+2000 to U+200A, U+2028, U+2029, U+202F, U+205F, U+3000\<close>
  "wide_spaces =
     [[CHR 0xC2, CHR 0x85], [CHR 0xC2, CHR 0xA0], [CHR 0xE1, CHR 0x9A, CHR 0x80],
      [CHR 0xE2, CHR 0x81, CHR 0x9F], [CHR 0xE3, CHR 0x80, CHR 0x80]]
     @ map (\<lambda>c. [CHR 0xE2, CHR 0x80, c])
         [CHR 0x80, CHR 0x81, CHR 0x82, CHR 0x83, CHR 0x84, CHR 0x85, CHR 0x86, CHR 0x87, CHR 0x88,
          CHR 0x89, CHR 0x8A, CHR 0xA8, CHR 0xA9, CHR 0xAF]"

definition space_at :: "bytes \<Rightarrow> nat" where
  "space_at s =
     (case s of [] \<Rightarrow> 0
      | c # _ \<Rightarrow>
          if ascii_space c then 1
          else if take 2 s \<in> set wide_spaces then 2
          else if take 3 s \<in> set wide_spaces then 3 else 0)"

lemma space_at_le: "space_at s \<le> length s"
proof -
  have "length x = 2 \<or> length x = 3" if "x \<in> set wide_spaces" for x
    using that by (auto simp: wide_spaces_def)
  then have "take 2 s \<in> set wide_spaces \<Longrightarrow> 2 \<le> length s" "take 3 s \<in> set wide_spaces \<Longrightarrow> 2 \<le> length s"
    by fastforce+
  moreover have "take 3 s \<in> set wide_spaces \<Longrightarrow> take 2 s \<notin> set wide_spaces \<Longrightarrow> 3 \<le> length s"
    using calculation(2) by (cases "length s = 2") auto
  ultimately show ?thesis by (cases s) (auto simp: space_at_def Suc_le_eq)
qed

function trim_left :: "bytes \<Rightarrow> bytes" where
  "trim_left s = (if space_at s = 0 then s else trim_left (drop (space_at s) s))"
  by pat_completeness auto
termination
proof (relation "measure length")
  fix s assume "space_at s \<noteq> 0"
  with space_at_le [of s] show "(drop (space_at s) s, s) \<in> measure length" by simp
qed simp

declare trim_left.simps [simp del]

definition space_end :: "bytes \<Rightarrow> nat" where
  \<comment> \<open>the same at the end\<close>
  "space_end s =
     (case rev s of [] \<Rightarrow> 0
      | c # _ \<Rightarrow>
          if ascii_space c then 1
          else if rev (take 2 (rev s)) \<in> set wide_spaces then 2
          else if rev (take 3 (rev s)) \<in> set wide_spaces then 3 else 0)"

function trim_right :: "bytes \<Rightarrow> bytes" where
  "trim_right s = (if space_end s = 0 \<or> s = [] then s else trim_right (take (length s - space_end s) s))"
  by pat_completeness auto
termination by (relation "measure length") auto

declare trim_right.simps [simp del]

definition TrimSpace :: "bytes \<Rightarrow> bytes" where
  "TrimSpace s = trim_right (trim_left s)"

section \<open>Fields and substrings\<close>

fun fields_from :: "nat \<Rightarrow> bytes \<Rightarrow> bytes \<Rightarrow> bytes list" where
  \<comment> \<open>white space bytes still to skip, the field so far (reversed), the rest\<close>
  "fields_from k acc [] = (if acc = [] then [] else [rev acc])"
| "fields_from (Suc k) acc (c # s) = fields_from k acc s"
| "fields_from 0 acc (c # s) =
     (let n = space_at (c # s) in
      if n = 0 then fields_from 0 (c # acc) s
      else (if acc = [] then [] else [rev acc]) @ fields_from (n - 1) [] s)"

definition Fields :: "bytes \<Rightarrow> bytes list" where
  "Fields s = fields_from 0 [] s"

fun Contains :: "bytes \<Rightarrow> bytes \<Rightarrow> bool" where
  "Contains [] sub \<longleftrightarrow> sub = []"
| "Contains (c # s) sub \<longleftrightarrow> HasPrefix (c # s) sub \<or> Contains s sub"

section \<open>Scanned lines\<close>

text \<open>
  \<^verbatim>\<open>bufio.Scanner\<close> on lines: the lines without their end, also of a last line that has none, a
  carriage return before the end dropped; and whether it stopped at a line that does not fit into
  its buffer of \<open>limit\<close> bytes.
\<close>

definition drop_cr :: "bytes \<Rightarrow> bytes" where
  "drop_cr s = (if s \<noteq> [] \<and> last s = CHR 0x0D then butlast s else s)"

fun scan_parts :: "int \<Rightarrow> bytes list \<Rightarrow> bytes list \<times> bool" where
  "scan_parts limit [] = ([], False)"
| "scan_parts limit [l] =
     (if limit \<le> int (length l) then ([], True) else if l = [] then ([], False) else ([drop_cr l], False))"
| "scan_parts limit (l # ls) =
     (if limit \<le> int (length l) then ([], True)
      else (case scan_parts limit ls of (xs, b) \<Rightarrow> (drop_cr l # xs, b)))"

definition scan_lines :: "int \<Rightarrow> bytes \<Rightarrow> bytes list \<times> bool" where
  "scan_lines limit s = scan_parts limit (split_on newline_c s)"

section \<open>Paths\<close>

text \<open>\<^verbatim>\<open>filepath.Clean\<close> and \<^verbatim>\<open>filepath.Join\<close> where the separator is a slash.\<close>

fun clean_parts :: "bool \<Rightarrow> bytes list \<Rightarrow> bytes list \<Rightarrow> bytes list" where
  \<comment> \<open>whether the path is rooted, the elements kept so far (last one first), the rest\<close>
  "clean_parts rooted out [] = rev out"
| "clean_parts rooted out (c # cs) =
     (if c = [] \<or> c = ''.'' then clean_parts rooted out cs
      else if c \<noteq> ''..'' then clean_parts rooted (c # out) cs
      else case out of
             [] \<Rightarrow> clean_parts rooted (if rooted then [] else [c]) cs
           | d # ds \<Rightarrow> clean_parts rooted (if d = ''..'' then c # out else ds) cs)"

definition slashed :: "bytes list \<Rightarrow> bytes" where
  "slashed parts = concat (map (Cons CHR ''/'') parts)"

definition path_clean :: "bytes \<Rightarrow> bytes" where
  "path_clean p =
     (let rooted = HasPrefix p ''/''; parts = clean_parts rooted [] (split_on CHR ''/'' p) in
      if rooted then ''/'' @ drop 1 (slashed parts)
      else if parts = [] then ''.'' else drop 1 (slashed parts))"

definition path_join :: "bytes list \<Rightarrow> bytes" where
  "path_join elems =
     (case filter (\<lambda>e. e \<noteq> []) elems of [] \<Rightarrow> [] | es \<Rightarrow> path_clean (drop 1 (slashed es)))"

end
