(* ===== verification/Runtimeinfo.thy ===== *)
theory Runtimeinfo
  imports Go_Text
begin

text \<open>
  Package \<^verbatim>\<open>internal/runtimeinfo\<close>: the limits of the process, as the metrics and the
  benchmark evidence report them.  The system calls behind \<^verbatim>\<open>nativeLimits\<close>,
  \<^verbatim>\<open>nativeFDs\<close> and \<^verbatim>\<open>nativePorts\<close> are the arguments of \<open>captureLimits\<close>, as in the code.
\<close>

section \<open>Limits\<close>

text \<open>Status \<^verbatim>\<open>known\<close> carries a value; the other two have a nil pointer.\<close>

record Limit =
  Status :: bytes
  LimitValue :: "64 word option"

record ProcessLimits =
  SoftFDLimit :: Limit
  HardFDLimit :: Limit
  OpenFDs :: Limit
  EphemeralFirst :: Limit
  EphemeralLast :: Limit

definition unavailable :: Limit where "unavailable = \<lparr>Status = ''unavailable'', LimitValue = None\<rparr>"
definition unlimited :: Limit where "unlimited = \<lparr>Status = ''unlimited'', LimitValue = None\<rparr>"

definition known :: "64 word \<Rightarrow> Limit" where
  "known v = \<lparr>Status = ''known'', LimitValue = Some v\<rparr>"

definition port_range :: "bytes \<Rightarrow> (int \<times> int) option" where
  \<comment> \<open>two fields, both ports, in order\<close>
  [go_defs]: "port_range raw =
     (case Fields raw of
        [p, q] \<Rightarrow>
          (case ParseUint p 10 16 of None \<Rightarrow> None
           | Some a \<Rightarrow> (case ParseUint q 10 16 of None \<Rightarrow> None
                        | Some b \<Rightarrow> if a > 0 \<and> a \<le> b then Some (a, b) else None))
      | _ \<Rightarrow> None)"

definition captureLimits ::
  "(64 word \<times> 64 word \<times> 64 word) option \<Rightarrow> int option \<Rightarrow> bytes option \<Rightarrow> ProcessLimits"
where
  [go_defs]: "captureLimits got fds ports =
     (let r0 = \<lparr>SoftFDLimit = unavailable, HardFDLimit = unavailable, OpenFDs = unavailable,
                EphemeralFirst = unavailable, EphemeralLast = unavailable\<rparr>;
          r1 = (case got of None \<Rightarrow> r0
                | Some (soft, hard, infinity) \<Rightarrow>
                    r0\<lparr>SoftFDLimit := (if soft = infinity then unlimited else known soft),
                       HardFDLimit := (if hard = infinity then unlimited else known hard)\<rparr>);
          r2 = (case fds of None \<Rightarrow> r1
                | Some count \<Rightarrow> if count \<ge> 0 then r1\<lparr>OpenFDs := known (of_int count)\<rparr> else r1)
      in case Option.bind ports port_range of None \<Rightarrow> r2
         | Some (a, b) \<Rightarrow>
             r2\<lparr>EphemeralFirst := known (of_int a), EphemeralLast := known (of_int b)\<rparr>)"

definition native_linux ::
  "(64 word \<times> 64 word) option \<Rightarrow> (64 word \<times> 64 word \<times> 64 word) option"
where
  \<comment> \<open>\<^verbatim>\<open>nativeLimits\<close> on Linux: infinity is the largest word\<close>
  "native_linux rlimit = map_option (\<lambda>(cur, mx). (cur, mx, - 1)) rlimit"

definition native_darwin ::
  "(64 word \<times> 64 word) option \<Rightarrow> (64 word \<times> 64 word \<times> 64 word) option"
where
  "native_darwin rlimit = map_option (\<lambda>(cur, mx). (cur, mx, 9223372036854775807)) rlimit"

definition native_other :: "(64 word \<times> 64 word \<times> 64 word) option" where
  "native_other = None"

section \<open>Facts\<close>

text \<open>A limit has a value exactly when its status says so.\<close>

definition coherent :: "Limit \<Rightarrow> bool" where
  "coherent l \<longleftrightarrow>
     Status l \<in> {''known'', ''unlimited'', ''unavailable''} \<and>
     (LimitValue l \<noteq> None \<longleftrightarrow> Status l = ''known'')"

lemma coherent_simps [simp]: "coherent unavailable" "coherent unlimited" "coherent (known v)"
  by (simp_all add: coherent_def unavailable_def unlimited_def known_def)

lemma ParseUint_range: "ParseUint s base bits = Some n \<Longrightarrow> n < 2 ^ bits"
  by (auto simp: ParseUint_def split: if_splits option.splits)

lemma captureLimits_fds:
  "SoftFDLimit (captureLimits got fds ports) =
     (case got of None \<Rightarrow> unavailable | Some (s, h, i) \<Rightarrow> if s = i then unlimited else known s)"
  "HardFDLimit (captureLimits got fds ports) =
     (case got of None \<Rightarrow> unavailable | Some (s, h, i) \<Rightarrow> if h = i then unlimited else known h)"
  "OpenFDs (captureLimits got fds ports) =
     (case fds of None \<Rightarrow> unavailable | Some c \<Rightarrow> if c \<ge> 0 then known (of_int c) else unavailable)"
  by (auto simp: captureLimits_def Let_def split: option.splits)

lemma port_range_bounds: "port_range raw = Some (a, b) \<Longrightarrow> 0 < a \<and> a \<le> b \<and> b < 65536"
  by (auto simp: port_range_def split: list.splits option.splits if_splits dest: ParseUint_range)

lemma captureLimits_ports:
  "(EphemeralFirst (captureLimits got fds ports) = unavailable \<and>
    EphemeralLast (captureLimits got fds ports) = unavailable) \<or>
   (\<exists>a b. EphemeralFirst (captureLimits got fds ports) = known (of_int a) \<and>
          EphemeralLast (captureLimits got fds ports) = known (of_int b) \<and>
          0 < a \<and> a \<le> b \<and> b < 65536)"
proof (cases "Option.bind ports port_range")
  case None
  then show ?thesis by (auto simp: captureLimits_def Let_def split: option.splits)
next
  case (Some r)
  obtain a b where r: "r = (a, b)" by fastforce
  with Some have "0 < a \<and> a \<le> b \<and> b < 65536"
    by (auto simp: bind_eq_Some_conv dest: port_range_bounds)
  with Some r show ?thesis by (auto simp: captureLimits_def Let_def)
qed

text \<open>
  Whatever the system answers, every reported limit is coherent (a value exactly with status
  \<^verbatim>\<open>known\<close>), a failed source gives \<^verbatim>\<open>unavailable\<close> and never a number, an infinite limit
  gives \<^verbatim>\<open>unlimited\<close>, and the port range is either unavailable at both ends or an ordered
  pair of 16-bit ports.
\<close>

theorem captureLimits_coherent:
  "let r = captureLimits got fds ports in
   coherent (SoftFDLimit r) \<and> coherent (HardFDLimit r) \<and> coherent (OpenFDs r) \<and>
   coherent (EphemeralFirst r) \<and> coherent (EphemeralLast r) \<and>
   (SoftFDLimit r = unavailable \<longleftrightarrow> got = None) \<and>
   (SoftFDLimit r = unlimited \<longleftrightarrow> (\<exists>h i. got = Some (i, h, i))) \<and>
   ((EphemeralFirst r = unavailable \<and> EphemeralLast r = unavailable) \<or>
    (\<exists>a b. EphemeralFirst r = known (of_int a) \<and> EphemeralLast r = known (of_int b) \<and>
           0 < a \<and> a \<le> b \<and> b < 65536))"
  using captureLimits_ports [of got fds ports]
  by (auto simp: captureLimits_fds Let_def split: option.splits)
     (auto simp: unavailable_def unlimited_def known_def)

end
