(* ===== verification/Telemetry.thy ===== *)
theory Telemetry
  imports Persistence Runtimeinfo
begin

text \<open>
  Package \<^verbatim>\<open>internal/telemetry\<close>.  The Prometheus client is not part of the sources, so the
  state of \<^verbatim>\<open>Metrics\<close> is the list of calls made to it, oldest first, and what a counter shows
  is the sum of the increments in that list.  A duration is a number of nanoseconds; the code
  divides it to seconds only to hand it over.
\<close>

section \<open>Calls to the client library\<close>

datatype metric_call =
    CounterAdd bytes "bytes list" int  \<comment> \<open>series name, label values, increment\<close>
  | HistogramObserve bytes "bytes list" int

fun series :: "metric_call \<Rightarrow> bytes \<times> bytes list" where
  "series (CounterAdd n ls _) = (n, ls)"
| "series (HistogramObserve n ls _) = (n, ls)"

text \<open>A pool and a producer are seen through the numbers they report.\<close>

record pool_stat =
  MaxConns :: int
  AcquiredConns :: int
  IdleConns :: int
  TotalConns :: int
  EmptyAcquireCount :: int
  EmptyAcquireWaitTime :: int
  CanceledAcquireCount :: int
  AcquireDuration :: int

record runtimeMetrics =
  rm_pool :: "pool_stat option"
  rm_producer :: "(int \<times> int) option"  \<comment> \<open>buffered records, buffered bytes\<close>
  maxRecords :: int
  maxBytes :: int
  apiLimit :: int

record Metrics =
  m_calls :: "metric_call list"
  m_runtime :: runtimeMetrics

definition New :: Metrics where
  [go_defs]: "New =
     \<lparr>m_calls = [],
      m_runtime = \<lparr>rm_pool = None, rm_producer = None, maxRecords = 0, maxBytes = 0, apiLimit = 0\<rparr>\<rparr>"

definition call :: "metric_call \<Rightarrow> Metrics \<Rightarrow> Metrics" where
  "call c m = m\<lparr>m_calls := m_calls m @ [c]\<rparr>"

lemma m_calls_call [simp]: "m_calls (call c m) = m_calls m @ [c]"
  by (simp add: call_def)

section \<open>Labels\<close>

definition route :: "bytes \<Rightarrow> bytes" where
  [go_defs]: "route s =
     (if s = ''single'' \<or> s = ''batch'' \<or> s = ''health'' \<or> s = ''ready'' \<or> s = ''metrics'' then s
      else ''other'')"

definition outcome :: "bytes \<Rightarrow> bytes" where
  [go_defs]: "outcome s =
     (if s = ''success'' \<or> s = ''error'' \<or> s = ''saturated'' \<or> s = ''timeout'' then s else ''error'')"

definition status_label :: "bytes \<Rightarrow> bytes" where
  [go_defs]: "status_label s =
     (if s = ''200'' \<or> s = ''202'' \<or> s = ''400'' \<or> s = ''401'' \<or> s = ''404'' \<or> s = ''413'' \<or>
         s = ''429'' \<or> s = ''500'' \<or> s = ''503'' then s else ''other'')"

definition reason_label :: "bytes \<Rightarrow> bytes" where
  [go_defs]: "reason_label s =
     (if s = ''buffer_saturated'' \<or> s = ''timeout'' \<or> s = ''broker_error'' then s else ''broker_error'')"

section \<open>Observations\<close>

definition ObserveHTTP :: "bytes \<Rightarrow> bytes \<Rightarrow> int \<Rightarrow> Metrics \<Rightarrow> Metrics" where
  [go_defs]: "ObserveHTTP r s d m =
     call (HistogramObserve ''ingestkit_http_seconds'' [route r] d)
       (call (CounterAdd ''ingestkit_http_total'' [route r, status_label s] 1) m)"

definition ObservePublish :: "bytes \<Rightarrow> int \<Rightarrow> Metrics \<Rightarrow> Metrics" where
  [go_defs]: "ObservePublish oc d m =
     call (HistogramObserve ''ingestkit_publish_seconds'' [outcome oc] d) m"

definition max_duration :: int where "max_duration = 2 ^ 63 - 1"

definition time_sub :: "int \<Rightarrow> go_time \<Rightarrow> int" where
  \<comment> \<open>\<^verbatim>\<open>now.Sub(at)\<close> for a clock reading in nanoseconds since year 1; saturates\<close>
  "time_sub now at =
     max (- max_duration - 1) (min max_duration (now - (t_sec at * 1000000000 + int (t_nsec at))))"

definition observe_receipts :: "int \<Rightarrow> go_time list \<Rightarrow> Metrics \<Rightarrow> Metrics" where
  "observe_receipts now received m =
     foldl (\<lambda>m at. call (HistogramObserve ''ingestkit_receipt_to_storage_seconds'' []
                          (let elapsed = time_sub now at in if elapsed < 0 then 0 else elapsed)) m)
       m received"

definition ObserveWrite :: "WriteResult \<Rightarrow> go_time list \<Rightarrow> int \<Rightarrow> int \<Rightarrow> Metrics \<Rightarrow> Metrics" where
  \<comment> \<open>the third argument is the duration, the fourth what \<^verbatim>\<open>time.Now\<close> answers\<close>
  [go_defs]: "ObserveWrite r received d now m =
     observe_receipts now received
       (call (HistogramObserve ''ingestkit_batch_events'' [] (Inserted r + Duplicates r))
         (call (HistogramObserve ''ingestkit_storage_seconds'' [] d)
           (call (CounterAdd ''ingestkit_duplicates_total'' [] (Duplicates r))
             (call (CounterAdd ''ingestkit_stored_total'' [] (Inserted r)) m))))"

definition ObserveRetry :: "Metrics \<Rightarrow> Metrics" where
  [go_defs]: "ObserveRetry m = call (CounterAdd ''ingestkit_retries_total'' [] 1) m"

definition ObserveQuarantine :: "bytes \<Rightarrow> Metrics \<Rightarrow> Metrics" where
  [go_defs]: "ObserveQuarantine oc m =
     call (CounterAdd ''ingestkit_quarantine_total'' [outcome oc] 1) m"

definition ObservePublishFailure :: "bytes \<Rightarrow> Metrics \<Rightarrow> Metrics" where
  [go_defs]: "ObservePublishFailure reason m =
     call (CounterAdd ''ingestkit_publish_failures_total'' [reason_label reason] 1) m"

definition RegisterPool :: "pool_stat \<Rightarrow> Metrics \<Rightarrow> Metrics" where
  [go_defs]: "RegisterPool p m = m\<lparr>m_runtime := (m_runtime m)\<lparr>rm_pool := Some p\<rparr>\<rparr>"

definition RegisterProducer :: "int \<times> int \<Rightarrow> int \<Rightarrow> int \<Rightarrow> Metrics \<Rightarrow> Metrics" where
  [go_defs]: "RegisterProducer src mr mb m =
     m\<lparr>m_runtime := (m_runtime m)\<lparr>rm_producer := Some src, maxRecords := mr, maxBytes := mb\<rparr>\<rparr>"

definition SetAPIConnectionLimit :: "int \<Rightarrow> Metrics \<Rightarrow> Metrics" where
  [go_defs]: "SetAPIConnectionLimit limit m = m\<lparr>m_runtime := (m_runtime m)\<lparr>apiLimit := limit\<rparr>\<rparr>"

section \<open>The runtime collector\<close>

datatype sample_value = Num int | Infinite

datatype sample =
    Gauge bytes sample_value
  | Counter bytes sample_value
  | Available bytes bool  \<comment> \<open>\<^verbatim>\<open>process_limit_available\<close> with its resource label\<close>

definition collect_pool :: "pool_stat option \<Rightarrow> sample list" where
  "collect_pool pool =
     (case pool of
        None \<Rightarrow> [Gauge ''db_pool_available'' (Num 0)]
      | Some s \<Rightarrow>
          [Gauge ''db_pool_available'' (Num 1),
           Gauge ''db_pool_max_conns'' (Num (MaxConns s)),
           Gauge ''db_pool_acquired_conns'' (Num (AcquiredConns s)),
           Gauge ''db_pool_idle_conns'' (Num (IdleConns s)),
           Gauge ''db_pool_total_conns'' (Num (TotalConns s)),
           Counter ''db_pool_empty_acquires_total'' (Num (EmptyAcquireCount s)),
           Counter ''db_pool_empty_acquire_wait_seconds_total'' (Num (EmptyAcquireWaitTime s)),
           Counter ''db_pool_cancelled_acquires_total'' (Num (CanceledAcquireCount s)),
           Counter ''db_pool_acquire_seconds_total'' (Num (AcquireDuration s))])"

definition collect_producer :: "(int \<times> int) option \<Rightarrow> int \<Rightarrow> int \<Rightarrow> sample list" where
  "collect_producer producer mr mb =
     (case producer of
        None \<Rightarrow> [Gauge ''producer_buffer_available'' (Num 0)]
      | Some (recs, octets) \<Rightarrow>
          [Gauge ''producer_buffer_available'' (Num 1),
           Gauge ''producer_max_buffered_records'' (Num mr),
           Gauge ''producer_max_buffered_bytes'' (Num mb),
           Gauge ''producer_buffered_records'' (Num recs),
           Gauge ''producer_buffered_bytes'' (Num octets)])"

definition collect_limit :: "bytes \<times> Limit \<Rightarrow> sample list" where
  "collect_limit = (\<lambda>(name, l).
     case (Status l = ''known'', LimitValue l) of
       (True, Some v) \<Rightarrow> [Available name True, Gauge name (Num (uint v))]
     | _ \<Rightarrow> if Status l = ''unlimited'' then [Available name True, Gauge name Infinite]
            else [Available name False])"

text \<open>Go ranges over the map of limits in no fixed order; the model uses the order of the text.\<close>

definition Collect :: "runtimeMetrics \<Rightarrow> ProcessLimits \<Rightarrow> sample list" where
  [go_defs]: "Collect r limits =
     collect_pool (rm_pool r) @ collect_producer (rm_producer r) (maxRecords r) (maxBytes r)
     @ (if apiLimit r > 0 then [Gauge ''api_connection_limit'' (Num (apiLimit r))] else [])
     @ concat (map collect_limit
         [(''process_fd_soft_limit'', SoftFDLimit limits), (''process_fd_hard_limit'', HardFDLimit limits),
          (''process_open_fds'', OpenFDs limits),
          (''process_ephemeral_port_first'', EphemeralFirst limits),
          (''process_ephemeral_port_last'', EphemeralLast limits)])"

definition desc_names :: "bytes list" where
  \<comment> \<open>the descriptors \<^verbatim>\<open>newRuntimeMetrics\<close> creates\<close>
  "desc_names =
     [''db_pool_available'', ''db_pool_max_conns'', ''db_pool_acquired_conns'', ''db_pool_idle_conns'',
      ''db_pool_total_conns'', ''db_pool_empty_acquires_total'',
      ''db_pool_empty_acquire_wait_seconds_total'', ''db_pool_cancelled_acquires_total'',
      ''db_pool_acquire_seconds_total'', ''producer_buffer_available'',
      ''producer_max_buffered_records'', ''producer_max_buffered_bytes'', ''producer_buffered_records'',
      ''producer_buffered_bytes'', ''api_connection_limit'', ''process_fd_soft_limit'',
      ''process_fd_hard_limit'', ''process_open_fds'', ''process_ephemeral_port_first'',
      ''process_ephemeral_port_last'']"

section \<open>Properties\<close>

datatype observation =
    OHTTP bytes bytes int | OPublish bytes int | OWrite WriteResult "go_time list" int int
  | ORetry | OQuarantine bytes | OPublishFailure bytes

fun observe :: "observation \<Rightarrow> Metrics \<Rightarrow> Metrics" where
  "observe (OHTTP r s d) = ObserveHTTP r s d"
| "observe (OPublish oc d) = ObservePublish oc d"
| "observe (OWrite r rc d now) = ObserveWrite r rc d now"
| "observe ORetry = ObserveRetry"
| "observe (OQuarantine oc) = ObserveQuarantine oc"
| "observe (OPublishFailure r) = ObservePublishFailure r"

definition routes :: "bytes list" where
  "routes = [''single'', ''batch'', ''health'', ''ready'', ''metrics'', ''other'']"

definition outcomes :: "bytes list" where
  "outcomes = [''success'', ''error'', ''saturated'', ''timeout'']"

definition statuses :: "bytes list" where
  "statuses = [''200'', ''202'', ''400'', ''401'', ''404'', ''413'', ''429'', ''500'', ''503'', ''other'']"

definition reasons :: "bytes list" where
  "reasons = [''buffer_saturated'', ''timeout'', ''broker_error'']"

definition all_series :: "(bytes \<times> bytes list) list" where
  "all_series =
     map (\<lambda>(r, s). (''ingestkit_http_total'', [r, s])) (List.product routes statuses)
     @ map (\<lambda>r. (''ingestkit_http_seconds'', [r])) routes
     @ map (\<lambda>r. (''ingestkit_publish_seconds'', [r])) outcomes
     @ map (\<lambda>r. (''ingestkit_quarantine_total'', [r])) outcomes
     @ map (\<lambda>r. (''ingestkit_publish_failures_total'', [r])) reasons
     @ map (\<lambda>n. (n, [])) [''ingestkit_stored_total'', ''ingestkit_duplicates_total'',
         ''ingestkit_retries_total'', ''ingestkit_storage_seconds'', ''ingestkit_batch_events'',
         ''ingestkit_receipt_to_storage_seconds'']"

lemma route_in: "route s \<in> set routes"
  by (simp add: route_def routes_def)

lemma outcome_in: "outcome s \<in> set outcomes"
  by (simp add: outcome_def outcomes_def)

lemma status_in: "status_label s \<in> set statuses"
  by (simp add: status_label_def statuses_def)

lemma reason_in: "reason_label s \<in> set reasons"
  by (simp add: reason_label_def reasons_def)

lemma receipts_calls:
  "\<exists>vs. m_calls (observe_receipts now rc m) =
     m_calls m @ map (HistogramObserve ''ingestkit_receipt_to_storage_seconds'' []) vs \<and>
     length vs = length rc \<and> (\<forall>v \<in> set vs. 0 \<le> v)"
proof (induction rc arbitrary: m)
  case (Cons at rc)
  let ?v = "let elapsed = time_sub now at in if elapsed < 0 then 0 else elapsed"
  from Cons.IH [of "call (HistogramObserve ''ingestkit_receipt_to_storage_seconds'' [] ?v) m"]
  obtain vs where "m_calls (observe_receipts now (at # rc) m) =
      m_calls m @ map (HistogramObserve ''ingestkit_receipt_to_storage_seconds'' []) (?v # vs)"
    "length vs = length rc" "\<forall>v \<in> set vs. 0 \<le> v"
    by (auto simp: observe_receipts_def)
  then show ?case by (intro exI [of _ "?v # vs"]) (auto simp: Let_def)
qed (simp add: observe_receipts_def)

lemma ObserveWrite_calls:
  "\<exists>vs. m_calls (ObserveWrite r rc d now m) = m_calls m @
     [CounterAdd ''ingestkit_stored_total'' [] (Inserted r),
      CounterAdd ''ingestkit_duplicates_total'' [] (Duplicates r),
      HistogramObserve ''ingestkit_storage_seconds'' [] d,
      HistogramObserve ''ingestkit_batch_events'' [] (Inserted r + Duplicates r)]
     @ map (HistogramObserve ''ingestkit_receipt_to_storage_seconds'' []) vs \<and>
     length vs = length rc \<and> (\<forall>v \<in> set vs. 0 \<le> v)"
  using receipts_calls [of now rc
      "call (HistogramObserve ''ingestkit_batch_events'' [] (Inserted r + Duplicates r))
        (call (HistogramObserve ''ingestkit_storage_seconds'' [] d)
          (call (CounterAdd ''ingestkit_duplicates_total'' [] (Duplicates r))
            (call (CounterAdd ''ingestkit_stored_total'' [] (Inserted r)) m)))"]
  by (simp add: ObserveWrite_def)

lemma observe_series:
  "\<exists>cs. m_calls (observe x m) = m_calls m @ cs \<and> series ` set cs \<subseteq> set all_series"
proof (cases x)
  case (OWrite r rc d now)
  obtain vs where "m_calls (observe x m) = m_calls m @
      [CounterAdd ''ingestkit_stored_total'' [] (Inserted r),
       CounterAdd ''ingestkit_duplicates_total'' [] (Duplicates r),
       HistogramObserve ''ingestkit_storage_seconds'' [] d,
       HistogramObserve ''ingestkit_batch_events'' [] (Inserted r + Duplicates r)]
      @ map (HistogramObserve ''ingestkit_receipt_to_storage_seconds'' []) vs"
    using ObserveWrite_calls [of r rc d now m] OWrite by auto
  then show ?thesis by (auto simp: all_series_def)
qed (auto simp: all_series_def ObserveHTTP_def ObservePublish_def ObserveRetry_def
      ObserveQuarantine_def ObservePublishFailure_def route_in outcome_in status_in reason_in)

text \<open>
  Whatever labels and durations callers pass, and however many observations are made, the
  metrics only ever touch one of 83 fixed series, so the label cardinality stays bounded.
\<close>

theorem metrics_low_cardinality:
  "series ` set (m_calls (fold observe xs New)) \<subseteq> set all_series \<and> length all_series = 83"
proof -
  have "series ` set (m_calls (fold observe xs m)) \<subseteq> set all_series \<union> series ` set (m_calls m)" for m
  proof (induction xs arbitrary: m)
    case (Cons x xs)
    from observe_series [of x m] obtain cs where
      "m_calls (observe x m) = m_calls m @ cs" "series ` set cs \<subseteq> set all_series" by blast
    with Cons.IH [of "observe x m"] show ?case by (simp add: image_Un) blast
  qed simp
  from this [of New] show ?thesis
    by (simp add: New_def all_series_def routes_def outcomes_def statuses_def reasons_def)
qed

fun sample_name :: "sample \<Rightarrow> bytes list" where
  "sample_name (Gauge n _) = [n]"
| "sample_name (Counter n _) = [n]"
| "sample_name (Available _ _) = []"

fun resource :: "sample \<Rightarrow> bytes list" where
  "resource (Available r _) = [r]"
| "resource _ = []"

lemma collect_limit_names:
  "concat (map sample_name (collect_limit (n, l))) \<in> {[], [n]} \<and>
   concat (map resource (collect_limit (n, l))) = [n] \<and>
   (n \<in> set (concat (map sample_name (collect_limit (n, l)))) \<longleftrightarrow>
    Available n True \<in> set (collect_limit (n, l)))"
  by (auto simp: collect_limit_def split: option.splits bool.splits)

text \<open>
  Every sample the runtime collector emits has a descriptor that was registered for it (an
  unregistered name would crash the scrape), no series is emitted twice, and each of the five
  process resources has exactly one availability sample.
\<close>

theorem Collect_registered:
  "set (concat (map sample_name (Collect r limits))) \<subseteq> set desc_names \<and>
   distinct (concat (map sample_name (Collect r limits))) \<and>
   concat (map resource (Collect r limits)) =
     [''process_fd_soft_limit'', ''process_fd_hard_limit'', ''process_open_fds'',
      ''process_ephemeral_port_first'', ''process_ephemeral_port_last'']"
proof -
  have pool: "subseq (concat (map sample_name (collect_pool p))) (take 9 desc_names)" for p
    by (cases p) (simp_all add: collect_pool_def desc_names_def)
  have prod: "subseq (concat (map sample_name (collect_producer q a b))) (take 5 (drop 9 desc_names))"
    for q a b
    by (cases q) (auto simp: collect_producer_def desc_names_def)
  have limit: "subseq (concat (map sample_name (collect_limit (n, l)))) [n]" for n l
    using collect_limit_names [of n l] by (metis empty_iff insert_iff list_emb_Nil subseq_order.refl)
  have api: "subseq (concat (map sample_name
      (if apiLimit r > 0 then [Gauge ''api_connection_limit'' (Num (apiLimit r))] else [])))
      [''api_connection_limit'']" by simp
  have desc: "desc_names = take 9 desc_names @ take 5 (drop 9 desc_names) @ [''api_connection_limit'']
      @ [''process_fd_soft_limit''] @ [''process_fd_hard_limit''] @ [''process_open_fds'']
      @ [''process_ephemeral_port_first''] @ [''process_ephemeral_port_last'']"
    by (simp add: desc_names_def)
  have sub: "subseq (concat (map sample_name (Collect r limits))) desc_names"
    unfolding Collect_def
    by (subst desc, simp only: map_append concat_append list.map concat.simps append_Nil2)
       (intro list_emb_append_mono pool prod limit api)
  have "distinct desc_names" by (simp add: desc_names_def)
  note names = subseq_set [OF sub] subseq_distinct [OF sub this]
  have "concat (map resource (collect_pool p)) = []"
      "concat (map resource (collect_producer q a b)) = []" for p q a b
    by (auto simp: collect_pool_def collect_producer_def split: option.splits)
  moreover have "concat (map resource (collect_limit (n, l))) = [n]" for n l
    using collect_limit_names by blast
  ultimately have "concat (map resource (Collect r limits)) =
     [''process_fd_soft_limit'', ''process_fd_hard_limit'', ''process_open_fds'',
      ''process_ephemeral_port_first'', ''process_ephemeral_port_last'']"
    by (simp add: Collect_def)
  with names show ?thesis by blast
qed

end
