(* ===== verification/Publisher.thy ===== *)
theory Publisher
  imports Telemetry
begin

text \<open>
  The publishing half of \<^verbatim>\<open>internal/messaging\<close>: \<^verbatim>\<open>publisher.go\<close>.  The Kafka client
  franz-go is not part of the sources.  One call of \<^verbatim>\<open>send\<close> hands its records to the
  parameter \<open>kgo_produce\<close>, which answers with the records the broker appended because of the
  call and with the promises in the order they fire; \<open>kgo_contract\<close> is what the client
  documents.  The world the package acts on is a record: its durable part is what a crash of
  the process leaves behind, and \<open>w_trace\<close> lists the durable states reached, one per external
  effect, so that properties can speak of a crash at any moment.
\<close>

section \<open>Records, errors, world\<close>

record RecordHeader =
  h_key :: bytes
  h_value :: "bytes option"

text \<open>A nil slice is \<open>None\<close>; the two kinds of absence differ in JSON.\<close>

record krecord =
  Topic :: bytes
  Partition :: int
  Offset :: int
  Key :: "bytes option"
  RValue :: "bytes option"
  Headers :: "RecordHeader list option"

datatype kgo_error = ErrMaxBuffered | ErrRecordTimeout | KCanceled | KDeadlineExceeded | KOther bytes

datatype msg_error =
    MEvent event_error
  | ErrSaturated
  | ErrUnavailable "kgo_error + ctx_error"
  | MMarshal
  | MCtx ctx_error
  | MInfra infra_error
  | ErrRetryExhausted infra_error
  | MCommitProgress infra_error
  | MFetchFailure infra_error

record Operation =
  Kind :: bytes
  OpTopic :: bytes
  OpPartition :: int
  OpOffset :: int
  OpErr :: "msg_error option"

record durable =
  d_table :: table
  d_log :: "krecord list"
  d_committed :: "bytes \<times> int \<Rightarrow> int option"

record world = durable +
  w_now :: int  \<comment> \<open>the clock, nanoseconds since year 1\<close>
  w_calls :: nat  \<comment> \<open>external calls made so far\<close>
  w_trace :: "durable list"
  w_ops :: "Operation list"
  w_metrics :: "Metrics option"

definition measure_with :: "(Metrics \<Rightarrow> Metrics) \<Rightarrow> world \<Rightarrow> world" where
  \<comment> \<open>guarded by \<^verbatim>\<open>metrics != nil\<close>\<close>
  [go_defs]: "measure_with f w = w\<lparr>w_metrics := map_option f (w_metrics w)\<rparr>"

section \<open>The client library\<close>

record arrival =
  a_at :: int
  a_tie :: bool  \<comment> \<open>whether the promise wins when the context is done at the same time\<close>
  a_index :: nat
  a_err :: "kgo_error option"

record produce_run =
  pr_appended :: "krecord list"
  pr_arrivals :: "arrival list"

type_synonym kgo_produce = "nat \<Rightarrow> krecord list \<Rightarrow> krecord list \<Rightarrow> produce_run"

definition same_content :: "krecord \<Rightarrow> krecord \<Rightarrow> bool" where
  \<comment> \<open>the broker assigns partition and offset\<close>
  "same_content a r \<longleftrightarrow>
     Topic a = Topic r \<and> Key a = Key r \<and> RValue a = RValue r \<and> Headers a = Headers r"

text \<open>
  Every promise fires at most once and for a record of the call; a promise without error means
  the record is in the log; only records of the call are appended, each after the records its
  partition already has.
\<close>

definition on_partition :: "bytes \<times> int \<Rightarrow> krecord \<Rightarrow> bool" where
  "on_partition tp r \<longleftrightarrow> (Topic r, Partition r) = tp"

definition log_ok :: "krecord list \<Rightarrow> bool" where
  "log_ok log \<longleftrightarrow> (\<forall>tp. sorted_wrt (<) (map Offset (filter (on_partition tp) log)))"

definition kgo_contract :: "kgo_produce \<Rightarrow> bool" where
  "kgo_contract produce \<longleftrightarrow>
     (\<forall>n log rs. let r = produce n log rs in
        distinct (map a_index (pr_arrivals r)) \<and>
        (\<forall>a \<in> set (pr_arrivals r). a_index a < length rs \<and>
           (a_err a = None \<longrightarrow> (\<exists>q \<in> set (pr_appended r). same_content q (rs ! a_index a)))) \<and>
        (\<forall>q \<in> set (pr_appended r). \<exists>i < length rs. same_content q (rs ! i)) \<and>
        (log_ok log \<longrightarrow> log_ok (log @ pr_appended r)))"

section \<open>Configuration\<close>

record PublisherConfig =
  Brokers :: "bytes list"
  PTopic :: bytes
  MaxBufferedBytes :: int
  MaxBufferedRecords :: int
  PublishTimeout :: int

record Publisher =
  topic :: bytes
  timeout :: int

definition publisherDefaults :: "PublisherConfig \<Rightarrow> PublisherConfig" where
  "publisherDefaults c =
     (let c = (if MaxBufferedBytes c = 0 then c\<lparr>MaxBufferedBytes := 64 * 1024 * 1024\<rparr> else c);
          c = (if MaxBufferedRecords c = 0 then c\<lparr>MaxBufferedRecords := 1000\<rparr> else c)
      in if PublishTimeout c = 0 then c\<lparr>PublishTimeout := 5 * second\<rparr> else c)"

text \<open>\<open>client_err\<close> is the error of \<^verbatim>\<open>kgo.NewClient\<close>; the client starts with an empty buffer.\<close>

definition NewPublisher ::
  "PublisherConfig \<Rightarrow> bytes option \<Rightarrow> Metrics option \<Rightarrow> Metrics option \<times> (bytes + Publisher)"
where
  [go_defs]: "NewPublisher c client_err m =
     (if Brokers c = [] \<or> PTopic c = [] then (m, Inl ''brokers and topic are required'')
      else (let c = publisherDefaults c in
            if MaxBufferedBytes c < 1 \<or> MaxBufferedRecords c < 1 \<or> PublishTimeout c < millisecond
            then (m, Inl ''invalid publisher limits'')
            else case client_err of
                   Some e \<Rightarrow> (m, Inl e)
                 | None \<Rightarrow>
                     (map_option (RegisterProducer (0, 0) (MaxBufferedRecords c) (MaxBufferedBytes c)) m,
                      Inr \<lparr>topic = PTopic c, timeout = PublishTimeout c\<rparr>)))"

section \<open>Sending\<close>

text \<open>
  The receive loop of \<^verbatim>\<open>send\<close>: n results are still awaited, the context is done at \<open>dt\<close>.
  The answer is the time, the failure reason and the error.
\<close>

fun send_loop ::
  "int \<times> ctx_error \<Rightarrow> nat \<Rightarrow> arrival list \<Rightarrow> int \<Rightarrow> int \<times> bytes \<times> msg_error option"
where
  "send_loop (dt, de) 0 as now = (now, ''broker_error'', None)"
| "send_loop (dt, de) (Suc n) [] now = (max now dt, ''timeout'', Some (ErrUnavailable (Inr de)))"
| "send_loop (dt, de) (Suc n) (a # as) now =
     (if max now (a_at a) < max now dt \<or> (max now (a_at a) = max now dt \<and> a_tie a) then
        (case a_err a of
           None \<Rightarrow> send_loop (dt, de) n as (max now (a_at a))
         | Some e \<Rightarrow>
             if e = ErrMaxBuffered then (max now (a_at a), ''buffer_saturated'', Some ErrSaturated)
             else (max now (a_at a),
                   if e = KDeadlineExceeded \<or> e = KCanceled \<or> e = ErrRecordTimeout then ''timeout''
                   else ''broker_error'',
                   Some (ErrUnavailable (Inl e))))
      else (max now dt, ''timeout'', Some (ErrUnavailable (Inr de))))"

definition appended_states :: "world \<Rightarrow> krecord list \<Rightarrow> durable list" where
  \<comment> \<open>the durable states while the broker appends\<close>
  "appended_states w rs =
     map (\<lambda>k. (durable.truncate w)\<lparr>d_log := d_log w @ take k rs\<rparr>) [0..<Suc (length rs)]"

definition send ::
  "kgo_produce \<Rightarrow> Publisher \<Rightarrow> ctx \<Rightarrow> krecord list \<Rightarrow> world \<Rightarrow> world \<times> msg_error option"
where
  [go_defs]: "send produce p ctx records w =
     (let start = w_now w;
          run = produce (w_calls w) (d_log w) records;
          (now, reason, err) = send_loop (deadline ctx start (timeout p)) (length records) (pr_arrivals run) start;
          w = w\<lparr>d_log := d_log w @ pr_appended run, w_now := now, w_calls := Suc (w_calls w),
                w_trace := w_trace w @ appended_states w (pr_appended run)\<rparr>;
          w = (case err of
                 None \<Rightarrow> measure_with (ObservePublish ''success'' (now - start)) w
               | Some _ \<Rightarrow> measure_with (ObservePublish ''error'' (now - start))
                             (measure_with (ObservePublishFailure reason) w))
      in (w, err))"

definition event_record :: "uuid_pkg \<Rightarrow> Publisher \<Rightarrow> Envelope \<Rightarrow> bytes \<Rightarrow> krecord" where
  "event_record u p e raw =
     \<lparr>Topic = topic p, Partition = 0, Offset = 0,
      Key = Some (TenantID e @ '':'' @ uuid_string u (EventID e)), RValue = Some raw, Headers = None\<rparr>"

fun encode_all :: "uuid_pkg \<Rightarrow> Publisher \<Rightarrow> Envelope list \<Rightarrow> event_error + krecord list" where
  "encode_all u p [] = Inr []"
| "encode_all u p (e # es) =
     (case EncodeEnvelope u e of
        Inl err \<Rightarrow> Inl err
      | Inr raw \<Rightarrow> (case encode_all u p es of Inl err \<Rightarrow> Inl err
                    | Inr rs \<Rightarrow> Inr (event_record u p e raw # rs)))"

definition Publish ::
  "uuid_pkg \<Rightarrow> kgo_produce \<Rightarrow> Publisher \<Rightarrow> ctx \<Rightarrow> Envelope list \<Rightarrow> world \<Rightarrow> world \<times> msg_error option"
where
  [go_defs]: "Publish u produce p ctx events w =
     (case encode_all u p events of
        Inl err \<Rightarrow> (w, Some (MEvent err))
      | Inr records \<Rightarrow> send produce p ctx records w)"

section \<open>Readiness\<close>

record partition_meta =
  pm_error :: int
  pm_leader :: int

record topic_meta =
  tm_error :: int
  tm_partitions :: "partition_meta list"

text \<open>The answer of the metadata request is an error or the described topics.\<close>

fun partitions_ready :: "partition_meta list \<Rightarrow> bytes option" where
  "partitions_ready [] = None"
| "partitions_ready (part # ps) =
     (if pm_error part \<noteq> 0 \<or> pm_leader part < 0 then Some ''topic partition is not ready''
      else partitions_ready ps)"

definition topicReady :: "bytes + topic_meta list \<Rightarrow> bytes option" where
  [go_defs]: "topicReady response =
     (case response of
        Inl e \<Rightarrow> Some e
      | Inr [t] \<Rightarrow>
          if tm_error t \<noteq> 0 \<or> tm_partitions t = [] then Some ''broker topic is not ready''
          else partitions_ready (tm_partitions t)
      | Inr _ \<Rightarrow> Some ''broker topic is not ready'')"

section \<open>Facts about sending\<close>

lemma measure_with_simps [simp]:
  "d_table (measure_with f w) = d_table w" "d_log (measure_with f w) = d_log w"
  "d_committed (measure_with f w) = d_committed w" "w_now (measure_with f w) = w_now w"
  "w_calls (measure_with f w) = w_calls w" "w_trace (measure_with f w) = w_trace w"
  "w_ops (measure_with f w) = w_ops w" "w_metrics (measure_with f w) = map_option f (w_metrics w)"
  by (simp_all add: measure_with_def)

lemma send_loop_ok:
  "send_loop d n as now = (t, r, None) \<Longrightarrow>
   n \<le> length as \<and> (\<forall>a \<in> set (take n as). a_err a = None)"
  by (induction d n as now rule: send_loop.induct)
     (auto split: if_splits option.splits)

lemma send_loop_time:
  "send_loop (dt, de) n as now = (t, r, e) \<Longrightarrow> now \<le> t \<and> t \<le> max now dt"
proof (induction n arbitrary: as now)
  case (Suc n)
  show ?case
  proof (cases as)
    case Nil
    with Suc.prems show ?thesis by auto
  next
    case (Cons a as')
    show ?thesis
    proof (cases "a_err a")
      case None
      with Cons Suc.prems Suc.IH [of as' "max now (a_at a)"] show ?thesis by (auto split: if_splits)
    qed (use Cons Suc.prems in \<open>auto split: if_splits\<close>)
  qed
qed simp

lemma send_loop_reason:
  "send_loop d n as now = (t, r, Some e) \<Longrightarrow>
   r = (case e of ErrSaturated \<Rightarrow> ''buffer_saturated''
        | ErrUnavailable (Inr _) \<Rightarrow> ''timeout''
        | ErrUnavailable (Inl k) \<Rightarrow>
            if k = KDeadlineExceeded \<or> k = KCanceled \<or> k = ErrRecordTimeout then ''timeout''
            else ''broker_error''
        | _ \<Rightarrow> r) \<and> (e = ErrSaturated \<or> (\<exists>k. e = ErrUnavailable k \<and> k \<noteq> Inl ErrMaxBuffered))"
  by (induction d n as now rule: send_loop.induct) (auto split: if_splits option.splits)

lemma index_all:
  assumes "distinct (map f xs)" and "\<And>x. x \<in> set xs \<Longrightarrow> f x < n" and "length xs = n" and "i < n"
  shows "\<exists>x \<in> set xs. f x = i"
proof -
  have "f ` set xs \<subseteq> {..<n}" using assms(2) by auto
  moreover have "card (f ` set xs) = n" using assms(1,3) distinct_card by fastforce
  ultimately have "f ` set xs = {..<n}" by (metis card_lessThan card_subset_eq finite_lessThan)
  with assms(4) show ?thesis by (auto simp: image_iff dest!: equalityD2)
qed

lemma send_frame:
  assumes "send produce p ctx rs w = (w', err)"
  shows "d_table w' = d_table w" "d_committed w' = d_committed w" "w_ops w' = w_ops w"
    "w_calls w' = Suc (w_calls w)"
    "d_log w' = d_log w @ pr_appended (produce (w_calls w) (d_log w) rs)"
    "w_trace w' = w_trace w @ appended_states w (pr_appended (produce (w_calls w) (d_log w) rs))"
    "w_now w \<le> w_now w'" "w_now w' \<le> max (w_now w) (w_now w + timeout p)"
proof -
  obtain dt de where dl: "deadline ctx (w_now w) (timeout p) = (dt, de)" by fastforce
  then have "dt \<le> w_now w + timeout p" using deadline_le [of ctx "w_now w" "timeout p"] by simp
  moreover obtain t r e where loop:
    "send_loop (dt, de) (length rs) (pr_arrivals (produce (w_calls w) (d_log w) rs)) (w_now w) = (t, r, e)"
    by (metis prod_cases3)
  ultimately show "d_table w' = d_table w" "d_committed w' = d_committed w" "w_ops w' = w_ops w"
    "w_calls w' = Suc (w_calls w)"
    "d_log w' = d_log w @ pr_appended (produce (w_calls w) (d_log w) rs)"
    "w_trace w' = w_trace w @ appended_states w (pr_appended (produce (w_calls w) (d_log w) rs))"
    "w_now w \<le> w_now w'" "w_now w' \<le> max (w_now w) (w_now w + timeout p)"
    using assms dl send_loop_time [OF loop]
    by (auto simp: send_def Let_def split: option.splits)
qed

lemma send_delivers:
  assumes "kgo_contract produce" and "send produce p ctx rs w = (w', None)" and "r \<in> set rs"
  shows "\<exists>q \<in> set (d_log w'). same_content q r"
proof -
  let ?run = "produce (w_calls w) (d_log w) rs"
  let ?as = "take (length rs) (pr_arrivals ?run)"
  obtain t y where "send_loop (deadline ctx (w_now w) (timeout p)) (length rs) (pr_arrivals ?run) (w_now w) = (t, y, None)"
    using assms(2) by (auto simp: send_def Let_def split: prod.splits option.splits)
  then have ok: "length ?as = length rs" "\<forall>a \<in> set ?as. a_err a = None"
    by (auto dest: send_loop_ok)
  have c: "distinct (map a_index (pr_arrivals ?run))"
    "\<forall>a \<in> set (pr_arrivals ?run). a_index a < length rs \<and>
       (a_err a = None \<longrightarrow> (\<exists>q \<in> set (pr_appended ?run). same_content q (rs ! a_index a)))"
    using assms(1) unfolding kgo_contract_def Let_def by blast+
  obtain i where i: "i < length rs" "rs ! i = r" using assms(3) by (auto simp: in_set_conv_nth)
  have "distinct (map a_index ?as)" using c(1) by (metis distinct_take take_map)
  then obtain a where "a \<in> set ?as" "a_index a = i"
    using index_all [of a_index ?as "length rs" i] ok(1) i(1) c(2) by (meson in_set_takeD)
  with ok(2) c(2) i(2) have "\<exists>q \<in> set (pr_appended ?run). same_content q r"
    by (metis in_set_takeD)
  with send_frame(5) [OF assms(2)] show ?thesis by auto
qed

lemma encode_all_ok:
  "encode_all u p es = Inr rs \<Longrightarrow> e \<in> set es \<Longrightarrow>
   \<exists>raw. EncodeEnvelope u e = Inr raw \<and> event_record u p e raw \<in> set rs"
  by (induction es arbitrary: rs) (auto split: sum.splits)

lemma encode_all_error:
  "(\<exists>err. encode_all u p es = Inl err) \<longleftrightarrow> (\<exists>e \<in> set es. \<exists>err. EncodeEnvelope u e = Inl err)"
  by (induction es) (auto split: sum.splits)

lemma encode_all_length: "encode_all u p es = Inr rs \<Longrightarrow> length rs = length es"
  by (induction es arbitrary: rs) (auto split: sum.splits)

section \<open>What a publisher promises its client\<close>

text \<open>
  The interface \<^verbatim>\<open>EventPublisher\<close> of the API.  \<open>delivered\<close> says that a log holds an event.
\<close>

locale event_publisher =
  fixes promised :: "'e \<Rightarrow> bool"
    and publish :: "'e \<Rightarrow> ctx \<Rightarrow> Envelope list \<Rightarrow> world \<Rightarrow> world \<times> msg_error option"
    and delivered :: "'e \<Rightarrow> krecord list \<Rightarrow> Envelope \<Rightarrow> bool"
  assumes publish_delivers:
      "promised env \<Longrightarrow> publish env ctx es w = (w', None) \<Longrightarrow> e \<in> set es \<Longrightarrow>
       delivered env (d_log w') e"
    and publish_frame:
      "publish env ctx es w = (w', err) \<Longrightarrow>
       d_table w' = d_table w \<and> d_committed w' = d_committed w \<and> (\<exists>app. d_log w' = d_log w @ app)"
    and delivered_append: "delivered env log e \<Longrightarrow> delivered env (log @ later) e"

type_synonym publisher_env = "uuid_pkg \<times> kgo_produce \<times> Publisher"

definition in_log :: "uuid_pkg \<Rightarrow> Publisher \<Rightarrow> krecord list \<Rightarrow> Envelope \<Rightarrow> bool" where
  "in_log u p log e \<longleftrightarrow>
     (\<exists>raw. EncodeEnvelope u e = Inr raw \<and> (\<exists>q \<in> set log. same_content q (event_record u p e raw)))"

lemma Publish_delivers:
  assumes "kgo_contract produce" and "Publish u produce p ctx es w = (w', None)" and "e \<in> set es"
  shows "in_log u p (d_log w') e"
proof -
  from assms(2) obtain rs where rs: "encode_all u p es = Inr rs" "send produce p ctx rs w = (w', None)"
    by (auto simp: Publish_def split: sum.splits)
  with assms(3) obtain raw where "EncodeEnvelope u e = Inr raw" "event_record u p e raw \<in> set rs"
    using encode_all_ok by blast
  with send_delivers [OF assms(1) rs(2)] show ?thesis unfolding in_log_def by blast
qed

lemma Publish_frame:
  "Publish u produce p ctx es w = (w', err) \<Longrightarrow>
   d_table w' = d_table w \<and> d_committed w' = d_committed w \<and> (\<exists>app. d_log w' = d_log w @ app)"
  by (auto simp: Publish_def send_frame split: sum.splits)

interpretation broker: event_publisher
  "\<lambda>(u, produce, p). kgo_contract produce" "\<lambda>(u, produce, p). Publish u produce p"
  "\<lambda>(u, produce, p). in_log u p"
  by unfold_locales (auto simp: Publish_frame in_log_def split: prod.splits dest: Publish_delivers [unfolded in_log_def])

section \<open>A client with the documented behaviour\<close>

text \<open>It appends every record; at the calls in \<open>lost\<close> no promise fires, at those in \<open>full\<close>
  nothing is appended and the first promise reports a full buffer.\<close>

definition next_offset :: "krecord list \<Rightarrow> int" where
  "next_offset log = foldr (\<lambda>r m. max m (Offset r + 1)) log 0"

definition assign :: "krecord list \<Rightarrow> krecord list \<Rightarrow> krecord list" where
  "assign log rs =
     map (\<lambda>i. (rs ! i)\<lparr>Partition := 0, Offset := next_offset log + int i\<rparr>) [0..<length rs]"

definition kgo_example :: "nat set \<Rightarrow> nat set \<Rightarrow> kgo_produce" where
  "kgo_example lost full n log rs =
     (if n \<in> full then
        \<lparr>pr_appended = [],
         pr_arrivals = (if rs = [] then []
           else [\<lparr>a_at = 0, a_tie = True, a_index = 0, a_err = Some ErrMaxBuffered\<rparr>])\<rparr>
      else
        \<lparr>pr_appended = assign log rs,
         pr_arrivals = (if n \<in> lost then []
           else map (\<lambda>i. \<lparr>a_at = 0, a_tie = True, a_index = i, a_err = None\<rparr>) [0..<length rs])\<rparr>)"

lemma next_offset_above: "r \<in> set log \<Longrightarrow> Offset r < next_offset log"
  by (induction log) (auto simp: next_offset_def)

lemma log_ok_assign:
  assumes "log_ok log"
  shows "log_ok (log @ assign log rs)"
proof -
  have "sorted_wrt (\<lambda>a b. Offset a < Offset b) (assign log rs)"
    by (simp add: assign_def sorted_wrt_map)
  moreover have "Offset a < Offset b" if "a \<in> set log" "b \<in> set (assign log rs)" for a b
    using that next_offset_above [OF that(1)] by (auto simp: assign_def)
  ultimately show ?thesis
    using assms by (auto simp: log_ok_def sorted_wrt_append sorted_wrt_map sorted_wrt_filter)
qed

lemma assign_content: "i < length rs \<Longrightarrow> same_content (assign log rs ! i) (rs ! i)"
  by (simp add: assign_def same_content_def)

lemma kgo_example_contract: "kgo_contract (kgo_example lost full)"
proof -
  have "\<exists>q \<in> set (assign log rs). same_content q (rs ! i)" if "i < length rs" for log rs i
    using assign_content [OF that] that by (metis assign_def length_map length_upt minus_nat.diff_0 nth_mem)
  moreover have "\<exists>i < length rs. same_content q (rs ! i)" if "q \<in> set (assign log rs)" for log rs q
    using that assign_content [of _ rs log] by (auto simp: assign_def in_set_conv_nth)
  ultimately show ?thesis
    by (auto simp: kgo_contract_def kgo_example_def Let_def log_ok_assign o_def)
qed

definition quiet_world :: world where
  \<comment> \<open>an empty system, 2026\<close>
  "quiet_world =
     \<lparr>d_table = Map.empty, d_log = [], d_committed = Map.empty, w_now = 63902908801000000005,
      w_calls = 0, w_trace = [], w_ops = [], w_metrics = Some New\<rparr>"

definition sample_publisher :: Publisher where
  "sample_publisher = \<lparr>topic = ''events'', timeout = 5 * second\<rparr>"

section \<open>Properties\<close>

text \<open>
  C8. When \<^verbatim>\<open>Publish\<close> returns nil, the broker's log holds every event of the call, as a record
  on the publisher's topic whose key is the tenant and the event id and whose value is the
  encoded envelope; the records that were in the log before are still its prefix.  The loop
  counts results and not records, so this rests on every promise firing at most once.
\<close>

theorem Publish_success:
  assumes "kgo_contract produce" and "Publish u produce p ctx es w = (w', None)"
  shows "(\<forall>e \<in> set es. \<exists>raw. EncodeEnvelope u e = Inr raw \<and>
            (\<exists>q \<in> set (d_log w'). Topic q = topic p \<and> RValue q = Some raw \<and>
               Key q = Some (TenantID e @ '':'' @ uuid_string u (EventID e)))) \<and>
         (\<exists>app. d_log w' = d_log w @ app)"
proof -
  have "in_log u p (d_log w') e" if "e \<in> set es" for e
    using broker.publish_delivers [of "(u, produce, p)" ctx es w w' e] assms that by simp
  then have "\<exists>raw. EncodeEnvelope u e = Inr raw \<and>
            (\<exists>q \<in> set (d_log w'). Topic q = topic p \<and> RValue q = Some raw \<and>
               Key q = Some (TenantID e @ '':'' @ uuid_string u (EventID e)))" if "e \<in> set es" for e
    using that by (fastforce simp: in_log_def same_content_def event_record_def)
  moreover have "\<exists>app. d_log w' = d_log w @ app"
    using broker.publish_frame [of "(u, produce, p)" ctx es w w' None] assms by simp
  ultimately show ?thesis by blast
qed

lemma sample_encodes_run:
  "(case EncodeEnvelope uuid_canonical sample_event of Inr _ \<Rightarrow> True | Inl _ \<Rightarrow> False)"
  by code_simp

lemma sample_encodes: "\<exists>raw. EncodeEnvelope uuid_canonical sample_event = Inr raw"
  using sample_encodes_run by (auto split: sum.splits)

theorem Publish_success_witness:
  "\<exists>w' raw. Publish uuid_canonical (kgo_example {} {}) sample_publisher None [sample_event] quiet_world = (w', None) \<and>
     EncodeEnvelope uuid_canonical sample_event = Inr raw \<and>
     (\<exists>q \<in> set (d_log w'). Topic q = ''events'' \<and> RValue q = Some raw)"
proof -
  obtain raw where raw: "EncodeEnvelope uuid_canonical sample_event = Inr raw"
    using sample_encodes by blast
  then obtain w' where "Publish uuid_canonical (kgo_example {} {}) sample_publisher None [sample_event] quiet_world = (w', None)"
    by (simp add: Publish_def send_def kgo_example_def quiet_world_def sample_publisher_def deadline_def
        second_def Let_def)
  with Publish_success [OF kgo_example_contract this] raw show ?thesis
    by (auto simp: sample_publisher_def)
qed

text \<open>
  C35. \<^verbatim>\<open>Publish\<close> fails before it talks to the broker exactly when some event cannot be
  encoded, and then the world is untouched: a batch with a bad event publishes none of it.
  Every other failure is \<^verbatim>\<open>ErrSaturated\<close> or \<^verbatim>\<open>ErrUnavailable\<close>.
\<close>

theorem Publish_failure:
  "(\<forall>err. Publish u produce p ctx es w = (w', Some (MEvent err)) \<longrightarrow> w' = w) \<and>
   ((\<exists>err. snd (Publish u produce p ctx es w) = Some (MEvent err)) \<longleftrightarrow>
    (\<exists>e \<in> set es. \<exists>err. EncodeEnvelope u e = Inl err)) \<and>
   (snd (Publish u produce p ctx es w) = None \<or>
    (\<exists>err. snd (Publish u produce p ctx es w) = Some (MEvent err)) \<or>
    snd (Publish u produce p ctx es w) = Some ErrSaturated \<or>
    (\<exists>k. snd (Publish u produce p ctx es w) = Some (ErrUnavailable k)))"
proof -
  have snd_send: "snd (send produce p ctx rs w) = None \<or> snd (send produce p ctx rs w) = Some ErrSaturated \<or>
      (\<exists>k. snd (send produce p ctx rs w) = Some (ErrUnavailable k))" for rs
    using send_loop_reason [of "deadline ctx (w_now w) (timeout p)" "length rs"
        "pr_arrivals (produce (w_calls w) (d_log w) rs)" "w_now w"]
    by (auto simp: send_def Let_def split: prod.splits)
  show ?thesis
  proof (cases "encode_all u p es")
    case (Inl err)
    then show ?thesis using encode_all_error [of u p es] by (auto simp: Publish_def)
  next
    case (Inr rs)
    then show ?thesis
      using snd_send [of rs] encode_all_error [of u p es] by (auto simp: Publish_def)
  qed
qed

theorem Publish_failure_witness:
  "\<exists>err. Publish uuid_canonical (kgo_example {} {}) sample_publisher None
      [sample_event, sample_event\<lparr>EventID := uuid_Nil\<rparr>] quiet_world = (quiet_world, Some (MEvent err))"
proof -
  let ?es = "[sample_event, sample_event\<lparr>EventID := uuid_Nil\<rparr>]"
  have "EncodeEnvelope uuid_canonical (sample_event\<lparr>EventID := uuid_Nil\<rparr>) =
      Inl (invalid ''event_id must be a nonzero UUID'')"
    by (simp add: EncodeEnvelope_def Accept_def validate_def Input.truncate_def)
  then have "\<exists>e \<in> set ?es. \<exists>err. EncodeEnvelope uuid_canonical e = Inl err" by auto
  with Publish_failure [of uuid_canonical "kgo_example {} {}" sample_publisher None ?es quiet_world
      "fst (Publish uuid_canonical (kgo_example {} {}) sample_publisher None ?es quiet_world)"]
  show ?thesis by (metis prod.collapse)
qed

text \<open>
  One send takes at most the publish timeout of the publisher, or less when the caller's
  context ends before, and when metrics are kept it records exactly one outcome: success
  without a failure reason, or error with the reason the error stands for.
\<close>

theorem send_outcome:
  assumes "send produce p ctx rs w = (w', err)" and "0 \<le> timeout p" and "w_metrics w = Some m"
  shows "w_now w \<le> w_now w' \<and> w_now w' \<le> w_now w + timeout p \<and>
         (\<exists>m'. w_metrics w' = Some m' \<and>
            m_calls m' = m_calls m @
              (case err of
                 None \<Rightarrow> [HistogramObserve ''ingestkit_publish_seconds'' [''success''] (w_now w' - w_now w)]
               | Some e \<Rightarrow>
                   [CounterAdd ''ingestkit_publish_failures_total''
                      [case e of ErrSaturated \<Rightarrow> ''buffer_saturated''
                       | ErrUnavailable (Inl (KOther x)) \<Rightarrow> ''broker_error'' | _ \<Rightarrow> ''timeout''] 1,
                    HistogramObserve ''ingestkit_publish_seconds'' [''error''] (w_now w' - w_now w)]))"
proof -
  let ?loop = "send_loop (deadline ctx (w_now w) (timeout p)) (length rs)
      (pr_arrivals (produce (w_calls w) (d_log w) rs)) (w_now w)"
  obtain t r e where loop: "?loop = (t, r, e)" by (metis prod_cases3)
  with assms(1) have w': "err = e" "w_now w' = t"
    by (auto simp: send_def Let_def split: option.splits)
  show ?thesis
  proof (cases e)
    case None
    with assms loop w' show ?thesis
      using send_frame(7,8) [OF assms(1)]
      by (auto simp: send_def Let_def ObservePublish_def outcome_def)
  next
    case (Some x)
    with loop have "?loop = (t, r, Some x)" by simp
    from send_loop_reason [OF this] have
      "reason_label r = (case x of ErrSaturated \<Rightarrow> ''buffer_saturated''
          | ErrUnavailable (Inl (KOther y)) \<Rightarrow> ''broker_error'' | _ \<Rightarrow> ''timeout'')"
      by (auto simp: reason_label_def split: msg_error.splits sum.splits kgo_error.splits)
    with assms loop w' Some show ?thesis
      using send_frame(7,8) [OF assms(1)]
      by (auto simp: send_def Let_def ObservePublish_def ObservePublishFailure_def outcome_def)
  qed
qed

theorem send_outcome_witness:
  "\<exists>w' err. send (kgo_example {0} {}) sample_publisher None [event_record uuid_canonical sample_publisher sample_event []] quiet_world = (w', err) \<and>
     err = Some (ErrUnavailable (Inr DeadlineExceeded)) \<and>
     w_now w' \<le> w_now quiet_world + 5 * second"
proof -
  obtain w' err where run:
    "send (kgo_example {0} {}) sample_publisher None [event_record uuid_canonical sample_publisher sample_event []] quiet_world = (w', err)"
    by fastforce
  then have "err = Some (ErrUnavailable (Inr DeadlineExceeded))"
    by (simp add: send_def kgo_example_def quiet_world_def sample_publisher_def deadline_def
        second_def Let_def)
  moreover have "w_now w' \<le> w_now quiet_world + 5 * second"
    using send_outcome [OF run, of New] by (simp add: sample_publisher_def second_def quiet_world_def)
  ultimately show ?thesis using run by blast
qed

end
