(* ===== verification/Quarantine.thy ===== *)
theory Quarantine
  imports Publisher
begin

text \<open>
  \<^verbatim>\<open>internal/messaging/quarantine.go\<close>: a record that does not decode is wrapped, with the reason,
  in a JSON document and published to the dead letter topic.  \<^verbatim>\<open>json.Marshal\<close> writes byte
  slices in base64, nil slices as null, and escapes HTML characters in strings.
\<close>

section \<open>Base64\<close>

definition b64_char :: "nat \<Rightarrow> char" where
  "b64_char k =
     (if k < 26 then char_of (65 + k) else if k < 52 then char_of (71 + k)
      else if k < 62 then char_of (k - 4) else if k = 62 then CHR ''+'' else CHR ''/'')"

definition b64_val :: "char \<Rightarrow> nat option" where
  "b64_val c =
     (if between 65 90 c then Some (byte c - 65) else if between 97 122 c then Some (byte c - 71)
      else if between 48 57 c then Some (byte c + 4) else if c = CHR ''+'' then Some 62
      else if c = CHR ''/'' then Some 63 else None)"

fun base64 :: "bytes \<Rightarrow> bytes" where
  "base64 [] = []"
| "base64 [a] = [b64_char (byte a div 4), b64_char (byte a mod 4 * 16), CHR ''='', CHR ''='']"
| "base64 [a, b] =
     [b64_char (byte a div 4), b64_char (byte a mod 4 * 16 + byte b div 16),
      b64_char (byte b mod 16 * 4), CHR ''='']"
| "base64 (a # b # c # r) =
     b64_char (byte a div 4) # b64_char (byte a mod 4 * 16 + byte b div 16)
     # b64_char (byte b mod 16 * 4 + byte c div 64) # b64_char (byte c mod 64) # base64 r"

fun unbase64 :: "bytes \<Rightarrow> bytes option" where
  "unbase64 [] = Some []"
| "unbase64 (w # x # y # z # r) =
     (case (b64_val w, b64_val x) of
        (Some i, Some j) \<Rightarrow>
          (if y = CHR ''='' \<and> z = CHR ''='' \<and> r = [] then Some [char_of (i * 4 + j div 16)]
           else case b64_val y of None \<Rightarrow> None
                | Some k \<Rightarrow>
                    if z = CHR ''='' \<and> r = []
                    then Some [char_of (i * 4 + j div 16), char_of (j mod 16 * 16 + k div 4)]
                    else (case (b64_val z, unbase64 r) of
                            (Some l, Some rest) \<Rightarrow>
                              Some (char_of (i * 4 + j div 16) # char_of (j mod 16 * 16 + k div 4)
                                    # char_of (k mod 4 * 64 + l) # rest)
                          | _ \<Rightarrow> None))
      | _ \<Rightarrow> None)"
| "unbase64 _ = None"

section \<open>The quarantined record\<close>

record QuarantinedRecord =
  QTopic :: bytes
  QPartition :: int
  QOffset :: int
  QKey :: "bytes option"
  QHeaders :: "RecordHeader list option"
  QValue :: "bytes option"
  QError :: bytes
  FailedAt :: go_time

definition json_bytes :: "bytes option \<Rightarrow> bytes" where
  "json_bytes b = (case b of None \<Rightarrow> ''null'' | Some v \<Rightarrow> quoted (base64 v))"

definition json_header :: "RecordHeader \<Rightarrow> bytes" where
  "json_header h =
     ''{'' @ json_field ''Key'' (quote True (h_key h)) @ '',''
     @ json_field ''Value'' (json_bytes (h_value h)) @ ''}''"

definition json_headers :: "RecordHeader list option \<Rightarrow> bytes" where
  "json_headers hs =
     (case hs of None \<Rightarrow> ''null'' | Some l \<Rightarrow> ''['' @ join_with '','' (map json_header l) @ '']'')"

definition marshal_quarantined :: "QuarantinedRecord \<Rightarrow> bytes option" where
  "marshal_quarantined q =
     (case format_rfc3339 (FailedAt q) of
        None \<Rightarrow> None
      | Some at \<Rightarrow>
          Some (''{'' @ json_field ''topic'' (quote True (QTopic q)) @ '',''
            @ json_field ''partition'' (Itoa (QPartition q)) @ '',''
            @ json_field ''offset'' (Itoa (QOffset q)) @ '',''
            @ json_field ''key'' (json_bytes (QKey q)) @ '',''
            @ json_field ''headers'' (json_headers (QHeaders q)) @ '',''
            @ json_field ''value'' (json_bytes (QValue q)) @ '',''
            @ json_field ''error'' (quote True (QError q)) @ '',''
            @ json_field ''failed_at'' (quoted at) @ ''}''))"

definition quarantined :: "krecord \<Rightarrow> bytes \<Rightarrow> int \<Rightarrow> QuarantinedRecord" where
  "quarantined r message now =
     \<lparr>QTopic = Topic r, QPartition = Partition r, QOffset = Offset r, QKey = Key r,
      QHeaders = Headers r, QValue = RValue r, QError = message, FailedAt = clock_time now\<rparr>"

definition copy_bytes :: "bytes option \<Rightarrow> bytes option" where
  \<comment> \<open>\<^verbatim>\<open>append([]byte(nil), b...)\<close>\<close>
  "copy_bytes b = (case b of None \<Rightarrow> None | Some v \<Rightarrow> if v = [] then None else Some v)"

definition quarantine_Write ::
  "kgo_produce \<Rightarrow> Publisher \<Rightarrow> ctx \<Rightarrow> krecord \<Rightarrow> event_error \<Rightarrow> world \<Rightarrow> world \<times> msg_error option"
where
  [go_defs]: "quarantine_Write produce p ctx r cause w =
     (let message = take 1024 (error_text cause);
          (w, err) =
            (case marshal_quarantined (quarantined r message (w_now w)) of
               None \<Rightarrow> (w, Some MMarshal)
             | Some raw \<Rightarrow>
                 send produce p ctx
                   [\<lparr>Topic = topic p, Partition = 0, Offset = 0, Key = copy_bytes (Key r),
                     RValue = Some raw, Headers = None\<rparr>] w)
      in (measure_with (ObserveQuarantine (if err = None then ''success'' else ''error'')) w, err))"

section \<open>Facts\<close>

lemma b64_round [simp]: "k < 64 \<Longrightarrow> b64_val (b64_char k) = Some k"
  by (auto simp: b64_val_def b64_char_def between_def)

lemma b64_not_pad [simp]: "k < 64 \<Longrightarrow> b64_char k \<noteq> CHR ''=''"
  using b64_round [of k] by (auto simp: b64_val_def between_def)

lemma byte_parts:
  "byte c div 4 < 64" "byte c div 16 < 16" "byte c div 64 < 4"
  "byte c mod 4 < 4" "byte c mod 16 < 16" "byte c mod 64 < 64"
  using byte_less_256 [of c] by (simp_all add: less_mult_imp_div_less)

lemma b64_bounds [simp]:
  "byte a div 4 < 64" "byte a mod 4 * 16 + byte b div 16 < 64" "byte a mod 4 * 16 < 64"
  "byte b mod 16 * 4 + byte c div 64 < 64" "byte b mod 16 * 4 < 64"
  using byte_parts [of a] byte_parts [of b] byte_parts [of c] by linarith+

lemma byte_split:
  "byte a div 4 * 4 + (byte a mod 4 * 16 + byte b div 16) div 16 = byte a"
  "(byte a mod 4 * 16 + byte b div 16) mod 16 * 16 + (byte b mod 16 * 4 + byte c div 64) div 4 = byte b"
  "(byte b mod 16 * 4 + byte c div 64) mod 4 * 64 + byte c mod 64 = byte c"
  "byte a div 4 * 4 + (byte a mod 4 * 16) div 16 = byte a"
  "(byte a mod 4 * 16 + byte b div 16) mod 16 * 16 + (byte b mod 16 * 4) div 4 = byte b"
  using byte_parts [of a] byte_parts [of b] byte_parts [of c] by simp_all

lemma byte_tops [simp]:
  "byte b div 16 div 16 = 0" "byte b div 16 mod 16 = byte b div 16"
  "byte c div 64 div 4 = 0" "byte c div 64 mod 4 = byte c div 64"
  using byte_parts [of b] byte_parts [of c] by simp_all

lemma unbase64_base64 [simp]: "unbase64 (base64 v) = Some v"
  by (induction v rule: base64.induct) (simp_all add: byte_split)

definition in_quarantine :: "Publisher \<Rightarrow> krecord list \<Rightarrow> krecord \<Rightarrow> bool" where
  \<comment> \<open>the log holds a wrapped copy of the record on the publisher's topic\<close>
  "in_quarantine p log r \<longleftrightarrow>
     (\<exists>q \<in> set log. \<exists>message now raw. Topic q = topic p \<and> Key q = copy_bytes (Key r) \<and>
        RValue q = Some raw \<and> marshal_quarantined (quarantined r message now) = Some raw \<and>
        length message \<le> 1024)"

lemma in_quarantine_append: "in_quarantine p log r \<Longrightarrow> in_quarantine p (log @ later) r"
  unfolding in_quarantine_def by auto

lemma quarantine_Write_keeps:
  assumes "kgo_contract produce" and "quarantine_Write produce p ctx r cause w = (w', None)"
  shows "in_quarantine p (d_log w') r"
proof -
  let ?m = "take 1024 (error_text cause)"
  from assms(2) obtain raw w1 where raw: "marshal_quarantined (quarantined r ?m (w_now w)) = Some raw"
    and snt: "send produce p ctx [\<lparr>Topic = topic p, Partition = 0, Offset = 0, Key = copy_bytes (Key r),
        RValue = Some raw, Headers = None\<rparr>] w = (w1, None)"
    and w': "d_log w' = d_log w1"
    by (auto simp: quarantine_Write_def Let_def split: option.splits prod.splits)
  from send_delivers [OF assms(1) snt] obtain q where
    "q \<in> set (d_log w')" "Topic q = topic p" "Key q = copy_bytes (Key r)" "RValue q = Some raw"
    unfolding w' by (auto simp: same_content_def)
  moreover have "length ?m \<le> 1024" by simp
  ultimately show ?thesis using raw unfolding in_quarantine_def by blast
qed

lemma quarantine_Write_frame:
  assumes "quarantine_Write produce p ctx r cause w = (w', err)"
  shows "d_table w' = d_table w \<and> d_committed w' = d_committed w \<and> w_ops w' = w_ops w \<and>
    w_now w \<le> w_now w' \<and>
    (\<exists>app. d_log w' = d_log w @ app \<and>
       (w_trace w' = w_trace w @ appended_states w app \<or> (w_trace w' = w_trace w \<and> app = [])))"
proof (cases "marshal_quarantined (quarantined r (take 1024 (error_text cause)) (w_now w))")
  case None
  with assms show ?thesis by (auto simp: quarantine_Write_def Let_def)
next
  case (Some raw)
  with assms obtain w1 where "send produce p ctx [\<lparr>Topic = topic p, Partition = 0, Offset = 0,
        Key = copy_bytes (Key r), RValue = Some raw, Headers = None\<rparr>] w = (w1, err)"
    "w' = measure_with (ObserveQuarantine (if err = None then ''success'' else ''error'')) w1"
    by (auto simp: quarantine_Write_def Let_def split: prod.splits)
  then show ?thesis using send_frame by simp
qed

section \<open>What a quarantine promises the reader\<close>

locale record_sink =
  fixes promised :: "'q \<Rightarrow> bool"
    and quarantine :: "'q \<Rightarrow> ctx \<Rightarrow> krecord \<Rightarrow> event_error \<Rightarrow> world \<Rightarrow> world \<times> msg_error option"
    and kept :: "'q \<Rightarrow> krecord list \<Rightarrow> krecord \<Rightarrow> bool"
  assumes sink_keeps:
      "promised q \<Longrightarrow> quarantine q ctx r cause w = (w', None) \<Longrightarrow> kept q (d_log w') r"
    and sink_frame:
      "quarantine q ctx r cause w = (w', err) \<Longrightarrow>
       d_table w' = d_table w \<and> d_committed w' = d_committed w \<and> w_ops w' = w_ops w \<and>
       w_now w \<le> w_now w' \<and>
       (\<exists>app. d_log w' = d_log w @ app \<and>
          (w_trace w' = w_trace w @ appended_states w app \<or> (w_trace w' = w_trace w \<and> app = [])))"
    and kept_append: "kept q log r \<Longrightarrow> kept q (log @ later) r"

interpretation dlq: record_sink
  "\<lambda>(produce, p). kgo_contract produce" "\<lambda>(produce, p). quarantine_Write produce p"
  "\<lambda>(produce, p). in_quarantine p"
  by unfold_locales
     (auto split: prod.splits dest: quarantine_Write_frame quarantine_Write_keeps intro: in_quarantine_append)


definition poison :: krecord where
  "poison =
     \<lparr>Topic = ''events'', Partition = 2, Offset = 41, Key = None, RValue = Some [CHR 0xFF, CHR ''x''],
      Headers = None\<rparr>"


end
