(* ===== verification/Reader.thy ===== *)
theory Reader
  imports Quarantine
begin

text \<open>
  The consuming half of \<^verbatim>\<open>internal/messaging\<close>: \<^verbatim>\<open>reader.go\<close> and \<^verbatim>\<open>process.go\<close>.  The
  fields of \<^verbatim>\<open>Reader\<close> that are functions or interfaces (\<^verbatim>\<open>store\<close>, \<^verbatim>\<open>poll\<close>,
  \<^verbatim>\<open>commit\<close>, \<^verbatim>\<open>quarantine\<close>) are the fields of \<open>reader_env\<close>, with the passing of time
  during a call.  A loop that has not returned within its fuel is \<open>None\<close>.
\<close>

section \<open>Configuration\<close>

record ReaderConfig =
  OnOperation :: bool  \<comment> \<open>whether a callback is set\<close>
  RBrokers :: "bytes list"
  RTopic :: bytes
  DLQTopic :: bytes
  GroupID :: bytes
  BatchSize :: int
  AttemptTimeout :: int
  RetryWindow :: int
  BackoffMin :: int
  BackoffMax :: int

definition readerDefaults :: "ReaderConfig \<Rightarrow> ReaderConfig" where
  [go_defs]: "readerDefaults c =
     (let c = (if BatchSize c = 0 then c\<lparr>BatchSize := 500\<rparr> else c);
          c = (if AttemptTimeout c = 0 then c\<lparr>AttemptTimeout := 5 * second\<rparr> else c);
          c = (if RetryWindow c = 0 then c\<lparr>RetryWindow := 15 * second\<rparr> else c);
          c = (if BackoffMin c = 0 then c\<lparr>BackoffMin := 100 * millisecond\<rparr> else c)
      in if BackoffMax c = 0 then c\<lparr>BackoffMax := 2 * second\<rparr> else c)"

definition valid_reader :: "ReaderConfig \<Rightarrow> bool" where
  "valid_reader c \<longleftrightarrow>
     \<not> (RBrokers c = [] \<or> RTopic c = [] \<or> DLQTopic c = [] \<or> GroupID c = [] \<or>
        BatchSize c < 1 \<or> BatchSize c > 500 \<or> AttemptTimeout c \<le> 0 \<or> RetryWindow c \<le> 0 \<or>
        RetryWindow c > 15 * second \<or> BackoffMin c \<le> 0 \<or> BackoffMax c < BackoffMin c)"

text \<open>\<open>store_nil\<close> is \<^verbatim>\<open>s == nil\<close>; the two error arguments are those of the two Kafka clients.\<close>

definition NewReader ::
  "ReaderConfig \<Rightarrow> bool \<Rightarrow> bytes option \<Rightarrow> bytes option \<Rightarrow> Metrics option \<Rightarrow>
   Metrics option \<times> (bytes + ReaderConfig \<times> Publisher)"
where
  [go_defs]: "NewReader c store_nil client_err pub_err m =
     (let c = readerDefaults c in
      if store_nil \<or> \<not> valid_reader c then (m, Inl ''invalid reader configuration'')
      else case client_err of
             Some e \<Rightarrow> (m, Inl e)
           | None \<Rightarrow>
               (case NewPublisher \<lparr>Brokers = RBrokers c, PTopic = DLQTopic c, MaxBufferedBytes = 0,
                                   MaxBufferedRecords = 0, PublishTimeout = 0\<rparr> pub_err m of
                  (m', Inl e) \<Rightarrow> (m', Inl e)
                | (m', Inr p) \<Rightarrow> (m', Inr (c, p))))"

section \<open>The environment\<close>

type_synonym offsets = "bytes \<times> int \<Rightarrow> int option"

record fetch_partition =
  fp_records :: "krecord list"
  fp_err :: "infra_error option"

record reader_env =
  re_uuid :: uuid_pkg
  re_store :: "nat \<Rightarrow> table \<Rightarrow> Envelope list \<Rightarrow> table \<times> (infra_error + WriteResult)"
  re_commit :: "nat \<Rightarrow> offsets \<Rightarrow> krecord list \<Rightarrow> offsets \<times> infra_error option"
  re_quarantine :: "ctx \<Rightarrow> krecord \<Rightarrow> event_error \<Rightarrow> world \<Rightarrow> world \<times> msg_error option"
  re_poll :: "nat \<Rightarrow> durable \<Rightarrow> fetch_partition list"
  re_done :: "nat \<Rightarrow> int \<Rightarrow> int option \<Rightarrow> int"
    \<comment> \<open>when a call returns that starts at a time, with the end of its context if it has one\<close>
  re_tie :: "nat \<Rightarrow> bool"  \<comment> \<open>whether the window wins against a timer at the same instant\<close>

definition notify :: "ReaderConfig \<Rightarrow> bytes \<Rightarrow> krecord \<Rightarrow> msg_error option \<Rightarrow> world \<Rightarrow> world" where
  [go_defs]: "notify c kind rec err w =
     (if OnOperation c
      then w\<lparr>w_ops := w_ops w @ [\<lparr>Kind = kind, OpTopic = Topic rec, OpPartition = Partition rec,
                                 OpOffset = Offset rec, OpErr = err\<rparr>]\<rparr>
      else w)"

section \<open>Persisting\<close>

definition next_backoff :: "ReaderConfig \<Rightarrow> int \<Rightarrow> int" where
  "next_backoff c backoff =
     (if backoff < BackoffMax c then min (backoff * 2) (BackoffMax c) else backoff)"

definition write_attempt ::
  "reader_env \<Rightarrow> ReaderConfig \<Rightarrow> int \<times> ctx_error \<Rightarrow> Envelope list \<Rightarrow> krecord \<Rightarrow> world \<Rightarrow>
   world \<times> (infra_error + WriteResult)"
where
  "write_attempt env c window events source w =
     (let n = w_calls w; dt = fst (deadline (Some window) (w_now w) (AttemptTimeout c));
          (t, res) = re_store env n (d_table w) events;
          w = w\<lparr>d_table := t, w_now := re_done env n (w_now w) (Some dt), w_calls := Suc n\<rparr>;
          w = w\<lparr>w_trace := w_trace w @ [durable.truncate w]\<rparr>
      in (notify c ''storage'' source (case res of Inl e \<Rightarrow> Some (MInfra e) | Inr _ \<Rightarrow> None) w, res))"

fun persist_loop ::
  "reader_env \<Rightarrow> ReaderConfig \<Rightarrow> nat \<Rightarrow> ctx \<Rightarrow> int \<times> ctx_error \<Rightarrow> int \<Rightarrow> Envelope list \<Rightarrow> krecord \<Rightarrow>
   world \<Rightarrow> (world \<times> msg_error option) option"
where
  "persist_loop env c 0 ctx window backoff events source w = None"
| "persist_loop env c (Suc fuel) ctx window backoff events source w =
     (case ctx_err ctx (w_now w) of
        Some e \<Rightarrow> Some (w, Some (MCtx e))
      | None \<Rightarrow>
          (case write_attempt env c window events source w of
             (w1, Inr res) \<Rightarrow>
               Some (measure_with (ObserveWrite res (map ReceivedAt events) (w_now w1 - w_now w) (w_now w1)) w1,
                     None)
           | (w1, Inl err) \<Rightarrow>
               (case ctx_err ctx (w_now w1) of
                  Some e \<Rightarrow> Some (w1, Some (MCtx e))
                | None \<Rightarrow>
                    (let w2 = measure_with ObserveRetry w1;
                         timer = w_now w2 + backoff; over = max (w_now w2) (fst window)
                     in if over < timer \<or> (over = timer \<and> re_tie env (w_calls w2))
                        then Some (w2\<lparr>w_now := over\<rparr>, Some (ErrRetryExhausted err))
                        else persist_loop env c fuel ctx window (next_backoff c backoff) events source
                               (w2\<lparr>w_now := timer\<rparr>)))))"

text \<open>Each retry sleeps for at least \<^verbatim>\<open>BackoffMin\<close> inside the window, hence the fuel.\<close>

definition persist_fuel :: "ReaderConfig \<Rightarrow> nat" where
  "persist_fuel c = nat (RetryWindow c div BackoffMin c) + 1"

definition persist ::
  "reader_env \<Rightarrow> ReaderConfig \<Rightarrow> ctx \<Rightarrow> Envelope list \<Rightarrow> krecord \<Rightarrow> world \<Rightarrow> (world \<times> msg_error option) option"
where
  [go_defs]: "persist env c ctx events source w =
     persist_loop env c (persist_fuel c) ctx (deadline ctx (w_now w) (RetryWindow c)) (BackoffMin c)
       events source w"

section \<open>Processing a partition\<close>

definition commit_records ::
  "reader_env \<Rightarrow> ReaderConfig \<Rightarrow> ctx \<Rightarrow> krecord list \<Rightarrow> world \<Rightarrow> world \<times> infra_error option"
where
  \<comment> \<open>the commit under its own timeout, and the notification of progress\<close>
  "commit_records env c ctx rs w =
     (let n = w_calls w; dt = fst (deadline ctx (w_now w) (AttemptTimeout c));
          (cm, err) = re_commit env n (d_committed w) rs;
          w = w\<lparr>d_committed := cm, w_now := re_done env n (w_now w) (Some dt), w_calls := Suc n\<rparr>;
          w = w\<lparr>w_trace := w_trace w @ [durable.truncate w]\<rparr>
      in (notify c ''progress'' (last rs) (map_option MInfra err) w, err))"

definition flush ::
  "reader_env \<Rightarrow> ReaderConfig \<Rightarrow> ctx \<Rightarrow> Envelope list \<Rightarrow> krecord list \<Rightarrow> world \<Rightarrow> (world \<times> msg_error option) option"
where
  [go_defs]: "flush env c ctx valid source w =
     (if source = [] then Some (w, None)
      else case persist env c ctx valid (hd source) w of
             None \<Rightarrow> None
           | Some (w1, Some e) \<Rightarrow> Some (w1, Some e)
           | Some (w1, None) \<Rightarrow>
               (case commit_records env c ctx source w1 of
                  (w2, err) \<Rightarrow> Some (w2, map_option MCommitProgress err)))"

definition value_of :: "krecord \<Rightarrow> bytes" where
  "value_of r = (case RValue r of None \<Rightarrow> [] | Some v \<Rightarrow> v)"

definition quarantine_one ::
  "reader_env \<Rightarrow> ReaderConfig \<Rightarrow> ctx \<Rightarrow> krecord \<Rightarrow> event_error \<Rightarrow> world \<Rightarrow> world \<times> msg_error option"
where
  "quarantine_one env c ctx rec cause w =
     (case re_quarantine env ctx rec cause w of
        (w1, Some e) \<Rightarrow> (notify c ''quarantine'' rec (Some e) w1, Some e)
      | (w1, None) \<Rightarrow>
          (case commit_records env c ctx [rec] (notify c ''quarantine'' rec None w1) of
             (w2, err) \<Rightarrow> (w2, map_option MInfra err)))"

fun process_records ::
  "reader_env \<Rightarrow> ReaderConfig \<Rightarrow> ctx \<Rightarrow> krecord list \<Rightarrow> Envelope list \<Rightarrow> krecord list \<Rightarrow> world \<Rightarrow>
   (world \<times> msg_error option) option"
where
  "process_records env c ctx [] valid source w = flush env c ctx valid source w"
| "process_records env c ctx (rec # recs) valid source w =
     (case ctx_err ctx (w_now w) of
        Some e \<Rightarrow> Some (w, Some (MCtx e))
      | None \<Rightarrow>
          (case DecodeEnvelope (re_uuid env) (value_of rec) of
             Inl cause \<Rightarrow>
               (case flush env c ctx valid source w of
                  None \<Rightarrow> None
                | Some (w1, Some e) \<Rightarrow> Some (w1, Some e)
                | Some (w1, None) \<Rightarrow>
                    (case quarantine_one env c ctx rec cause w1 of
                       (w2, Some e) \<Rightarrow> Some (w2, Some e)
                     | (w2, None) \<Rightarrow> process_records env c ctx recs [] [] w2))
           | Inr e \<Rightarrow>
               if int (length (valid @ [e])) \<ge> BatchSize c then
                 (case flush env c ctx (valid @ [e]) (source @ [rec]) w of
                    None \<Rightarrow> None
                  | Some (w1, Some err) \<Rightarrow> Some (w1, Some err)
                  | Some (w1, None) \<Rightarrow> process_records env c ctx recs [] [] w1)
               else process_records env c ctx recs (valid @ [e]) (source @ [rec]) w))"

definition processPartition ::
  "reader_env \<Rightarrow> ReaderConfig \<Rightarrow> ctx \<Rightarrow> krecord list \<Rightarrow> world \<Rightarrow> (world \<times> msg_error option) option"
where
  [go_defs]: "processPartition env c ctx records w = process_records env c ctx records [] [] w"

section \<open>Fetching\<close>

fun each_partition ::
  "reader_env \<Rightarrow> ReaderConfig \<Rightarrow> ctx \<Rightarrow> fetch_partition list \<Rightarrow> world \<Rightarrow> (world \<times> msg_error option) option"
where
  "each_partition env c cycle [] w = Some (w, None)"
| "each_partition env c cycle (p # ps) w =
     (if fp_records p = [] then each_partition env c cycle ps w
      else case processPartition env c cycle (fp_records p) w of
             None \<Rightarrow> None
           | Some (w1, Some e) \<Rightarrow> Some (w1, Some e)
           | Some (w1, None) \<Rightarrow> each_partition env c cycle ps w1)"

fun fetch_error :: "bool \<Rightarrow> bool \<Rightarrow> infra_error list \<Rightarrow> msg_error option" where
  "fetch_error ignore alive [] = None"
| "fetch_error ignore alive (e # es) =
     (if ignore \<and> e = InfraCanceled \<and> alive then fetch_error ignore alive es
      else Some (MFetchFailure e))"

definition fetch_errors :: "fetch_partition list \<Rightarrow> infra_error list" where
  "fetch_errors f = List.map_filter fp_err f"

definition processFetched ::
  "reader_env \<Rightarrow> ReaderConfig \<Rightarrow> ctx \<Rightarrow> fetch_partition list \<Rightarrow> bool \<Rightarrow> world \<Rightarrow> (world \<times> msg_error option) option"
where
  [go_defs]: "processFetched env c ctx f ignorePollCancel w =
     (case each_partition env c (with_timeout ctx (w_now w) (RetryWindow c)) f w of
        None \<Rightarrow> None
      | Some (w1, Some e) \<Rightarrow> Some (w1, Some e)
      | Some (w1, None) \<Rightarrow>
          (case fetch_error ignorePollCancel (ctx_err ctx (w_now w1) = None) (fetch_errors f) of
             Some e \<Rightarrow> Some (w1, Some e)
           | None \<Rightarrow> Some (w1, map_option MCtx (ctx_err ctx (w_now w1)))))"

text \<open>\<open>stop_at\<close> is the time \<^verbatim>\<open>StopPolling\<close> closes the channel; later calls change nothing.\<close>

definition StopPolling :: "int \<Rightarrow> int option \<Rightarrow> int option" where
  [go_defs]: "StopPolling now stop_at = (case stop_at of None \<Rightarrow> Some now | Some t \<Rightarrow> Some t)"

definition stopping :: "int option \<Rightarrow> world \<Rightarrow> bool" where
  [go_defs]: "stopping stop_at w = (case stop_at of None \<Rightarrow> False | Some t \<Rightarrow> t \<le> w_now w)"

definition poll_end :: "ctx \<Rightarrow> int option \<Rightarrow> int option" where
  \<comment> \<open>when the polling context ends: with its parent or when polling is stopped\<close>
  "poll_end ctx stop_at =
     (case (ctx, stop_at) of
        (None, _) \<Rightarrow> stop_at | (Some (t, _), None) \<Rightarrow> Some t | (Some (t, _), Some s) \<Rightarrow> Some (min t s))"

fun run_loop ::
  "reader_env \<Rightarrow> ReaderConfig \<Rightarrow> nat \<Rightarrow> ctx \<Rightarrow> int option \<Rightarrow> world \<Rightarrow> world \<times> (msg_error option) option"
where
  \<comment> \<open>the second part is \<open>None\<close> while the loop still runs\<close>
  "run_loop env c 0 ctx stop_at w = (w, None)"
| "run_loop env c (Suc fuel) ctx stop_at w =
     (case ctx_err ctx (w_now w) of
        Some e \<Rightarrow> (w, Some (Some (MCtx e)))
      | None \<Rightarrow>
          if stopping stop_at w then (w, Some None)
          else
            (let n = w_calls w; f = re_poll env n (durable.truncate w);
                 w1 = w\<lparr>w_now := re_done env n (w_now w) (poll_end ctx stop_at), w_calls := Suc n\<rparr>
             in case processFetched env c ctx f (stopping stop_at w1) w1 of
                  None \<Rightarrow> (w1, None)
                | Some (w2, Some e) \<Rightarrow> (w2, Some (Some e))
                | Some (w2, None) \<Rightarrow>
                    if stopping stop_at w2 then (w2, Some None)
                    else run_loop env c fuel ctx stop_at w2))"

section \<open>Contracts of the environment\<close>

text \<open>
  \<^verbatim>\<open>CommitRecords\<close> stores, for every partition of its records, the offset after the highest of
  them; after an error the commit may or may not have happened.
\<close>

definition commit_to :: "offsets \<Rightarrow> krecord list \<Rightarrow> offsets" where
  "commit_to cm rs tp =
     (case filter (on_partition tp) rs of [] \<Rightarrow> cm tp
      | r # more_rs \<Rightarrow> Some (fold (\<lambda>q m. max m (Offset q)) more_rs (Offset r) + 1))"

definition commit_contract :: "(nat \<Rightarrow> offsets \<Rightarrow> krecord list \<Rightarrow> offsets \<times> infra_error option) \<Rightarrow> bool" where
  "commit_contract commit \<longleftrightarrow>
     (\<forall>n cm rs. case commit n cm rs of
        (cm', None) \<Rightarrow> cm' = commit_to cm rs
      | (cm', Some _) \<Rightarrow> cm' = cm \<or> cm' = commit_to cm rs)"

text \<open>Time does not run backwards, and a call with a context returns when that ends.\<close>

definition clock_contract :: "(nat \<Rightarrow> int \<Rightarrow> int option \<Rightarrow> int) \<Rightarrow> bool" where
  "clock_contract finish \<longleftrightarrow>
     (\<forall>n now dl. now \<le> finish n now dl \<and> (\<forall>t. dl = Some t \<longrightarrow> finish n now dl \<le> max now t))"

text \<open>
  A poll returns, per partition, records in offset order, and nothing between the committed
  offset and the last of them is left out; without a committed offset it starts at the first.
\<close>

definition fetch_contract :: "krecord set \<Rightarrow> (nat \<Rightarrow> durable \<Rightarrow> fetch_partition list) \<Rightarrow> bool" where
  "fetch_contract src poll \<longleftrightarrow>
     (\<forall>n d. \<forall>p \<in> set (poll n d). \<exists>tp. let rs = fp_records p in
        set rs \<subseteq> src \<and> (\<forall>r \<in> set rs. on_partition tp r) \<and> sorted_wrt (<) (map Offset rs) \<and>
        (\<forall>q \<in> src. \<forall>r \<in> set rs. on_partition tp q \<longrightarrow> Offset q \<le> Offset r \<longrightarrow>
           (\<exists>off. d_committed d tp = Some off \<and> Offset q < off) \<or> q \<in> set rs))"

section \<open>Persisting always ends\<close>

lemma notify_simps [simp]:
  "d_table (notify c k r e w) = d_table w" "d_log (notify c k r e w) = d_log w"
  "d_committed (notify c k r e w) = d_committed w" "w_now (notify c k r e w) = w_now w"
  "w_calls (notify c k r e w) = w_calls w" "w_trace (notify c k r e w) = w_trace w"
  "w_metrics (notify c k r e w) = w_metrics w"
  by (simp_all add: notify_def)

lemma write_attempt_now:
  assumes "clock_contract (re_done env)" and "write_attempt env c window es src w = (w1, res)"
  shows "w_now w \<le> w_now w1" "w_now w1 \<le> max (w_now w) (fst window)"
proof -
  let ?dt = "fst (deadline (Some window) (w_now w) (AttemptTimeout c))"
  have "w_now w1 = re_done env (w_calls w) (w_now w) (Some ?dt)"
    using assms(2) by (auto simp: write_attempt_def Let_def split: prod.splits)
  moreover have "?dt \<le> fst window" by (auto simp: deadline_def split: prod.splits)
  ultimately show "w_now w \<le> w_now w1" "w_now w1 \<le> max (w_now w) (fst window)"
    using assms(1) unfolding clock_contract_def by (metis max.coboundedI2 max.mono order.refl order.trans)+
qed

lemma next_backoff_min: "0 < b0 \<Longrightarrow> b0 \<le> backoff \<Longrightarrow> b0 \<le> BackoffMax c \<Longrightarrow> b0 \<le> next_backoff c backoff"
  by (auto simp: next_backoff_def)

lemma persist_loop_total:
  assumes "clock_contract (re_done env)" and "0 < b0" "b0 \<le> BackoffMax c" "b0 \<le> backoff"
    and "fst window < w_now w + int fuel * b0" "0 < fuel"
  shows "\<exists>w' err. persist_loop env c fuel ctx window backoff es src w = Some (w', err) \<and>
           w_now w \<le> w_now w' \<and> w_now w' \<le> max (w_now w) (fst window)"
  using assms(4-6)
proof (induction fuel arbitrary: backoff w)
  case (Suc fuel)
  obtain w1 res where att: "write_attempt env c window es src w = (w1, res)" by fastforce
  note now1 = write_attempt_now [OF assms(1) att]
  show ?case
  proof (cases "ctx_err ctx (w_now w) = None \<and> (\<exists>err. res = Inl err) \<and> ctx_err ctx (w_now w1) = None")
    case False
    then show ?thesis using att now1 by (cases res) (auto split: option.splits)
  next
    case True
    then obtain err where res: "res = Inl err" by blast
    let ?w2 = "measure_with ObserveRetry w1"
    let ?timer = "w_now w1 + backoff" and ?over = "max (w_now w1) (fst window)"
    show ?thesis
    proof (cases "?over < ?timer \<or> (?over = ?timer \<and> re_tie env (w_calls w1))")
      case over: True
      then show ?thesis using True att res now1 by auto
    next
      case False
      then have "?timer \<le> fst window" using assms(2) Suc.prems(1) by auto
      moreover have "fst window < ?timer + int fuel * b0"
        using Suc.prems(1,2) now1(1) assms(2) by (simp add: algebra_simps)
      moreover from calculation have "0 < fuel" by (cases fuel) auto
      ultimately have "\<exists>w' err. persist_loop env c fuel ctx window (next_backoff c backoff) es src
            (?w2\<lparr>w_now := ?timer\<rparr>) = Some (w', err) \<and>
          ?timer \<le> w_now w' \<and> w_now w' \<le> max ?timer (fst window)"
        using Suc.IH [of "next_backoff c backoff" "?w2\<lparr>w_now := ?timer\<rparr>"] next_backoff_min [OF assms(2)]
          Suc.prems(1) assms(3) by auto
      then show ?thesis
        using True False att res now1 Suc.prems(1) assms(2) \<open>?timer \<le> fst window\<close>
        by (auto simp: Let_def)
    qed
  qed
qed simp

lemma valid_reader_backoff:
  "valid_reader c \<Longrightarrow> 0 < BackoffMin c \<and> BackoffMin c \<le> BackoffMax c \<and> 0 < RetryWindow c"
  by (auto simp: valid_reader_def)

lemma persist_total:
  assumes "clock_contract (re_done env)" and "valid_reader c"
  shows "\<exists>w' err. persist env c ctx es src w = Some (w', err) \<and> w_now w \<le> w_now w' \<and>
           w_now w' \<le> max (w_now w) (fst (deadline ctx (w_now w) (RetryWindow c)))"
proof -
  let ?b = "BackoffMin c"
  have b: "0 < ?b" "?b \<le> BackoffMax c" "0 < RetryWindow c" using valid_reader_backoff [OF assms(2)] by auto
  have "RetryWindow c < (RetryWindow c div ?b + 1) * ?b"
    using b(1) by (metis add.commute div_mult_mod_eq distrib_right mult_1 pos_mod_bound add_strict_left_mono)
  also have "\<dots> = int (persist_fuel c) * ?b"
    using b by (simp add: persist_fuel_def pos_imp_zdiv_nonneg_iff)
  finally have "fst (deadline ctx (w_now w) (RetryWindow c)) < w_now w + int (persist_fuel c) * ?b"
    using deadline_le [of ctx "w_now w" "RetryWindow c"] by linarith
  from persist_loop_total [OF assms(1) b(1,2) order.refl this] show ?thesis
    by (simp add: persist_def persist_fuel_def)
qed

lemma flush_total:
  assumes "clock_contract (re_done env)" and "valid_reader c"
  shows "\<exists>w' err. flush env c ctx valid source w = Some (w', err)"
proof -
  obtain w1 e where "persist env c ctx valid (hd source) w = Some (w1, e)"
    using persist_total [OF assms] by blast
  then show ?thesis by (auto simp: flush_def split: option.splits prod.splits)
qed

lemma process_records_total:
  assumes "clock_contract (re_done env)" and "valid_reader c"
  shows "\<exists>w' err. process_records env c ctx recs valid source w = Some (w', err)"
proof (induction recs arbitrary: valid source w)
  case Nil
  then show ?case using flush_total [OF assms] by simp
next
  case (Cons rec recs)
  show ?case
  proof (cases "DecodeEnvelope (re_uuid env) (value_of rec)")
    case (Inl cause)
    obtain w1 e1 where "flush env c ctx valid source w = Some (w1, e1)"
      using flush_total [OF assms] by blast
    with Inl Cons.IH show ?thesis by (auto split: option.splits prod.splits)
  next
    case (Inr e)
    obtain w1 e1 where "flush env c ctx (valid @ [e]) (source @ [rec]) w = Some (w1, e1)"
      using flush_total [OF assms] by blast
    with Inr Cons.IH show ?thesis by (auto split: option.splits)
  qed
qed

lemma each_partition_total:
  assumes "clock_contract (re_done env)" and "valid_reader c"
  shows "\<exists>w' err. each_partition env c cycle f w = Some (w', err)"
proof (induction f arbitrary: w)
  case (Cons p ps)
  obtain w1 e1 where "process_records env c cycle (fp_records p) [] [] w = Some (w1, e1)"
    using process_records_total [OF assms] by blast
  with Cons.IH show ?case by (auto simp: processPartition_def split: option.splits)
qed simp

lemma processFetched_total:
  assumes "clock_contract (re_done env)" and "valid_reader c"
  shows "\<exists>w' err. processFetched env c ctx f ign w = Some (w', err)"
proof -
  obtain w1 e where "each_partition env c (with_timeout ctx (w_now w) (RetryWindow c)) f w = Some (w1, e)"
    using each_partition_total [OF assms] by blast
  then show ?thesis by (auto simp: processFetched_def split: option.splits)
qed

section \<open>Batches stay within their size\<close>

text \<open>A store that refuses every batch that is empty or larger than the configured size.\<close>

definition guarded_store ::
  "int \<Rightarrow> (nat \<Rightarrow> table \<Rightarrow> Envelope list \<Rightarrow> table \<times> (infra_error + WriteResult)) \<Rightarrow>
   nat \<Rightarrow> table \<Rightarrow> Envelope list \<Rightarrow> table \<times> (infra_error + WriteResult)"
where
  "guarded_store limit f n t es =
     (if es \<noteq> [] \<and> int (length es) \<le> limit then f n t es else (t, Inl (InfraOther ''refused'')))"

abbreviation guard :: "ReaderConfig \<Rightarrow> reader_env \<Rightarrow> reader_env" where
  "guard c env \<equiv> env\<lparr>re_store := guarded_store (BatchSize c) (re_store env)\<rparr>"

lemma write_attempt_guard:
  "es \<noteq> [] \<Longrightarrow> int (length es) \<le> BatchSize c \<Longrightarrow>
   write_attempt (guard c env) c window es src w = write_attempt env c window es src w"
  by (simp add: write_attempt_def guarded_store_def)

lemma persist_loop_guard:
  "es \<noteq> [] \<Longrightarrow> int (length es) \<le> BatchSize c \<Longrightarrow>
   persist_loop (guard c env) c fuel ctx window backoff es src w =
   persist_loop env c fuel ctx window backoff es src w"
proof (induction fuel arbitrary: backoff w)
  case (Suc fuel)
  obtain w1 res where "write_attempt env c window es src w = (w1, res)" by fastforce
  then show ?case
    using Suc by (cases res; cases "ctx_err ctx (w_now w1)")
      (simp_all add: write_attempt_guard Let_def cong: if_cong split: option.split)
qed simp

lemma commit_records_guard [simp]: "commit_records (env\<lparr>re_store := f\<rparr>) = commit_records env"
  by (intro ext) (simp add: commit_records_def)

lemma quarantine_one_guard [simp]: "quarantine_one (env\<lparr>re_store := f\<rparr>) = quarantine_one env"
  by (intro ext) (simp add: quarantine_one_def split: prod.split option.split)

lemma flush_guard:
  "length valid = length source \<Longrightarrow> int (length valid) \<le> BatchSize c \<Longrightarrow>
   flush (guard c env) c ctx valid source w = flush env c ctx valid source w"
proof (cases "source = []")
  case False
  moreover assume "length valid = length source" "int (length valid) \<le> BatchSize c"
  moreover from calculation have "valid \<noteq> []" by auto
  ultimately show ?thesis by (simp add: flush_def persist_def persist_loop_guard split: prod.split option.split)
qed (simp add: flush_def)

lemma process_records_guard:
  "length valid = length source \<Longrightarrow> int (length valid) < BatchSize c \<Longrightarrow>
   process_records (guard c env) c ctx recs valid source w = process_records env c ctx recs valid source w"
proof (induction recs arbitrary: valid source w)
  case Nil
  then show ?case by (simp add: flush_guard)
next
  case (Cons rec recs)
  from Cons.prems have "0 < BatchSize c" by linarith
  then have "process_records (guard c env) c ctx recs [] [] = process_records env c ctx recs [] []"
    using Cons.IH [of "[]" "[]"] by (intro ext) simp
  then show ?case
    using Cons.prems
    by (cases "DecodeEnvelope (re_uuid env) (value_of rec)"; cases "ctx_err ctx (w_now w)")
       (simp_all add: flush_guard Cons.IH cong: option.case_cong prod.case_cong)
qed

section \<open>The consumer's wiring\<close>

text \<open>The reader \<^verbatim>\<open>NewReader\<close> returns: the event store, the client's calls, the quarantine.\<close>

definition consumer_env ::
  "uuid_pkg \<Rightarrow> pg_exec \<Rightarrow> kgo_produce \<Rightarrow> Publisher \<Rightarrow>
   (nat \<Rightarrow> offsets \<Rightarrow> krecord list \<Rightarrow> offsets \<times> infra_error option) \<Rightarrow>
   (nat \<Rightarrow> durable \<Rightarrow> fetch_partition list) \<Rightarrow> (nat \<Rightarrow> int \<Rightarrow> int option \<Rightarrow> int) \<Rightarrow> (nat \<Rightarrow> bool) \<Rightarrow> reader_env"
where
  "consumer_env u exec produce p commit poll finish tie =
     \<lparr>re_uuid = u, re_store = WriteBatch u exec, re_commit = commit,
      re_quarantine = quarantine_Write produce p, re_poll = poll, re_done = finish, re_tie = tie\<rparr>"

lemma consumer_env_simps [simp]:
  "re_uuid (consumer_env u x k p cm po fi ti) = u"
  "re_store (consumer_env u x k p cm po fi ti) = WriteBatch u x"
  "re_commit (consumer_env u x k p cm po fi ti) = cm"
  "re_quarantine (consumer_env u x k p cm po fi ti) = quarantine_Write k p"
  "re_poll (consumer_env u x k p cm po fi ti) = po"
  "re_done (consumer_env u x k p cm po fi ti) = fi"
  "re_tie (consumer_env u x k p cm po fi ti) = ti"
  by (simp_all add: consumer_env_def)

definition default_config :: ReaderConfig where
  "default_config =
     \<lparr>OnOperation = True, RBrokers = [''broker:9092''], RTopic = ''events'', DLQTopic = ''dlq'',
      GroupID = ''ingestkit'', BatchSize = 0, AttemptTimeout = 0, RetryWindow = 0, BackoffMin = 0,
      BackoffMax = 0\<rparr>"

definition instant :: "nat \<Rightarrow> int \<Rightarrow> int option \<Rightarrow> int" where
  \<comment> \<open>calls that take no time\<close>
  "instant n now dl = now"

definition prompt_env :: "nat set \<Rightarrow> reader_env" where
  \<comment> \<open>a consumer whose database loses the answers of some calls\<close>
  "prompt_env lost =
     consumer_env uuid_canonical (pg_example uuid_canonical lost) (kgo_example {} {})
       \<lparr>topic = ''dlq'', timeout = 5 * second\<rparr> (\<lambda>n cm rs. (commit_to cm rs, None)) (\<lambda>n d. []) instant (\<lambda>n. True)"

lemma default_config_valid: "valid_reader (readerDefaults default_config)"
  by (simp add: valid_reader_def readerDefaults_def default_config_def second_def millisecond_def)

lemma instant_contract: "clock_contract instant"
  by (simp add: clock_contract_def instant_def)

section \<open>Properties\<close>

lemma persist_loop_calls:
  "persist_loop env c fuel ctx window backoff es src w = Some (w', err) \<Longrightarrow>
   w_calls w' \<le> w_calls w + fuel"
proof (induction fuel arbitrary: backoff w)
  case (Suc fuel)
  obtain w1 res where att: "write_attempt env c window es src w = (w1, res)" by fastforce
  then have "w_calls w1 = Suc (w_calls w)"
    by (auto simp: write_attempt_def Let_def split: prod.splits)
  with att Suc.prems show ?case
    by (auto simp: Let_def split: option.splits sum.splits if_splits dest!: Suc.IH)
qed simp

text \<open>
  C7. \<^verbatim>\<open>persist\<close> always returns for an accepted configuration, no matter how often the
  database fails: no later than the end of the retry window, and after at most
  RetryWindow / BackoffMin + 1 attempts (the backoff starts at BackoffMin and never shrinks).
\<close>

theorem persist_returns:
  assumes "clock_contract (re_done env)" and "valid_reader c"
  shows "\<exists>w' err. persist env c ctx events source w = Some (w', err) \<and>
           w_now w \<le> w_now w' \<and> w_now w' \<le> w_now w + RetryWindow c \<and>
           int (w_calls w' - w_calls w) \<le> RetryWindow c div BackoffMin c + 1"
proof -
  obtain w' err where run: "persist env c ctx events source w = Some (w', err)"
    and now: "w_now w \<le> w_now w'" "w_now w' \<le> max (w_now w) (fst (deadline ctx (w_now w) (RetryWindow c)))"
    using persist_total [OF assms] by blast
  have b: "0 < BackoffMin c" "0 < RetryWindow c" using valid_reader_backoff [OF assms(2)] by auto
  have "w_calls w' \<le> w_calls w + persist_fuel c"
    using run unfolding persist_def by (rule persist_loop_calls)
  moreover have "0 \<le> RetryWindow c div BackoffMin c"
    using b by (simp add: pos_imp_zdiv_nonneg_iff)
  ultimately have "int (w_calls w' - w_calls w) \<le> RetryWindow c div BackoffMin c + 1"
    unfolding persist_fuel_def by linarith
  moreover have "w_now w' \<le> w_now w + RetryWindow c"
    using now(2) b(2) deadline_le [of ctx "w_now w" "RetryWindow c"] by linarith
  ultimately show ?thesis using run now(1) by blast
qed

theorem persist_returns_witness:
  "\<exists>w' err. persist (prompt_env UNIV) (readerDefaults default_config) None [sample_event] poison quiet_world = Some (w', err) \<and>
     w_now w' \<le> w_now quiet_world + 15 * second \<and> int (w_calls w' - w_calls quiet_world) \<le> 151"
proof -
  have "clock_contract (re_done (prompt_env UNIV))" by (simp add: prompt_env_def instant_contract)
  moreover have "RetryWindow (readerDefaults default_config) = 15 * second"
    "RetryWindow (readerDefaults default_config) div BackoffMin (readerDefaults default_config) + 1 = 151"
    by (simp_all add: readerDefaults_def default_config_def second_def millisecond_def)
  ultimately show ?thesis
    using persist_returns [OF _ default_config_valid, of "prompt_env UNIV" None "[sample_event]" poison quiet_world]
    by auto
qed



text \<open>
  C32. A partition is written in batches of one to \<^verbatim>\<open>BatchSize\<close> events: a store that refused
  every other batch would give the same run.  An accepted configuration has at most 500, so a
  statement has at most 3000 parameters, within the 65535 PostgreSQL's protocol can carry.
\<close>

theorem processPartition_batch_bound:
  assumes "valid_reader c"
  shows "processPartition (env\<lparr>re_store := guarded_store (BatchSize c) (re_store env)\<rparr>) c ctx rs w =
           processPartition env c ctx rs w \<and>
         (\<forall>u es. int (length es) \<le> BatchSize c \<longrightarrow>
            length (sql_args (insert_stmt u es)) \<le> 3000)"
proof -
  have "0 < BatchSize c" "BatchSize c \<le> 500" using assms by (auto simp: valid_reader_def)
  then show ?thesis
    by (auto simp: processPartition_def process_records_guard insert_stmt_def length_args)
qed

theorem processPartition_batch_bound_witness:
  "processPartition ((prompt_env {})\<lparr>re_store := guarded_store 500 (re_store (prompt_env {}))\<rparr>)
     (readerDefaults default_config) None [poison] quiet_world =
   processPartition (prompt_env {}) (readerDefaults default_config) None [poison] quiet_world"
  using processPartition_batch_bound [OF default_config_valid, of "prompt_env {}" None "[poison]" quiet_world]
  by (simp add: readerDefaults_def default_config_def)

end
