(* ===== verification/Reader_Safety.thy ===== *)
theory Reader_Safety
  imports Reader
begin

text \<open>
  What the reader guarantees over a crash at any moment: the locale \<open>reader\<close> joins the contracts
  of its store and its quarantine, its lemmas follow the loop of \<^verbatim>\<open>processPartition\<close>, and the
  interpretation \<open>ingest\<close> instantiates them with \<^verbatim>\<open>EventStore.WriteBatch\<close> and
  \<^verbatim>\<open>Quarantine.Write\<close>.
\<close>

section \<open>Handled records and safe states\<close>

text \<open>
  A record is handled in a durable state when its event has a row or, when it does not decode,
  when the dead letter topic keeps it (\<open>kept\<close>).  A state is safe when every record of the topic
  before a committed offset is handled, and that offset is the one after some record: then a
  restart from the committed offsets loses nothing.  Every row is the event of a record of the
  topic (\<open>genuine\<close>): nothing is stored that was not published.
\<close>

definition carries :: "uuid_pkg \<Rightarrow> krecord set \<Rightarrow> Envelope \<Rightarrow> bool" where
  "carries u src e \<longleftrightarrow> (\<exists>r \<in> src. DecodeEnvelope u (value_of r) = Inr e)"

definition genuine :: "uuid_pkg \<Rightarrow> krecord set \<Rightarrow> table \<Rightarrow> bool" where
  "genuine u src t \<longleftrightarrow> (\<forall>k e. t k = Some e \<longrightarrow> key_of e = k \<and> carries u src e)"

definition handled ::
  "uuid_pkg \<Rightarrow> (krecord list \<Rightarrow> krecord \<Rightarrow> bool) \<Rightarrow> 'a durable_scheme \<Rightarrow> krecord \<Rightarrow> bool"
where
  "handled u kept d r =
     (case DecodeEnvelope u (value_of r) of
        Inr e \<Rightarrow> key_of e \<in> dom (d_table d) | Inl _ \<Rightarrow> kept (d_log d) r)"

definition safe ::
  "uuid_pkg \<Rightarrow> (krecord list \<Rightarrow> krecord \<Rightarrow> bool) \<Rightarrow> krecord set \<Rightarrow> 'a durable_scheme \<Rightarrow> bool"
where
  "safe u kept src d \<longleftrightarrow>
     (\<forall>r \<in> src. \<forall>off. d_committed d (Topic r, Partition r) = Some off \<longrightarrow> Offset r < off \<longrightarrow> handled u kept d r) \<and>
     (\<forall>tp off. d_committed d tp = Some off \<longrightarrow> (\<exists>r \<in> src. on_partition tp r \<and> off = Offset r + 1)) \<and>
     genuine u src (d_table d)"

definition grows :: "'a durable_scheme \<Rightarrow> 'b durable_scheme \<Rightarrow> bool" where
  "grows d d' \<longleftrightarrow> d_table d \<subseteq>\<^sub>m d_table d' \<and> (\<exists>app. d_log d' = d_log d @ app)"

lemma grows_refl [simp]: "grows d d"
  by (simp add: grows_def)

lemma grows_trans [trans]: "grows a b \<Longrightarrow> grows b c \<Longrightarrow> grows a c"
  by (auto simp: grows_def intro: map_le_trans)

lemma truncate_simps [simp]:
  "d_table (durable.truncate w) = d_table w" "d_log (durable.truncate w) = d_log w"
  "d_committed (durable.truncate w) = d_committed w"
  by (simp_all add: durable.truncate_def)

lemma handled_truncate [simp]: "handled u kept (durable.truncate w) r = handled u kept w r"
  by (simp add: handled_def split: sum.splits)

lemma safe_truncate [simp]: "safe u kept src (durable.truncate w) = safe u kept src w"
  by (simp add: safe_def)

definition good ::
  "uuid_pkg \<Rightarrow> (krecord list \<Rightarrow> krecord \<Rightarrow> bool) \<Rightarrow> krecord set \<Rightarrow> durable \<Rightarrow> world \<Rightarrow> bool"
where
  \<comment> \<open>safe and nothing lost since \<open>d0\<close>, now and at every point of the history\<close>
  "good u kept src d0 w \<longleftrightarrow>
     safe u kept src w \<and> grows d0 w \<and> (\<forall>d \<in> set (w_trace w). safe u kept src d \<and> grows d0 d)"

definition advances :: "bytes \<times> int \<Rightarrow> world \<Rightarrow> world \<Rightarrow> bool" where
  \<comment> \<open>data only grows, and only one partition is committed\<close>
  "advances tp w w' \<longleftrightarrow>
     grows w w' \<and> (\<forall>tp'. tp' \<noteq> tp \<longrightarrow> d_committed w' tp' = d_committed w tp')"

lemma advances_refl [simp]: "advances tp w w"
  by (simp add: advances_def)

lemma advances_trans [trans]: "advances tp a b \<Longrightarrow> advances tp b c \<Longrightarrow> advances tp a c"
  by (auto simp: advances_def intro: grows_trans)

text \<open>The records of a partition a reader has in hand, against all records of the topic.\<close>

definition covers ::
  "uuid_pkg \<Rightarrow> (krecord list \<Rightarrow> krecord \<Rightarrow> bool) \<Rightarrow> krecord set \<Rightarrow> bytes \<times> int \<Rightarrow> krecord list \<Rightarrow>
   'a durable_scheme \<Rightarrow> bool"
where
  "covers u kept src tp rs d \<longleftrightarrow>
     set rs \<subseteq> src \<and> (\<forall>r \<in> set rs. on_partition tp r) \<and> sorted_wrt (<) (map Offset rs) \<and>
     (\<forall>q \<in> src. \<forall>r \<in> set rs. on_partition tp q \<longrightarrow> Offset q \<le> Offset r \<longrightarrow>
        handled u kept d q \<or> q \<in> set rs)"

lemma fold_max_last:
  "sorted_wrt (<) (m # map Offset rs) \<Longrightarrow> fold (\<lambda>q m. max m (Offset q)) rs m = last (m # map Offset rs)"
  by (induction rs arbitrary: m) (auto simp: max_def)

lemma commit_to_last:
  assumes "rs \<noteq> []" "\<forall>r \<in> set rs. on_partition tp r" "sorted_wrt (<) (map Offset rs)"
  shows "commit_to cm rs = cm(tp \<mapsto> Offset (last rs) + 1)"
proof
  fix tp'
  have "filter (on_partition tp') rs = (if tp' = tp then rs else [])"
    using assms(2) by (auto simp: on_partition_def filter_id_conv filter_empty_conv)
  moreover obtain r qs where "rs = r # qs" using assms(1) by (cases rs) auto
  moreover from this have "fold (\<lambda>q m. max m (Offset q)) qs (Offset r) = Offset (last rs)"
    using fold_max_last [of "Offset r" qs] assms(3) by (auto simp: last_map)
  ultimately show "commit_to cm rs tp' = (cm(tp \<mapsto> Offset (last rs) + 1)) tp'"
    by (simp add: commit_to_def)
qed

definition covered ::
  "uuid_pkg \<Rightarrow> (krecord list \<Rightarrow> krecord \<Rightarrow> bool) \<Rightarrow> krecord set \<Rightarrow> fetch_partition list \<Rightarrow>
   'a durable_scheme \<Rightarrow> bool"
where
  "covered u kept src f d \<longleftrightarrow> (\<forall>p \<in> set f. \<exists>tp. covers u kept src tp (fp_records p) d)"

lemma fetch_covered:
  assumes "fetch_contract src poll" and "safe u kept src d" and "d_committed d = d_committed d'"
  shows "covered u kept src (poll n d') d"
  unfolding covered_def
proof
  fix p assume "p \<in> set (poll n d')"
  with assms(1) obtain tp where tp: "set (fp_records p) \<subseteq> src" "\<forall>r \<in> set (fp_records p). on_partition tp r"
    "sorted_wrt (<) (map Offset (fp_records p))"
    "\<forall>q \<in> src. \<forall>r \<in> set (fp_records p). on_partition tp q \<longrightarrow> Offset q \<le> Offset r \<longrightarrow>
       (\<exists>off. d_committed d' tp = Some off \<and> Offset q < off) \<or> q \<in> set (fp_records p)"
    unfolding fetch_contract_def Let_def by blast
  have "handled u kept d q" if "q \<in> src" "on_partition tp q" "d_committed d' tp = Some off" "Offset q < off" for q off
    using assms(2,3) that unfolding safe_def on_partition_def by auto
  with tp have "covers u kept src tp (fp_records p) d" unfolding covers_def by blast
  then show "\<exists>tp. covers u kept src tp (fp_records p) d" ..
qed

section \<open>Crash safety of the reader\<close>

locale reader =
  batch_store store_ok put + record_sink sink_ok quarantine kept
  for store_ok :: "'e \<Rightarrow> bool"
    and put :: "'e \<Rightarrow> nat \<Rightarrow> table \<Rightarrow> Envelope list \<Rightarrow> table \<times> (infra_error + WriteResult)"
    and sink_ok :: "'q \<Rightarrow> bool"
    and quarantine :: "'q \<Rightarrow> ctx \<Rightarrow> krecord \<Rightarrow> event_error \<Rightarrow> world \<Rightarrow> world \<times> msg_error option"
    and kept :: "'q \<Rightarrow> krecord list \<Rightarrow> krecord \<Rightarrow> bool"
begin

definition lawful :: "reader_env \<Rightarrow> 'e \<Rightarrow> 'q \<Rightarrow> bool" where
  "lawful env s q \<longleftrightarrow>
     store_ok s \<and> sink_ok q \<and> re_store env = put s \<and> re_quarantine env = quarantine q \<and>
     commit_contract (re_commit env)"

lemma handled_grows: "grows d d' \<Longrightarrow> handled u (kept q) d r \<Longrightarrow> handled u (kept q) d' r"
  by (auto simp: handled_def grows_def kept_append split: sum.splits dest: map_le_implies_dom_le)

lemma safe_grows:
  "safe u (kept q) src d \<Longrightarrow> grows d d' \<Longrightarrow> d_committed d' = d_committed d \<Longrightarrow>
   genuine u src (d_table d') \<Longrightarrow> safe u (kept q) src d'"
  by (auto simp: safe_def intro: handled_grows)

lemma covers_grows: "covers u (kept q) src tp rs d \<Longrightarrow> grows d d' \<Longrightarrow> covers u (kept q) src tp rs d'"
  unfolding covers_def using handled_grows by blast

lemma write_attempt_safe:
  assumes "lawful env s q" and "write_attempt env c window es rec w = (w1, res)"
    and "good u (kept q) src d0 w" and "\<forall>e \<in> set es. carries u src e"
  shows "good u (kept q) src d0 w1 \<and> grows w w1 \<and> d_committed w1 = d_committed w \<and>
         ((\<exists>r. res = Inr r) \<longrightarrow> key_of ` set es \<subseteq> dom (d_table w1))"
proof -
  obtain t where put: "put s (w_calls w) (d_table w) es = (t, res)" and w1: "d_table w1 = t"
      "d_log w1 = d_log w" "d_committed w1 = d_committed w"
    and trace: "w_trace w1 = w_trace w @ [\<lparr>d_table = t, d_log = d_log w, d_committed = d_committed w\<rparr>]"
    using assms(1,2)
    by (auto simp: write_attempt_def lawful_def Let_def durable.truncate_def split: prod.splits)
  have ok: "store_ok s" using assms(1) by (simp add: lawful_def)
  have "grows w w1" using put_keeps [OF ok put] w1 by (simp add: grows_def)
  moreover have "genuine u src (d_table w1)"
    using assms(3,4) put_origin [OF ok put] w1(1) unfolding good_def safe_def genuine_def by metis
  moreover from calculation have "safe u (kept q) src w1"
    using assms(3) safe_grows w1(3) unfolding good_def by blast
  moreover from this have "safe u (kept q) src \<lparr>d_table = t, d_log = d_log w, d_committed = d_committed w\<rparr>"
    using w1 by (simp add: safe_def handled_def cong: sum.case_cong)
  moreover have "key_of ` set es \<subseteq> dom (d_table w1)" if "res = Inr r" for r
    using put put_stores [OF ok] w1(1) that by blast
  moreover have "grows d0 w1" using assms(3) \<open>grows w w1\<close> by (auto simp: good_def intro: grows_trans)
  moreover from this have "grows d0 \<lparr>d_table = t, d_log = d_log w, d_committed = d_committed w\<rparr>"
    using w1 by (simp add: grows_def)
  ultimately show ?thesis
    using assms(3) trace w1(3) by (simp add: good_def) blast
qed

lemma good_measure [simp]: "good u k src d0 (measure_with f w) = good u k src d0 w"
  by (simp add: good_def safe_def handled_def grows_def cong: sum.case_cong)

lemma good_now [simp]: "good u k src d0 (w\<lparr>w_now := t\<rparr>) = good u k src d0 w"
  by (simp add: good_def safe_def handled_def grows_def cong: sum.case_cong)

lemma persist_loop_safe:
  assumes "lawful env s q" and "\<forall>e \<in> set es. carries u src e"
  shows "good u (kept q) src d0 w \<Longrightarrow>
         persist_loop env c fuel ctx window backoff es rec w = Some (w', err) \<Longrightarrow>
         good u (kept q) src d0 w' \<and> grows w w' \<and> d_committed w' = d_committed w \<and>
         (err = None \<longrightarrow> key_of ` set es \<subseteq> dom (d_table w'))"
proof (induction fuel arbitrary: backoff w)
  case (Suc fuel)
  obtain w1 res where att: "write_attempt env c window es rec w = (w1, res)" by fastforce
  note safe1 = write_attempt_safe [OF assms(1) att Suc.prems(1) assms(2)]
  show ?case
  proof (cases "ctx_err ctx (w_now w)")
    case (Some e)
    with Suc.prems show ?thesis by auto
  next
    case running: None
    show ?thesis
    proof (cases res)
      case (Inr r)
      with running att Suc.prems(2) have "err = None"
        "w' = measure_with (ObserveWrite r (map ReceivedAt es) (w_now w1 - w_now w) (w_now w1)) w1"
        by auto
      with safe1 Inr show ?thesis by (auto simp: grows_def)
    next
      case (Inl e)
      let ?w2 = "measure_with ObserveRetry w1"
      have grow: "grows w (?w2\<lparr>w_now := t\<rparr>)" for t using safe1 by (simp add: grows_def)
      from Inl running att Suc.prems(2) consider "w' = w1" "err \<noteq> None"
        | t where "w' = ?w2\<lparr>w_now := t\<rparr>" "err \<noteq> None"
        | "persist_loop env c fuel ctx window (next_backoff c backoff) es rec
             (?w2\<lparr>w_now := w_now ?w2 + backoff\<rparr>) = Some (w', err)"
        by (auto simp: Let_def split: option.splits if_splits)
      then show ?thesis
      proof cases
        case 3
        have "good u (kept q) src d0 (?w2\<lparr>w_now := w_now ?w2 + backoff\<rparr>)" using safe1 by simp
        from Suc.IH [OF this 3] show ?thesis
          using safe1 grows_trans [OF grow] by auto
      qed (use safe1 grow in auto)
    qed
  qed
qed simp

lemma persist_safe:
  assumes "lawful env s q" and "\<forall>e \<in> set es. carries u src e" and "good u (kept q) src d0 w"
    and "persist env c ctx es rec w = Some (w', err)"
  shows "good u (kept q) src d0 w' \<and> grows w w' \<and> d_committed w' = d_committed w \<and>
         (err = None \<longrightarrow> key_of ` set es \<subseteq> dom (d_table w'))"
  using persist_loop_safe [OF assms(1,2,3)] assms(4) unfolding persist_def by blast

lemma commit_records_safe:
  assumes "lawful env s q" and "good u (kept q) src d0 w"
    and "commit_records env c ctx rs w = (w', err)"
    and rs: "rs \<noteq> []" "\<forall>r \<in> set rs. on_partition tp r" "sorted_wrt (<) (map Offset rs)" "set rs \<subseteq> src"
    and below: "\<And>p. p \<in> src \<Longrightarrow> on_partition tp p \<Longrightarrow> Offset p \<le> Offset (last rs) \<Longrightarrow> handled u (kept q) w p"
  shows "good u (kept q) src d0 w' \<and> advances tp w w' \<and> d_table w' = d_table w \<and> d_log w' = d_log w \<and>
         (err = None \<longrightarrow> d_committed w' tp = Some (Offset (last rs) + 1))"
proof -
  obtain cm where cm: "re_commit env (w_calls w) (d_committed w) rs = (cm, err)"
    and w': "d_table w' = d_table w" "d_log w' = d_log w" "d_committed w' = cm"
      "w_trace w' = w_trace w @ [\<lparr>d_table = d_table w, d_log = d_log w, d_committed = cm\<rparr>]"
    using assms(3) by (auto simp: commit_records_def Let_def durable.truncate_def split: prod.splits)
  have "(cm = d_committed w \<and> err \<noteq> None) \<or> cm = commit_to (d_committed w) rs"
    using assms(1) cm unfolding lawful_def commit_contract_def
    by (smt (verit) case_prod_conv option.case_eq_if)
  then have cm': "(cm = d_committed w \<and> err \<noteq> None) \<or> cm = (d_committed w)(tp \<mapsto> Offset (last rs) + 1)"
    using commit_to_last [OF rs(1-3)] by auto
  have same: "handled u (kept q) w' p = handled u (kept q) w p" for p
    by (simp add: handled_def w' split: sum.splits)
  have anchor: "last rs \<in> src" "on_partition tp (last rs)" using rs by auto
  have "safe u (kept q) src w'"
    unfolding safe_def
  proof (intro conjI ballI allI impI)
    show "\<exists>r \<in> src. on_partition tp' r \<and> off = Offset r + 1" if "d_committed w' tp' = Some off" for tp' off
    proof (cases "d_committed w tp' = Some off")
      case True
      with assms(2) show ?thesis unfolding good_def safe_def by blast
    next
      case False
      with that w'(3) cm' have "tp' = tp" "off = Offset (last rs) + 1"
        by (auto simp: fun_upd_def split: if_splits)
      with anchor show ?thesis by blast
    qed
  next
    show "genuine u src (d_table w')" using assms(2) w'(1) by (simp add: good_def safe_def)
  next
    fix p off assume p: "p \<in> src" "d_committed w' (Topic p, Partition p) = Some off" "Offset p < off"
    show "handled u (kept q) w' p"
    proof (cases "on_partition tp p \<and> cm \<noteq> d_committed w")
      case True
      with p w' cm' have "Offset p \<le> Offset (last rs)" by (auto simp: on_partition_def)
      with True p(1) below same show ?thesis by blast
    next
      case False
      with p(2) w'(3) cm' have "d_committed w (Topic p, Partition p) = Some off"
        by (metis fun_upd_other on_partition_def)
      with p assms(2) same show ?thesis unfolding good_def safe_def by blast
    qed
  qed
  moreover from this have "safe u (kept q) src \<lparr>d_table = d_table w, d_log = d_log w, d_committed = cm\<rparr>"
    using w' by (simp add: safe_def handled_def cong: sum.case_cong)
  ultimately show ?thesis
    using assms(2) w' cm' by (auto simp: good_def advances_def grows_def)
qed

lemma covers_tail:
  assumes "covers u (kept q) src tp (xs @ ys) d" and "grows d d'"
    and "\<And>r. r \<in> set xs \<Longrightarrow> handled u (kept q) d' r"
  shows "covers u (kept q) src tp ys d'"
  using assms handled_grows unfolding covers_def
  by (auto simp: sorted_wrt_append) blast

lemma covers_below:
  assumes "covers u (kept q) src tp (xs @ ys) d" and "xs \<noteq> []" and "grows d d'"
    and "\<And>r. r \<in> set xs \<Longrightarrow> handled u (kept q) d' r"
    and "p \<in> src" "on_partition tp p" "Offset p \<le> Offset (last xs)"
  shows "handled u (kept q) d' p"
proof -
  have "last xs \<in> set (xs @ ys)" using assms(2) by simp
  then have "handled u (kept q) d p \<or> p \<in> set (xs @ ys)"
    using assms(1,5-7) unfolding covers_def by blast
  moreover have "p \<notin> set ys"
  proof
    assume "p \<in> set ys"
    moreover have "\<forall>x \<in> set (map Offset xs). \<forall>y \<in> set (map Offset ys). x < y"
      using assms(1) unfolding covers_def by (simp add: sorted_wrt_append)
    ultimately have "Offset (last xs) < Offset p" using assms(2) by simp
    with assms(7) show False by simp
  qed
  ultimately show ?thesis using handled_grows [OF assms(3)] assms(4) by auto
qed

definition decoded :: "uuid_pkg \<Rightarrow> krecord list \<Rightarrow> Envelope list \<Rightarrow> bool" where
  "decoded u source valid \<longleftrightarrow>
     list_all2 (\<lambda>r e. DecodeEnvelope u (value_of r) = Inr e) source valid"

lemma decoded_handled:
  "decoded u source valid \<Longrightarrow> key_of ` set valid \<subseteq> dom (d_table d) \<Longrightarrow> r \<in> set source \<Longrightarrow>
   handled u (kept q) d r"
  unfolding decoded_def handled_def
  by (induction source valid rule: list_all2_induct) auto

lemma decoded_carries: "decoded u source valid \<Longrightarrow> set source \<subseteq> src \<Longrightarrow> \<forall>e \<in> set valid. carries u src e"
  unfolding decoded_def carries_def
  by (induction source valid rule: list_all2_induct) auto

lemma flush_safe:
  assumes "lawful env s q" and "good u (kept q) src d0 w" and "decoded u source valid"
    and "covers u (kept q) src tp (source @ recs) w"
    and "flush env c ctx valid source w = Some (w', err)"
  shows "good u (kept q) src d0 w' \<and> advances tp w w' \<and>
         (err = None \<longrightarrow> (\<forall>r \<in> set source. handled u (kept q) w' r) \<and> covers u (kept q) src tp recs w' \<and>
            (source \<noteq> [] \<longrightarrow> d_committed w' tp = Some (Offset (last source) + 1)))"
proof (cases "source = []")
  case True
  with assms show ?thesis by (auto simp: flush_def)
next
  case False
  with assms(5) obtain w1 e1 where p: "persist env c ctx valid (hd source) w = Some (w1, e1)"
    by (auto simp: flush_def split: option.splits)
  have "set source \<subseteq> src" using assms(4) by (simp add: covers_def)
  note s1 = persist_safe [OF assms(1) decoded_carries [OF assms(3) this] assms(2) p]
  show ?thesis
  proof (cases e1)
    case (Some e)
    with s1 assms(5) False p show ?thesis by (auto simp: flush_def advances_def)
  next
    case None
    with s1 have stored: "key_of ` set valid \<subseteq> dom (d_table w1)" and g: "grows w w1" by auto
    obtain e2 where cr: "commit_records env c ctx source w1 = (w', e2)" "err = map_option MCommitProgress e2"
      using assms(5) False p None by (auto simp: flush_def split: prod.splits)
    have hd1: "handled u (kept q) w1 r" if "r \<in> set source" for r
      using decoded_handled [OF assms(3) stored that] .
    have "\<forall>r \<in> set source. on_partition tp r" "sorted_wrt (<) (map Offset source)" "set source \<subseteq> src"
      using assms(4) by (auto simp: covers_def sorted_wrt_append)
    from commit_records_safe [OF assms(1) _ cr(1) False this covers_below [OF assms(4) False g hd1]] s1
    have s2: "good u (kept q) src d0 w' \<and> advances tp w1 w' \<and> d_table w' = d_table w1 \<and> d_log w' = d_log w1 \<and>
        (e2 = None \<longrightarrow> d_committed w' tp = Some (Offset (last source) + 1))" by blast
    have "advances tp w w1" using s1 by (simp add: advances_def)
    with s2 have adv: "advances tp w w'" by (blast intro: advances_trans)
    have hd2: "handled u (kept q) w' r" if "r \<in> set source" for r
      using handled_grows [OF _ hd1 [OF that]] s2 by (auto simp: advances_def)
    have "covers u (kept q) src tp recs w'"
      using covers_tail [OF assms(4) _ hd2] adv by (simp add: advances_def)
    with s2 adv hd2 cr(2) show ?thesis by auto
  qed
qed

lemma appended_states_safe:
  "safe u (kept q) src w \<Longrightarrow> d \<in> set (appended_states w app) \<Longrightarrow> safe u (kept q) src d \<and> grows w d"
  by (rule conjI, rule safe_grows [of u q src w])
     (auto simp: appended_states_def grows_def safe_def simp del: upt_Suc)

lemma quarantine_one_safe:
  assumes "lawful env s q" and "good u (kept q) src d0 w"
    and "DecodeEnvelope u (value_of rec) = Inl cause"
    and "covers u (kept q) src tp (rec # recs) w"
    and "quarantine_one env c ctx rec cause w = (w', err)"
  shows "good u (kept q) src d0 w' \<and> advances tp w w' \<and>
         (err = None \<longrightarrow> handled u (kept q) w' rec \<and> covers u (kept q) src tp recs w' \<and>
            d_committed w' tp = Some (Offset rec + 1))"
proof -
  obtain w1 e1 where qr: "quarantine q ctx rec cause w = (w1, e1)" by fastforce
  from sink_frame [OF qr] have "grows w w1" and cm: "d_committed w1 = d_committed w"
    by (auto simp: grows_def)
  have "safe u (kept q) src d \<and> grows d0 d" if "d \<in> set (w_trace w1)" for d
    using that assms(2) sink_frame [OF qr] appended_states_safe grows_trans [of d0 w d]
    unfolding good_def by auto
  moreover have "genuine u src (d_table w1)"
    using assms(2) sink_frame [OF qr] by (simp add: good_def safe_def)
  ultimately have s1: "good u (kept q) src d0 w1"
    using assms(2) safe_grows [OF _ \<open>grows w w1\<close> cm] grows_trans [OF _ \<open>grows w w1\<close>]
    unfolding good_def by blast
  have adv1: "advances tp w w1" using \<open>grows w w1\<close> cm by (simp add: advances_def)
  have env: "re_quarantine env = quarantine q" "sink_ok q" using assms(1) by (auto simp: lawful_def)
  let ?n = "notify c ''quarantine'' rec e1 w1"
  have n: "good u (kept q) src d0 ?n" "advances tp w ?n" "grows w ?n"
    using s1 adv1 by (simp_all add: good_def safe_def handled_def advances_def grows_def cong: sum.case_cong)
  show ?thesis
  proof (cases e1)
    case (Some e)
    with assms(5) qr env n show ?thesis by (auto simp: quarantine_one_def)
  next
    case None
    have h1: "handled u (kept q) ?n r" if "r \<in> set [rec]" for r
      using that sink_keeps [OF env(2)] qr None assms(3) by (auto simp: handled_def)
    obtain e2 where cr: "commit_records env c ctx [rec] ?n = (w', e2)" "err = map_option MInfra e2"
      using assms(5) qr env(1) None by (auto simp: quarantine_one_def split: prod.splits)
    have cov: "covers u (kept q) src tp ([rec] @ recs) w" using assms(4) by simp
    have "\<forall>r \<in> set [rec]. on_partition tp r" "sorted_wrt (<) (map Offset [rec])" "set [rec] \<subseteq> src"
      using assms(4) by (simp_all add: covers_def)
    from commit_records_safe [OF assms(1) n(1) cr(1) _ this covers_below [OF cov _ n(3) h1]]
    have s2: "good u (kept q) src d0 w' \<and> advances tp ?n w' \<and> d_table w' = d_table ?n \<and> d_log w' = d_log ?n \<and>
        (e2 = None \<longrightarrow> d_committed w' tp = Some (Offset rec + 1))" by simp
    with n(2) have adv: "advances tp w w'" by (blast intro: advances_trans)
    have h2: "handled u (kept q) w' r" if "r \<in> set [rec]" for r
      using handled_grows [OF _ h1 [OF that]] s2 by (auto simp: advances_def)
    have "covers u (kept q) src tp recs w'"
      using covers_tail [OF cov _ h2] adv by (simp add: advances_def)
    with s2 adv h2 cr(2) show ?thesis by auto
  qed
qed

definition partition_done where
  "partition_done u q src d0 tp rs w w' err \<longleftrightarrow>
     good u (kept q) src d0 w' \<and> advances tp w w' \<and>
     (err = None \<longrightarrow> (\<forall>r \<in> set rs. handled u (kept q) w' r) \<and>
        (rs \<noteq> [] \<longrightarrow> d_committed w' tp = Some (Offset (last rs) + 1)))"

lemma partition_done_trans:
  assumes "advances tp w w1" and "\<And>r. r \<in> set xs \<Longrightarrow> handled u (kept q) w1 r"
    and "xs \<noteq> [] \<Longrightarrow> d_committed w1 tp = Some (Offset (last xs) + 1)"
    and "ys = [] \<Longrightarrow> err = None \<Longrightarrow> d_committed w' tp = d_committed w1 tp"
    and "partition_done u q src d0 tp ys w1 w' err"
  shows "partition_done u q src d0 tp (xs @ ys) w w' err"
  using assms handled_grows [of w1 w'] unfolding partition_done_def
  by (cases "ys = []") (auto simp: advances_def intro: grows_trans)

text \<open>One round of the loop, given that the rest of the records is processed safely.\<close>

lemma quarantine_round:
  assumes "lawful env s q" and "good u (kept q) src d0 w" and "decoded u source valid"
    and "covers u (kept q) src tp (source @ rec # recs) w"
    and bad: "DecodeEnvelope u (value_of rec) = Inl cause"
    and f: "flush env c ctx valid source w = Some (w1, None)"
    and qo: "quarantine_one env c ctx rec cause w1 = (w2, None)"
    and rest: "good u (kept q) src d0 w2 \<Longrightarrow> covers u (kept q) src tp recs w2 \<Longrightarrow>
      partition_done u q src d0 tp recs w2 w' err \<and> (recs = [] \<longrightarrow> w' = w2)"
  shows "partition_done u q src d0 tp (source @ rec # recs) w w' err"
proof -
  note s1 = flush_safe [OF assms(1-4) f]
  then have "covers u (kept q) src tp (rec # recs) w1" "good u (kept q) src d0 w1" by auto
  note s2 = quarantine_one_safe [OF assms(1) this(2) bad this(1) qo]
  with rest have fin: "partition_done u q src d0 tp recs w2 w' err" "recs = [] \<longrightarrow> w' = w2" by auto
  from fin(1) have "partition_done u q src d0 tp ((source @ [rec]) @ recs) w w' err"
  proof (rule partition_done_trans [rotated 4])
    show "advances tp w w2" using s1 s2 by (blast intro: advances_trans)
    show "handled u (kept q) w2 r" if "r \<in> set (source @ [rec])" for r
      using that s1 s2 handled_grows [of w1 w2] by (auto simp: advances_def)
  qed (use s2 fin(2) in auto)
  then show ?thesis by simp
qed

lemma flush_round:
  assumes "lawful env s q" and "good u (kept q) src d0 w" and "decoded u source valid"
    and "covers u (kept q) src tp (source @ recs) w" and "source \<noteq> []"
    and f: "flush env c ctx valid source w = Some (w1, None)"
    and rest: "good u (kept q) src d0 w1 \<Longrightarrow> covers u (kept q) src tp recs w1 \<Longrightarrow>
      partition_done u q src d0 tp recs w1 w' err \<and> (recs = [] \<longrightarrow> w' = w1)"
  shows "partition_done u q src d0 tp (source @ recs) w w' err"
proof -
  note s1 = flush_safe [OF assms(1-4) f]
  with rest have "partition_done u q src d0 tp recs w1 w' err" "recs = [] \<longrightarrow> w' = w1" by auto
  then show ?thesis
    by (intro partition_done_trans [of tp w w1]) (use s1 in auto)
qed

lemma failed_round:
  assumes "lawful env s q" and "good u (kept q) src d0 w" and "decoded u source valid"
    and "covers u (kept q) src tp (source @ recs) w"
    and "flush env c ctx valid source w = Some (w', Some e)"
  shows "partition_done u q src d0 tp rs w w' (Some e)"
  using flush_safe [OF assms] by (simp add: partition_done_def)

lemma failed_quarantine:
  assumes "lawful env s q" and "good u (kept q) src d0 w" and "decoded u source valid"
    and "covers u (kept q) src tp (source @ rec # recs) w"
    and bad: "DecodeEnvelope u (value_of rec) = Inl cause"
    and f: "flush env c ctx valid source w = Some (w1, None)"
    and qo: "quarantine_one env c ctx rec cause w1 = (w', Some e)"
  shows "partition_done u q src d0 tp rs w w' (Some e)"
proof -
  from flush_safe [OF assms(1-4) f] have "covers u (kept q) src tp (rec # recs) w1"
    "good u (kept q) src d0 w1" "advances tp w w1" by auto
  with quarantine_one_safe [OF assms(1) this(2) bad this(1) qo] show ?thesis
    by (auto simp: partition_done_def intro: advances_trans)
qed

lemma process_records_safe:
  assumes "lawful env s q" and "re_uuid env = u"
  shows "good u (kept q) src d0 w \<Longrightarrow> decoded u source valid \<Longrightarrow>
         covers u (kept q) src tp (source @ recs) w \<Longrightarrow>
         process_records env c ctx recs valid source w = Some (w', err) \<Longrightarrow>
         partition_done u q src d0 tp (source @ recs) w w' err"
proof (induction recs arbitrary: valid source w)
  case Nil
  from flush_safe [OF assms(1) Nil.prems(1-3)] Nil.prems(4) show ?case
    by (auto simp: partition_done_def)
next
  case (Cons rec recs)
  have rest: "partition_done u q src d0 tp recs w1 w' err \<and> (recs = [] \<longrightarrow> w' = w1)"
    if "process_records env c ctx recs [] [] w1 = Some (w', err)" "good u (kept q) src d0 w1"
      "covers u (kept q) src tp recs w1" for w1
    using Cons.IH [of w1 "[]" "[]"] that by (auto simp: decoded_def flush_def)
  show ?case
  proof (cases "ctx_err ctx (w_now w)")
    case (Some e)
    with Cons.prems show ?thesis by (auto simp: partition_done_def)
  next
    case running: None
    show ?thesis
    proof (cases "DecodeEnvelope u (value_of rec)")
      case (Inl cause)
      note round = quarantine_round [OF assms(1) Cons.prems(1-3) Inl _ _ rest]
        failed_round [OF assms(1) Cons.prems(1-3)] failed_quarantine [OF assms(1) Cons.prems(1-3) Inl]
      show ?thesis
        using Cons.prems(4) running Inl
        by (auto simp: assms(2) split: option.splits prod.splits intro: round)
    next
      case (Inr e)
      have dec: "decoded u (source @ [rec]) (valid @ [e])"
        using Cons.prems(2) Inr by (simp add: decoded_def list_all2_appendI)
      have cov: "covers u (kept q) src tp ((source @ [rec]) @ recs) w" using Cons.prems(3) by simp
      note round = Cons.IH [OF Cons.prems(1) dec cov] failed_round [OF assms(1) Cons.prems(1) dec cov]
        flush_round [OF assms(1) Cons.prems(1) dec cov _ _ rest]
      show ?thesis
        using Cons.prems(4) running Inr round
        by (auto simp: assms(2) split: option.splits if_splits)
    qed
  qed
qed

lemma each_partition_safe:
  assumes "lawful env s q" and "re_uuid env = u"
  shows "good u (kept q) src d0 w \<Longrightarrow> covered u (kept q) src f w \<Longrightarrow>
         each_partition env c cycle f w = Some (w', err) \<Longrightarrow>
         good u (kept q) src d0 w' \<and> grows w w' \<and>
         (err = None \<longrightarrow> (\<forall>p \<in> set f. \<forall>r \<in> set (fp_records p). handled u (kept q) w' r))"
proof (induction f arbitrary: w)
  case (Cons p ps)
  from Cons.prems(2) obtain tp where cov: "covers u (kept q) src tp ([] @ fp_records p) w"
    by (auto simp: covered_def)
  have later: "covered u (kept q) src ps w1" if "grows w w1" for w1
    using Cons.prems(2) covers_grows [OF _ that] unfolding covered_def by (meson list.set_intros(2))
  show ?case
  proof (cases "fp_records p = []")
    case True
    with Cons.IH [OF Cons.prems(1) later] Cons.prems(3) show ?thesis by simp
  next
    case False
    with Cons.prems(3) obtain w1 e1 where run:
      "process_records env c cycle (fp_records p) [] [] w = Some (w1, e1)"
      by (auto simp: processPartition_def split: option.splits)
    from process_records_safe [OF assms Cons.prems(1) _ cov run]
    have d1: "good u (kept q) src d0 w1" "grows w w1"
      "e1 = None \<Longrightarrow> \<forall>r \<in> set (fp_records p). handled u (kept q) w1 r"
      by (auto simp: decoded_def partition_done_def advances_def)
    show ?thesis
    proof (cases e1)
      case (Some e)
      with d1 False run Cons.prems(3) show ?thesis by (auto simp: processPartition_def)
    next
      case None
      with False run Cons.prems(3) have "each_partition env c cycle ps w1 = Some (w', err)"
        by (simp add: processPartition_def)
      note rest = Cons.IH [OF d1(1) later [OF d1(2)] this]
      with d1(2) have "grows w w'" by (blast intro: grows_trans)
      moreover have "handled u (kept q) w' r" if "r \<in> set (fp_records p)" for r
        using rest d1(3) None that handled_grows by blast
      ultimately show ?thesis using rest by auto
    qed
  qed
qed simp

lemma processFetched_safe:
  assumes "lawful env s q" and "re_uuid env = u" and "good u (kept q) src d0 w"
    and "covered u (kept q) src f w" and "processFetched env c ctx f ign w = Some (w', err)"
  shows "good u (kept q) src d0 w' \<and> grows w w' \<and>
         (err = None \<longrightarrow> (\<forall>p \<in> set f. \<forall>r \<in> set (fp_records p). handled u (kept q) w' r))"
proof -
  from assms(5) obtain e1 where
    "each_partition env c (with_timeout ctx (w_now w) (RetryWindow c)) f w = Some (w', e1)"
    and "err = None \<longrightarrow> e1 = None"
    by (auto simp: processFetched_def split: option.splits)
  with each_partition_safe [OF assms(1,2,3,4)] show ?thesis by blast
qed

lemma run_loop_safe:
  assumes "lawful env s q" and "re_uuid env = u" and "fetch_contract src (re_poll env)"
  shows "good u (kept q) src d0 w \<Longrightarrow> run_loop env c fuel ctx stop_at w = (w', res) \<Longrightarrow>
         good u (kept q) src d0 w' \<and> grows w w'"
proof (induction fuel arbitrary: w)
  case (Suc fuel)
  let ?f = "re_poll env (w_calls w) (durable.truncate w)"
  let ?w1 = "w\<lparr>w_now := re_done env (w_calls w) (w_now w) (poll_end ctx stop_at), w_calls := Suc (w_calls w)\<rparr>"
  have g1: "good u (kept q) src d0 ?w1" "grows w ?w1"
    using Suc.prems(1) by (simp_all add: good_def safe_def handled_def grows_def cong: sum.case_cong)
  have cov: "covered u (kept q) src ?f ?w1"
    using g1(1) by (intro fetch_covered [OF assms(3)]) (auto simp: good_def)
  note fetched = processFetched_safe [OF assms(1,2) g1(1) cov]
  from Suc.prems(2) consider "w' = w" | "w' = ?w1"
    | e where "processFetched env c ctx ?f (stopping stop_at ?w1) ?w1 = Some (w', e)"
    | w2 where "processFetched env c ctx ?f (stopping stop_at ?w1) ?w1 = Some (w2, None)"
        "run_loop env c fuel ctx stop_at w2 = (w', res)"
    by (auto simp: Let_def split: option.splits if_splits)
  then show ?case
  proof cases
    case 3
    with fetched [OF 3] g1(2) show ?thesis by (blast intro: grows_trans)
  next
    case 4
    with fetched [OF 4(1)] Suc.IH [OF _ 4(2)] g1(2) show ?thesis by (blast intro: grows_trans)
  qed (use Suc.prems g1 in auto)
qed simp

end

interpretation ingest: reader
  "\<lambda>(u, exec). pg_contract u exec" "\<lambda>(u, exec). WriteBatch u exec"
  "\<lambda>(produce, p). kgo_contract produce" "\<lambda>(produce, p). quarantine_Write produce p"
  "\<lambda>(produce, p). in_quarantine p"
  by unfold_locales

lemma consumer_lawful:
  "pg_contract u exec \<Longrightarrow> kgo_contract produce \<Longrightarrow> commit_contract commit \<Longrightarrow>
   ingest.lawful (consumer_env u exec produce p commit poll finish tie) (u, exec) (produce, p)"
  by (simp add: ingest.lawful_def)

lemma consumer_run_safe:
  assumes "pg_contract u exec" and "kgo_contract produce" and "commit_contract commit"
    and "fetch_contract src poll"
    and "safe u (in_quarantine p) src w" and "w_trace w = []"
    and "run_loop (consumer_env u exec produce p commit poll finish tie) c fuel ctx stop_at w = (w', res)"
  shows "\<forall>d \<in> set (w_trace w') \<union> {durable.truncate w'}.
    safe u (in_quarantine p) src d \<and> d_table w \<subseteq>\<^sub>m d_table d \<and> (\<exists>app. d_log d = d_log w @ app)"
proof -
  note lawful = consumer_lawful [OF assms(1-3), of p poll finish tie]
  have "good u (in_quarantine p) src (durable.truncate w) w" using assms(5,6) by (simp add: good_def grows_def)
  then have "good u (in_quarantine p) src (durable.truncate w) w'"
    using ingest.run_loop_safe [OF lawful, of u src "durable.truncate w" w c fuel ctx stop_at w' res] assms(4,7) by simp
  then show ?thesis by (auto simp: good_def grows_def)
qed

section \<open>Properties\<close>

text \<open>
  C3. Crash safety of one partition.  Given the contracts of PostgreSQL, the Kafka client and
  the offset commit, at every durable state a run of \<^verbatim>\<open>processPartition\<close> passes through, also
  in the middle of a failed write, quarantine or commit, no record before the committed offset is
  unhandled; so a crash and restart at any moment loses nothing.  When it returns nil, every
  record of the partition is handled and the committed offset is the one after the last.
\<close>

theorem processPartition_crash_safe:
  assumes "pg_contract u exec" and "kgo_contract produce" and "commit_contract commit"
    and "covers u (in_quarantine p) src tp rs w"
    and "safe u (in_quarantine p) src w" and "w_trace w = []"
    and "processPartition (consumer_env u exec produce p commit poll finish tie) c ctx rs w = Some (w', err)"
  shows "(\<forall>d \<in> set (w_trace w'). safe u (in_quarantine p) src d) \<and> safe u (in_quarantine p) src w' \<and>
         d_table w \<subseteq>\<^sub>m d_table w' \<and> (\<forall>tp'. tp' \<noteq> tp \<longrightarrow> d_committed w' tp' = d_committed w tp') \<and>
         (err = None \<longrightarrow> (\<forall>r \<in> set rs. handled u (in_quarantine p) w' r) \<and>
            (rs \<noteq> [] \<longrightarrow> d_committed w' tp = Some (Offset (last rs) + 1)))"
proof -
  note lawful = consumer_lawful [OF assms(1-3), of p poll finish tie]
  have "ingest.decoded u [] []" "good u (in_quarantine p) src (durable.truncate w) w"
    using assms(5,6) by (simp_all add: ingest.decoded_def good_def grows_def)
  then have "ingest.partition_done u (produce, p) src (durable.truncate w) tp rs w w' err"
    using ingest.process_records_safe [OF lawful, of u src "durable.truncate w" w "[]" "[]" tp rs c ctx w' err] assms(4,7)
    by (simp add: processPartition_def)
  then show ?thesis
    by (auto simp: ingest.partition_done_def good_def advances_def grows_def)
qed

definition sample_record :: krecord where
  "sample_record =
     \<lparr>Topic = ''events'', Partition = 2, Offset = 40, Key = None,
      RValue = (case EncodeEnvelope uuid_canonical sample_event of Inr b \<Rightarrow> Some b | Inl _ \<Rightarrow> None),
      Headers = None\<rparr>"

lemma commit_example_contract: "commit_contract (\<lambda>n cm rs. (commit_to cm rs, None))"
  by (simp add: commit_contract_def)

lemma sample_covers:
  "covers u k {sample_record, poison} (''events'', 2) [sample_record, poison] quiet_world \<and>
   safe u k {sample_record, poison} quiet_world \<and> w_trace quiet_world = []"
  by (simp add: covers_def safe_def genuine_def on_partition_def sample_record_def poison_def quiet_world_def)

theorem processPartition_crash_safe_witness:
  "\<exists>w' err. processPartition (prompt_env {0}) (readerDefaults default_config) None
       [sample_record, poison] quiet_world = Some (w', err) \<and>
     (\<forall>d \<in> set (w_trace w'). safe uuid_canonical (in_quarantine \<lparr>topic = ''dlq'', timeout = 5 * second\<rparr>)
        {sample_record, poison} d)"
proof -
  let ?p = "\<lparr>topic = ''dlq'', timeout = 5 * second\<rparr>"
  have "clock_contract (re_done (prompt_env {0}))" by (simp add: prompt_env_def instant_contract)
  from process_records_total [OF this default_config_valid]
  obtain w' err where run: "processPartition (prompt_env {0}) (readerDefaults default_config) None
      [sample_record, poison] quiet_world = Some (w', err)"
    unfolding processPartition_def by blast
  with processPartition_crash_safe [OF pg_canonical [of "{0}"] kgo_example_contract commit_example_contract
      sample_covers [THEN conjunct1] sample_covers [THEN conjunct2, THEN conjunct1]
      sample_covers [THEN conjunct2, THEN conjunct2] run [unfolded prompt_env_def]]
  show ?thesis by blast
qed


definition sample_poll :: "nat \<Rightarrow> durable \<Rightarrow> fetch_partition list" where
  \<comment> \<open>the first poll fetches two records, the others nothing\<close>
  "sample_poll n d = (if n = 0 then [\<lparr>fp_records = [sample_record, poison], fp_err = None\<rparr>] else [])"

lemma sample_poll_contract: "fetch_contract {sample_record, poison} sample_poll"
  by (auto simp: fetch_contract_def sample_poll_def on_partition_def sample_record_def poison_def
      intro!: exI [of _ "(''events'', 2)"])


end
