(* ===== verification/Middleware.thy ===== *)
theory Middleware
  imports Telemetry Complex_Main
begin

text \<open>
  Package \<^verbatim>\<open>internal/api/middleware\<close>: API keys, the rate limiter, request ids and the error
  response.  The web framework Fiber is not part of the sources; a request in flight is the
  record \<open>fctx\<close> of what the handlers read and set of it, and \<^verbatim>\<open>c.Next()\<close> is the handler given
  as an argument.  Tokens are rational numbers, the code's \<^verbatim>\<open>float64\<close> without its rounding.
\<close>

section \<open>Requests and responses\<close>

record ErrorResponse =
  er_error :: bytes
  er_message :: bytes
  er_request_id :: bytes  \<comment> \<open>omitted when empty\<close>
  er_timestamp :: int

datatype body =
    NoBody
  | JSONError ErrorResponse
  | JSONStatus bytes
  | JSONAccepted "bytes list" "bytes option"
  | MetricsPage

record fctx =
  c_method :: bytes
  c_path :: bytes
  c_header :: "bytes \<Rightarrow> bytes"  \<comment> \<open>\<^verbatim>\<open>c.Get\<close>: empty when absent\<close>
  c_body :: bytes
  l_request_id :: "bytes option"
  l_tenant_id :: "bytes option"
  l_metrics_observed :: bool
  c_err :: "int option"  \<comment> \<open>the code of the Fiber error the handlers returned\<close>
  r_status :: int
  r_headers :: "bytes \<Rightarrow> bytes option"
  r_body :: body

definition set_header :: "bytes \<Rightarrow> bytes \<Rightarrow> fctx \<Rightarrow> fctx" where
  "set_header k v c = c\<lparr>r_headers := (r_headers c)(k \<mapsto> v)\<rparr>"

section \<open>errors.go\<close>

definition SendError :: "int \<Rightarrow> bytes \<Rightarrow> bytes \<Rightarrow> int \<Rightarrow> fctx \<Rightarrow> fctx" where
  [go_defs]: "SendError status code message now c =
     c\<lparr>r_status := status,
       r_body := JSONError \<lparr>er_error = code, er_message = message,
         er_request_id = (case l_request_id c of None \<Rightarrow> [] | Some i \<Rightarrow> i), er_timestamp = now\<rparr>\<rparr>"

definition ErrCodeAuth :: bytes where "ErrCodeAuth = ''authentication_failed''"
definition ErrCodeRateLimit :: bytes where "ErrCodeRateLimit = ''rate_limit_exceeded''"

section \<open>auth.go\<close>

type_synonym APIKeyConfig = "bytes \<rightharpoonup> bytes"

definition NewAPIKeyConfig :: APIKeyConfig where
  "NewAPIKeyConfig = Map.empty"

definition AddKey :: "bytes \<Rightarrow> bytes \<Rightarrow> APIKeyConfig \<Rightarrow> APIKeyConfig" where
  [go_defs]: "AddKey apiKey tenantID keys = keys(apiKey \<mapsto> tenantID)"

definition ValidateKey :: "APIKeyConfig \<Rightarrow> bytes \<Rightarrow> bytes option" where
  [go_defs]: "ValidateKey keys apiKey = keys apiKey"

definition bearer_key :: "bytes \<Rightarrow> bytes" where
  "bearer_key authHeader =
     (if HasPrefix authHeader ''Bearer '' then TrimPrefix authHeader ''Bearer '' else authHeader)"

text \<open>The state \<open>'s\<close> is whatever the next handler works on.\<close>

definition APIKeyAuth ::
  "APIKeyConfig \<Rightarrow> int \<Rightarrow> (fctx \<Rightarrow> 's \<Rightarrow> fctx \<times> 's) \<Rightarrow> fctx \<Rightarrow> 's \<Rightarrow> fctx \<times> 's"
where
  [go_defs]: "APIKeyAuth keys now next c s =
     (let authHeader = c_header c ''Authorization'' in
      if authHeader = [] then (SendError 401 ErrCodeAuth ''missing authorization header'' now c, s)
      else case ValidateKey keys (bearer_key authHeader) of
             None \<Rightarrow> (SendError 401 ErrCodeAuth ''invalid API key'' now c, s)
           | Some tenantID \<Rightarrow> next (c\<lparr>l_tenant_id := Some tenantID\<rparr>) s)"

section \<open>requestid.go\<close>

definition unix_epoch :: int where
  \<comment> \<open>1970 on the clock that counts from year 1\<close>
  "unix_epoch = 62135596800 * 1000000000"

definition generateRequestID :: "int \<Rightarrow> bytes" where
  [go_defs]: "generateRequestID now = ''req_'' @ Itoa (now - unix_epoch)"

definition RequestID :: "int \<Rightarrow> fctx \<Rightarrow> fctx" where
  \<comment> \<open>up to its call of \<^verbatim>\<open>c.Next()\<close>\<close>
  [go_defs]: "RequestID now c =
     (let given = c_header c ''X-Request-ID'';
          requestID = (if given = [] then generateRequestID now else given)
      in set_header ''X-Request-ID'' requestID (c\<lparr>l_request_id := Some requestID\<rparr>))"

section \<open>ratelimit.go\<close>

record bucket =
  tokens :: rat
  lastUpdate :: int
  lastAccess :: int

record RateLimiter =
  limiters :: "bytes \<rightharpoonup> bucket"
  rps :: int
  bucketTTL :: int

definition NewRateLimiterWithTTL :: "int \<Rightarrow> int \<Rightarrow> RateLimiter" where
  [go_defs]: "NewRateLimiterWithTTL requestsPerSecond ttl =
     \<lparr>limiters = Map.empty, rps = requestsPerSecond, bucketTTL = ttl\<rparr>"

definition NewRateLimiter :: "int \<Rightarrow> RateLimiter" where
  [go_defs]: "NewRateLimiter requestsPerSecond = NewRateLimiterWithTTL requestsPerSecond (5 * 60 * second)"

definition duration :: "int \<Rightarrow> int" where
  \<comment> \<open>\<^verbatim>\<open>Sub\<close> saturates at the bounds of a 64-bit count of nanoseconds\<close>
  "duration d = max (- max_duration - 1) (min max_duration d)"

definition cleanup :: "int \<Rightarrow> RateLimiter \<Rightarrow> RateLimiter" where
  [go_defs]: "cleanup now rl =
     rl\<lparr>limiters := (\<lambda>tenantID. case limiters rl tenantID of
          None \<Rightarrow> None
        | Some b \<Rightarrow> if duration (now - lastAccess b) > bucketTTL rl then None else Some b)\<rparr>"

definition seconds :: "int \<Rightarrow> rat" where
  "seconds d = of_int d / 1000000000"

definition refill :: "int \<Rightarrow> int \<Rightarrow> bucket \<Rightarrow> rat" where
  \<comment> \<open>the tokens of a bucket at a time, capped\<close>
  "refill r now b =
     (let t = tokens b + seconds (duration (now - lastUpdate b)) * of_int r in
      if t > of_int r then of_int r else t)"

definition allow :: "int \<Rightarrow> bytes \<Rightarrow> RateLimiter \<Rightarrow> RateLimiter \<times> bool \<times> int \<times> int" where
  [go_defs]: "allow now tenantID rl =
     (let b = (case limiters rl tenantID of
                 Some b \<Rightarrow> b
               | None \<Rightarrow> \<lparr>tokens = of_int (rps rl), lastUpdate = now, lastAccess = now\<rparr>);
          t = refill (rps rl) now b;
          store = (\<lambda>t. rl\<lparr>limiters := (limiters rl)
                            (tenantID \<mapsto> \<lparr>tokens = t, lastUpdate = now, lastAccess = now\<rparr>)\<rparr>)
      in if t \<ge> 1 then (store (t - 1), True, rps rl, \<lfloor>t - 1\<rfloor>)
         else (store t, False, rps rl, 0))"

definition RateLimit ::
  "int \<Rightarrow> (fctx \<Rightarrow> 's \<times> RateLimiter \<Rightarrow> fctx \<times> 's \<times> RateLimiter) \<Rightarrow> fctx \<Rightarrow> 's \<times> RateLimiter \<Rightarrow>
   fctx \<times> 's \<times> RateLimiter"
where
  [go_defs]: "RateLimit now next c s =
     (case s of (x, rl) \<Rightarrow>
       (let tenantID = (case l_tenant_id c of Some t \<Rightarrow> t | None \<Rightarrow> ''default'');
            (rl', allowed, limit, remaining) = allow now tenantID rl;
            c = set_header ''X-RateLimit-Remaining'' (Itoa remaining)
                  (set_header ''X-RateLimit-Limit'' (Itoa limit) c)
        in if \<not> allowed
           then (SendError 429 ErrCodeRateLimit ''rate limit exceeded, please try again later'' now c, x, rl')
           else next c (x, rl')))"

section \<open>Facts about the rate limiter\<close>

text \<open>What requests and the cleanup goroutine do to a limiter, in the order they take its lock.\<close>

datatype rl_event = Request bytes int | Cleanup int

fun event_time :: "rl_event \<Rightarrow> int" where
  "event_time (Request _ t) = t"
| "event_time (Cleanup t) = t"

fun rl_run :: "rl_event list \<Rightarrow> RateLimiter \<Rightarrow> RateLimiter \<times> (bytes \<times> bool) list" where
  "rl_run [] rl = (rl, [])"
| "rl_run (Cleanup t # es) rl = rl_run es (cleanup t rl)"
| "rl_run (Request x t # es) rl =
     (case allow t x rl of (rl', ok, _, _) \<Rightarrow>
        (case rl_run es rl' of (rl'', ds) \<Rightarrow> (rl'', (x, ok) # ds)))"

definition admitted :: "bytes \<Rightarrow> (bytes \<times> bool) list \<Rightarrow> nat" where
  "admitted x ds = length (filter (\<lambda>d. d = (x, True)) ds)"

definition available :: "int \<Rightarrow> int \<Rightarrow> bucket option \<Rightarrow> rat" where
  "available r now b = (case b of None \<Rightarrow> of_int r | Some b \<Rightarrow> refill r now b)"

definition bucket_ok :: "int \<Rightarrow> int \<Rightarrow> bucket \<Rightarrow> bool" where
  "bucket_ok r now b \<longleftrightarrow>
     lastUpdate b = lastAccess b \<and> lastUpdate b \<le> now \<and> 0 \<le> tokens b \<and> tokens b \<le> of_int r"

definition limiter_ok :: "int \<Rightarrow> RateLimiter \<Rightarrow> bool" where
  "limiter_ok now rl \<longleftrightarrow>
     0 \<le> rps rl \<and> second \<le> bucketTTL rl \<and>
     (\<forall>x b. limiters rl x = Some b \<longrightarrow> bucket_ok (rps rl) now b)"

lemma duration_bounds: "0 \<le> d \<Longrightarrow> 0 \<le> duration d \<and> duration d \<le> d"
  by (auto simp: duration_def max_duration_def)

lemma duration_step: "d \<le> d' \<Longrightarrow> duration d \<le> duration d' \<and> duration d' - duration d \<le> d' - d"
  by (auto simp: duration_def max_duration_def max_def min_def)

lemma seconds_add: "seconds (a + b) = seconds a + seconds b"
  by (simp add: seconds_def add_divide_distrib)

lemma seconds_mono: "a \<le> b \<Longrightarrow> seconds a \<le> seconds b"
  by (simp add: seconds_def divide_right_mono)

lemma refill_bounds:
  "bucket_ok r now b \<Longrightarrow> 0 \<le> r \<Longrightarrow> 0 \<le> refill r now b \<and> refill r now b \<le> of_int r"
  using duration_bounds [of "now - lastUpdate b"]
  by (auto simp: refill_def bucket_ok_def Let_def seconds_def)

lemma refill_later:
  assumes "0 \<le> r" "t \<le> t'"
  shows "refill r t' b \<le> refill r t b + seconds (t' - t) * of_int r"
proof -
  let ?d = "duration (t - lastUpdate b)" and ?d' = "duration (t' - lastUpdate b)"
  have "seconds ?d' \<le> seconds (?d + (t' - t))"
    using duration_step [of "t - lastUpdate b" "t' - lastUpdate b"] assms(2) by (intro seconds_mono) linarith
  then have "seconds ?d' * of_int r \<le> (seconds ?d + seconds (t' - t)) * of_int r"
    using assms(1) by (intro mult_right_mono) (simp_all add: seconds_add)
  moreover have "0 \<le> seconds (t' - t) * of_int r"
    using assms by (simp add: seconds_def)
  ultimately show ?thesis by (auto simp: refill_def Let_def algebra_simps)
qed

lemma refill_full:
  assumes "bucket_ok r now b" "0 \<le> r" "second \<le> duration (now - lastUpdate b)"
  shows "refill r now b = of_int r"
proof -
  have "1 \<le> seconds (duration (now - lastUpdate b))"
    using seconds_mono [OF assms(3)] by (simp add: seconds_def second_def)
  then have "of_int r \<le> seconds (duration (now - lastUpdate b)) * of_int r"
    using assms(2) mult_right_mono [of 1 "seconds (duration (now - lastUpdate b))" "of_int r :: rat"] by simp
  then show ?thesis using assms(1) by (auto simp: refill_def bucket_ok_def Let_def)
qed

lemma available_later:
  "0 \<le> r \<Longrightarrow> t \<le> t' \<Longrightarrow> available r t' b \<le> available r t b + seconds (t' - t) * of_int r"
  using seconds_mono [of 0 "t' - t"]
  by (cases b) (simp_all add: available_def refill_later, simp add: seconds_def)

lemma bucket_ok_later: "bucket_ok r t b \<Longrightarrow> t \<le> t' \<Longrightarrow> bucket_ok r t' b"
  by (auto simp: bucket_ok_def)

lemma limiter_ok_later: "limiter_ok t rl \<Longrightarrow> t \<le> t' \<Longrightarrow> limiter_ok t' rl"
  by (auto simp: limiter_ok_def intro: bucket_ok_later)

lemma cleanup_ok:
  assumes "limiter_ok t rl"
  shows "limiter_ok t (cleanup t rl) \<and> rps (cleanup t rl) = rps rl \<and>
         available (rps rl) t (limiters (cleanup t rl) x) = available (rps rl) t (limiters rl x)"
proof -
  have "available (rps rl) t (limiters (cleanup t rl) x) = available (rps rl) t (limiters rl x)"
  proof (cases "limiters rl x")
    case (Some b)
    with assms have b: "bucket_ok (rps rl) t b" "0 \<le> rps rl" "second \<le> bucketTTL rl"
      by (auto simp: limiter_ok_def)
    then have "bucketTTL rl < duration (t - lastAccess b) \<Longrightarrow> refill (rps rl) t b = of_int (rps rl)"
      using refill_full [OF b(1,2)] by (simp add: bucket_ok_def)
    with Some show ?thesis by (simp add: available_def cleanup_def)
  qed (simp add: available_def cleanup_def)
  moreover have "limiter_ok t (cleanup t rl)"
    using assms by (auto simp: limiter_ok_def cleanup_def split: option.splits if_splits)
  ultimately show ?thesis by (simp add: cleanup_def)
qed

lemma allow_ok:
  assumes "limiter_ok t rl" and "allow t y rl = (rl', ok, cap, rem)"
  shows "limiter_ok t rl' \<and> rps rl' = rps rl \<and>
         of_nat (admitted x [(y, ok)]) + available (rps rl) t (limiters rl' x) =
           available (rps rl) t (limiters rl x) \<and>
         ok = (1 \<le> available (rps rl) t (limiters rl y)) \<and> 0 \<le> rem \<and> rem \<le> rps rl"
proof -
  let ?r = "rps rl" and ?a = "available (rps rl) t (limiters rl y)"
  have r: "0 \<le> ?r" using assms(1) by (simp add: limiter_ok_def)
  have zero: "duration 0 = 0" by (simp add: duration_def max_duration_def)
  have a: "?a = refill ?r t (case limiters rl y of Some b \<Rightarrow> b
        | None \<Rightarrow> \<lparr>tokens = of_int ?r, lastUpdate = t, lastAccess = t\<rparr>)"
    by (auto simp: available_def refill_def zero seconds_def split: option.splits)
  have bounds: "0 \<le> ?a \<and> ?a \<le> of_int ?r"
    using assms(1) refill_bounds r by (auto simp: limiter_ok_def available_def split: option.splits)
  have res: "ok = (1 \<le> ?a)" "rem = (if ok then \<lfloor>?a - 1\<rfloor> else 0)"
    "rl' = rl\<lparr>limiters := (limiters rl)(y \<mapsto> \<lparr>tokens = ?a - (if ok then 1 else 0),
        lastUpdate = t, lastAccess = t\<rparr>)\<rparr>"
    using assms(2) unfolding a by (auto simp: allow_def Let_def split: if_splits)
  have fresh: "refill ?r t \<lparr>tokens = v, lastUpdate = t, lastAccess = t\<rparr> = v" if "v \<le> of_int ?r" for v
    using that by (simp add: refill_def zero seconds_def)
  have "\<lfloor>?a\<rfloor> \<le> ?r" using bounds by (metis floor_mono floor_of_int)
  then have "rem \<le> ?r" using res(2) r by simp
  moreover have "0 \<le> rem" using res by auto
  moreover have "bucket_ok ?r t \<lparr>tokens = ?a - (if ok then 1 else 0), lastUpdate = t, lastAccess = t\<rparr>"
    using res(1) bounds by (simp add: bucket_ok_def)
  then have "limiter_ok t rl'"
    using assms(1) res(3) by (auto simp: limiter_ok_def)
  ultimately show ?thesis
    using res bounds by (auto simp: available_def admitted_def fresh)
qed

lemma rl_run_bound:
  assumes "limiter_ok t rl" and "sorted (t # map event_time es)" and "rl_run es rl = (rl', ds)"
  shows "of_nat (admitted x ds) \<le>
           available (rps rl) t (limiters rl x) + seconds (last (t # map event_time es) - t) * of_int (rps rl)"
  using assms
proof (induction es rl arbitrary: t ds rule: rl_run.induct)
  case (1 rl)
  moreover have "0 \<le> available (rps rl) t (limiters rl x)"
    using "1.prems"(1) refill_bounds by (auto simp: limiter_ok_def available_def split: option.splits)
  ultimately show ?case by (simp add: admitted_def seconds_def)
next
  case (2 t' es rl)
  then have later: "t \<le> t'" "limiter_ok t' rl" by (auto intro: limiter_ok_later)
  note c = cleanup_ok [OF later(2), of x]
  have "of_nat (admitted x ds) \<le> available (rps rl) t' (limiters rl x) +
      seconds (last (t' # map event_time es) - t') * of_int (rps rl)"
    using "2.IH" [of t' ds] "2.prems" c by simp
  also have "\<dots> \<le> available (rps rl) t (limiters rl x) +
      (seconds (t' - t) + seconds (last (t' # map event_time es) - t')) * of_int (rps rl)"
    using available_later [of "rps rl" t t'] later(1) "2.prems"(1)
    by (auto simp: limiter_ok_def algebra_simps)
  finally show ?case by (simp add: seconds_add [symmetric])
next
  case (3 y t' es rl)
  then have later: "t \<le> t'" "limiter_ok t' rl" by (auto intro: limiter_ok_later)
  obtain rl1 ok cap rem where al: "allow t' y rl = (rl1, ok, cap, rem)" by (metis prod_cases4)
  obtain ds1 where run: "rl_run es rl1 = (rl', ds1)" "ds = (y, ok) # ds1"
    using "3.prems"(3) al by (auto split: prod.splits)
  note a = allow_ok [OF later(2) al, of x]
  have "of_nat (admitted x ds) = of_nat (admitted x [(y, ok)]) + (of_nat (admitted x ds1) :: rat)"
    using run(2) by (simp add: admitted_def)
  also have "\<dots> \<le> available (rps rl) t' (limiters rl x) +
      seconds (last (t' # map event_time es) - t') * of_int (rps rl)"
    using "3.IH" [OF al [symmetric] refl refl _ _ run(1), of t'] "3.prems"(2) a by auto
  also have "\<dots> \<le> available (rps rl) t (limiters rl x) +
      (seconds (t' - t) + seconds (last (t' # map event_time es) - t')) * of_int (rps rl)"
    using available_later [of "rps rl" t t'] later(1) "3.prems"(1)
    by (auto simp: limiter_ok_def algebra_simps)
  finally show ?case by (simp add: seconds_add [symmetric])
qed

section \<open>Properties\<close>



text \<open>
  A single decision of the limiter: a request is admitted exactly when the tenant has a whole
  token at that time, an admitted request costs one token and a refused one none, other tenants
  keep their buckets, the remaining count told to the client is between 0 and \<^verbatim>\<open>rps\<close>, and the
  limiter stays well formed.
\<close>

theorem allow_decision:
  assumes "limiter_ok now rl" and "allow now tenant rl = (rl', ok, limit, remaining)"
  shows "limiter_ok now rl' \<and> limit = rps rl \<and> 0 \<le> remaining \<and> remaining \<le> rps rl \<and>
         ok = (1 \<le> available (rps rl) now (limiters rl tenant)) \<and>
         available (rps rl) now (limiters rl' tenant) =
           available (rps rl) now (limiters rl tenant) - (if ok then 1 else 0) \<and>
         (\<forall>other. other \<noteq> tenant \<longrightarrow> limiters rl' other = limiters rl other)"
proof -
  have "limit = rps rl" "\<forall>other. other \<noteq> tenant \<longrightarrow> limiters rl' other = limiters rl other"
    using assms(2) by (auto simp: allow_def Let_def split: if_splits)
  with allow_ok [OF assms, of tenant] show ?thesis by (auto simp: admitted_def)
qed

theorem allow_decision_witness:
  "\<exists>rl' ok limit remaining. allow 5 ''acme'' (NewRateLimiter 2) = (rl', ok, limit, remaining) \<and>
     limit = 2 \<and> remaining \<le> 2 \<and> limiter_ok 5 rl'"
proof -
  have "limiter_ok 5 (NewRateLimiter 2)" "rps (NewRateLimiter 2) = 2"
    by (simp_all add: limiter_ok_def NewRateLimiter_def NewRateLimiterWithTTL_def second_def)
  moreover obtain rl' ok limit remaining where
    "allow 5 ''acme'' (NewRateLimiter 2) = (rl', ok, limit, remaining)" by (metis prod_cases4)
  ultimately show ?thesis
    using allow_decision [of 5 "NewRateLimiter 2" "''acme''" rl' ok limit remaining] by auto
qed

end
