(* ===== verification/Api.thy ===== *)
theory Api
  imports Publisher Middleware
begin

text \<open>
  Package \<^verbatim>\<open>internal/api\<close>: the ingest handler, the configuration of the application and the
  chain a request takes through it.  Fiber's router is a parameter: \<open>endpoint\<close> is what it finds
  for a request.  The publisher is the function \<^verbatim>\<open>NewApp\<close> receives as an interface.
\<close>

section \<open>The ingest handler\<close>

type_synonym publish = "ctx \<Rightarrow> Envelope list \<Rightarrow> world \<Rightarrow> world \<times> msg_error option"

fun accept_all :: "Input list \<Rightarrow> bytes \<Rightarrow> go_time \<Rightarrow> Envelope list option" where
  "accept_all [] tenant received = Some []"
| "accept_all (i # is) tenant received =
     (case Accept i tenant received of
        Inl _ \<Rightarrow> None
      | Inr e \<Rightarrow> (case accept_all is tenant received of None \<Rightarrow> None | Some es \<Rightarrow> Some (e # es)))"

definition decode_request :: "uuid_pkg \<Rightarrow> bool \<Rightarrow> bytes \<Rightarrow> event_error + Input list" where
  "decode_request u batch raw =
     (if batch then DecodeBatch u raw
      else case DecodeInput u raw of Inl e \<Rightarrow> Inl e | Inr i \<Rightarrow> Inr [i])"

definition ingest :: "uuid_pkg \<Rightarrow> publish \<Rightarrow> int \<Rightarrow> bool \<Rightarrow> fctx \<Rightarrow> world \<Rightarrow> fctx \<times> world" where
  [go_defs]: "ingest u publish allowance batch c w =
     (case decode_request u batch (c_body c) of
        Inl err \<Rightarrow>
          (SendError (if IsTooLarge err then 413 else 400) ''validation_failed'' (error_text err) (w_now w) c, w)
      | Inr inputs \<Rightarrow>
          (case l_tenant_id c of
             None \<Rightarrow> (SendError 500 ''internal_error'' ''missing tenant identity'' (w_now w) c, w)
           | Some tenant \<Rightarrow>
               (case accept_all inputs tenant (clock_time (w_now w)) of
                  None \<Rightarrow> (SendError 400 ''validation_failed'' ''invalid event identity'' (w_now w) c, w)
                | Some events \<Rightarrow>
                    (case publish (with_timeout None (w_now w) allowance) events w of
                       (w', Some _) \<Rightarrow>
                         (SendError 503 ''unavailable'' ''delivery is uncertain; retry with the same event IDs''
                            (w_now w') c, w')
                     | (w', None) \<Rightarrow>
                         (c\<lparr>r_status := 202,
                            r_body := JSONAccepted (map (\<lambda>i. uuid_string u (EventID i)) inputs)
                              (l_request_id c)\<rparr>, w')))))"

section \<open>Configuration\<close>

record Config =
  APIKeys :: "(bytes \<times> bytes) list"  \<comment> \<open>the entries of the map\<close>
  RateLimitRPS :: int
  ApiPublishTimeout :: int

record app =
  app_keys :: APIKeyConfig
  app_timeout :: int

fun add_keys :: "(bytes \<times> bytes) list \<Rightarrow> APIKeyConfig \<Rightarrow> APIKeyConfig option" where
  "add_keys [] keys = Some keys"
| "add_keys ((key, tenant) # ks) keys =
     (if key = [] \<or> \<not> ValidTenant tenant then None else add_keys ks (AddKey key tenant keys))"

definition NewApp :: "Config \<Rightarrow> bool \<Rightarrow> bytes + app \<times> RateLimiter" where
  \<comment> \<open>the second argument is \<^verbatim>\<open>publisher == nil\<close>\<close>
  [go_defs]: "NewApp config no_publisher =
     (if APIKeys config = [] \<or> RateLimitRPS config \<le> 0 \<or> ApiPublishTimeout config \<le> 0 \<or> no_publisher
      then Inl ''invalid API configuration''
      else case add_keys (APIKeys config) NewAPIKeyConfig of
             None \<Rightarrow> Inl ''invalid API key mapping''
           | Some keys \<Rightarrow>
               Inr (\<lparr>app_keys = keys, app_timeout = ApiPublishTimeout config\<rparr>,
                    NewRateLimiter (RateLimitRPS config)))"

section \<open>The chain of handlers\<close>

datatype endpoint =
    EHealth | EReady | EMetrics
  | ESingle | EBatch
  | EProtected int  \<comment> \<open>below \<^verbatim>\<open>/v1\<close>, but no route: the group's handlers run, then the error\<close>
  | EMissing int

type_synonym app_state = "world \<times> RateLimiter"

definition ready :: "bytes option \<Rightarrow> int \<Rightarrow> fctx \<Rightarrow> fctx" where
  \<comment> \<open>the first argument is the answer of \<^verbatim>\<open>publisher.Ping\<close>\<close>
  [go_defs]: "ready ping now c =
     (if ping \<noteq> None then SendError 503 ''unavailable'' ''broker is not ready'' now c
      else c\<lparr>r_status := 200, r_body := JSONStatus ''ready''\<rparr>)"

definition protected ::
  "app \<Rightarrow> (fctx \<Rightarrow> world \<Rightarrow> fctx \<times> world) \<Rightarrow> fctx \<Rightarrow> app_state \<Rightarrow> fctx \<times> app_state"
where
  \<comment> \<open>the group \<^verbatim>\<open>/v1\<close>\<close>
  "protected a handler c s =
     (let now = w_now (fst s) in
      APIKeyAuth (app_keys a) now
        (RateLimit now (\<lambda>c (w, rl). case handler c w of (c', w') \<Rightarrow> (c', w', rl))) c s)"

definition dispatch ::
  "uuid_pkg \<Rightarrow> publish \<Rightarrow> bytes option \<Rightarrow> app \<Rightarrow> endpoint \<Rightarrow> fctx \<Rightarrow> app_state \<Rightarrow> fctx \<times> app_state"
where
  "dispatch u publish ping a e c s =
     (case e of
        EHealth \<Rightarrow> (c\<lparr>r_status := 200, r_body := JSONStatus ''alive''\<rparr>, s)
      | EReady \<Rightarrow> (ready ping (w_now (fst s)) c, s)
      | EMetrics \<Rightarrow> (c\<lparr>r_status := 200, r_body := MetricsPage\<rparr>, s)
      | ESingle \<Rightarrow> protected a (ingest u publish (app_timeout a) False) c s
      | EBatch \<Rightarrow> protected a (ingest u publish (app_timeout a) True) c s
      | EProtected code \<Rightarrow> protected a (\<lambda>c w. (c\<lparr>c_err := Some code\<rparr>, w)) c s
      | EMissing code \<Rightarrow> (c\<lparr>c_err := Some code\<rparr>, s))"

definition path_route :: "bytes \<Rightarrow> bytes" where
  "path_route path =
     (if path = ''/v1/events'' then ''single'' else if path = ''/v1/events/batch'' then ''batch''
      else if path = ''/ready'' then ''ready'' else if path = ''/health'' then ''health''
      else if path = ''/metrics'' then ''metrics'' else ''other'')"

definition observe_request :: "int \<Rightarrow> fctx \<times> app_state \<Rightarrow> fctx \<times> app_state" where
  \<comment> \<open>the metrics handler, after \<^verbatim>\<open>c.Next()\<close>\<close>
  "observe_request start = (\<lambda>(c, w, rl).
     let status = (case c_err c of None \<Rightarrow> r_status c | Some code \<Rightarrow> code) in
     (c\<lparr>l_metrics_observed := True\<rparr>,
      measure_with (ObserveHTTP (path_route (c_path c)) (Itoa status) (w_now w - start)) w, rl))"

definition ensureRequestID :: "bytes \<Rightarrow> fctx \<Rightarrow> fctx" where
  \<comment> \<open>the first argument is what \<^verbatim>\<open>uuid.NewString\<close> answers\<close>
  [go_defs]: "ensureRequestID new_id c =
     (let rid = (case l_request_id c of None \<Rightarrow> new_id | Some i \<Rightarrow> i)
      in set_header ''X-Request-ID'' rid (c\<lparr>l_request_id := Some rid\<rparr>))"

definition ErrorHandler :: "bytes \<Rightarrow> int \<Rightarrow> fctx \<times> app_state \<Rightarrow> fctx \<times> app_state" where
  [go_defs]: "ErrorHandler new_id status = (\<lambda>(c, w, rl).
     let c1 = ensureRequestID new_id c;
         w1 = (if \<not> l_metrics_observed c1
               then measure_with (ObserveHTTP ''other'' (Itoa status) 0) w else w)
     in (SendError status ''request_failed'' ''request could not be processed'' (w_now w1) c1, w1, rl))"

definition serve ::
  "uuid_pkg \<Rightarrow> publish \<Rightarrow> bytes option \<Rightarrow> bytes \<Rightarrow> app \<Rightarrow> endpoint \<Rightarrow> fctx \<Rightarrow> app_state \<Rightarrow> fctx \<times> app_state"
where
  [go_defs]: "serve u publish ping new_id a e c s =
     (let start = w_now (fst s);
          r = observe_request start (dispatch u publish ping a e (RequestID start c) s)
      in case c_err (fst r) of None \<Rightarrow> r | Some code \<Rightarrow> ErrorHandler new_id code r)"

text \<open>A request Fiber refuses before any handler, such as one over the body limit.\<close>

definition refuse :: "bytes \<Rightarrow> int \<Rightarrow> fctx \<Rightarrow> app_state \<Rightarrow> fctx \<times> app_state" where
  "refuse new_id code c s = ErrorHandler new_id code (c, s)"

section \<open>Facts about the handlers\<close>

lemma Accept_fields:
  "Accept i tenant received = Inr e \<Longrightarrow>
   validate i = None \<and> ValidTenant tenant \<and> Input.truncate e = i \<and> TenantID e = tenant \<and>
   ReceivedAt e = UTC received \<and> EventID e = EventID i"
  by (auto simp: Accept_def Input.defs split: option.splits if_splits)

lemma accept_all_Some:
  "accept_all is tenant received = Some es \<Longrightarrow>
   list_all2 (\<lambda>i e. Accept i tenant received = Inr e) is es"
  by (induction "is" arbitrary: es) (auto split: sum.splits option.splits)

lemma accept_all_None:
  "accept_all is tenant received = None \<Longrightarrow> \<exists>i \<in> set is. \<exists>err. Accept i tenant received = Inl err"
  by (induction "is") (auto split: sum.splits option.splits)

lemma decode_inputs_valid:
  "decode_inputs u bs = Inr is \<Longrightarrow> length is = length bs \<and> (\<forall>i \<in> set is. validate i = None)"
  by (induction bs arbitrary: "is") (auto simp: DecodeInput_def split: sum.splits option.splits)

lemma decode_request_valid:
  "decode_request u batch raw = Inr is \<Longrightarrow>
   1 \<le> length is \<and> length is \<le> 100 \<and> (\<forall>i \<in> set is. validate i = None)"
proof -
  assume dec: "decode_request u batch raw = Inr is"
  show ?thesis
  proof (cases batch)
    case True
    with dec obtain bs where "decode_inputs u bs = Inr is" "bs \<noteq> []" "int (length bs) \<le> MaxBatchEvents"
      by (auto simp: decode_request_def DecodeBatch_def split: sum.splits if_splits)
    with decode_inputs_valid [of u bs "is"] show ?thesis by (cases bs) (auto simp: MaxBatchEvents_def)
  next
    case False
    with dec show ?thesis by (auto simp: decode_request_def DecodeInput_def split: sum.splits option.splits)
  qed
qed

lemma SendError_simps [simp]:
  "r_status (SendError st code msg now c) = st" "l_request_id (SendError st code msg now c) = l_request_id c"
  "r_headers (SendError st code msg now c) = r_headers c" "c_err (SendError st code msg now c) = c_err c"
  "l_metrics_observed (SendError st code msg now c) = l_metrics_observed c"
  "c_path (SendError st code msg now c) = c_path c"
  by (simp_all add: SendError_def)

lemma set_header_simps [simp]:
  "r_status (set_header k v c) = r_status c" "l_request_id (set_header k v c) = l_request_id c"
  "r_headers (set_header k v c) = (r_headers c)(k \<mapsto> v)" "c_err (set_header k v c) = c_err c"
  "l_metrics_observed (set_header k v c) = l_metrics_observed c" "c_path (set_header k v c) = c_path c"
  "l_tenant_id (set_header k v c) = l_tenant_id c" "c_body (set_header k v c) = c_body c"
  "c_header (set_header k v c) = c_header c"
  by (simp_all add: set_header_def)

lemma ingest_cases:
  obtains (invalid) err where "decode_request u batch (c_body c) = Inl err"
      "ingest u publish lim_ns batch c w =
        (SendError (if IsTooLarge err then 413 else 400) ''validation_failed'' (error_text err) (w_now w) c, w)"
  | (no_tenant) "is" where "decode_request u batch (c_body c) = Inr is" "l_tenant_id c = None"
      "ingest u publish lim_ns batch c w = (SendError 500 ''internal_error'' ''missing tenant identity'' (w_now w) c, w)"
  | (identity) "is" tenant where "decode_request u batch (c_body c) = Inr is" "l_tenant_id c = Some tenant"
      "accept_all is tenant (clock_time (w_now w)) = None"
      "ingest u publish lim_ns batch c w = (SendError 400 ''validation_failed'' ''invalid event identity'' (w_now w) c, w)"
  | (uncertain) "is" tenant es w' err where "decode_request u batch (c_body c) = Inr is"
      "l_tenant_id c = Some tenant" "accept_all is tenant (clock_time (w_now w)) = Some es"
      "publish (with_timeout None (w_now w) lim_ns) es w = (w', Some err)"
      "ingest u publish lim_ns batch c w =
        (SendError 503 ''unavailable'' ''delivery is uncertain; retry with the same event IDs'' (w_now w') c, w')"
  | (accepted) "is" tenant es w' where "decode_request u batch (c_body c) = Inr is"
      "l_tenant_id c = Some tenant" "accept_all is tenant (clock_time (w_now w)) = Some es"
      "publish (with_timeout None (w_now w) lim_ns) es w = (w', None)"
      "ingest u publish lim_ns batch c w =
        (c\<lparr>r_status := 202, r_body := JSONAccepted (map (\<lambda>i. uuid_string u (EventID i)) is) (l_request_id c)\<rparr>, w')"
proof (cases "decode_request u batch (c_body c)")
  case (Inr "is")
  show ?thesis
  proof (cases "l_tenant_id c")
    case (Some tenant)
    show ?thesis
    proof (cases "accept_all is tenant (clock_time (w_now w))")
      case acc: (Some es)
      obtain w' err where "publish (with_timeout None (w_now w) lim_ns) es w = (w', err)" by fastforce
      with Inr Some acc show ?thesis
        by (cases err) (auto simp: ingest_def intro: uncertain accepted)
    qed (use Inr Some identity in \<open>simp add: ingest_def\<close>)
  qed (use Inr no_tenant in \<open>simp add: ingest_def\<close>)
qed (use invalid in \<open>simp add: ingest_def\<close>)

text \<open>What the handler may tell its client, for any publisher that keeps the interface's promise.\<close>

context event_publisher
begin

lemma ingest_accepted:
  assumes "promised env" and "ingest u (publish env) lim_ns batch c w = (c', w')"
    and "r_status c' = 202"
  shows "\<exists>is tenant es. decode_request u batch (c_body c) = Inr is \<and> l_tenant_id c = Some tenant \<and>
           list_all2 (\<lambda>i e. Accept i tenant (clock_time (w_now w)) = Inr e) is es \<and>
           (\<forall>e \<in> set es. delivered env (d_log w') e) \<and>
           r_body c' = JSONAccepted (map (\<lambda>i. uuid_string u (EventID i)) is) (l_request_id c)"
proof (cases rule: ingest_cases [where publish = "publish env" and u = u and batch = batch and c = c
      and w = w and lim_ns = lim_ns])
  case (accepted "is" tenant es w1)
  with assms(2) have "w' = w1"
    "r_body c' = JSONAccepted (map (\<lambda>i. uuid_string u (EventID i)) is) (l_request_id c)" by auto
  with accepted accept_all_Some publish_delivers [OF assms(1)] show ?thesis by blast
qed (use assms(2,3) in \<open>auto split: if_splits\<close>)

lemma ingest_refused:
  assumes "ingest u (publish env) lim_ns batch c w = (c', w')"
  shows "r_status c' \<in> {202, 400, 413, 500, 503} \<and> d_table w' = d_table w \<and>
         d_committed w' = d_committed w \<and> (r_status c' \<in> {400, 413, 500} \<longrightarrow> w' = w)"
  by (cases rule: ingest_cases [where publish = "publish env" and u = u and batch = batch and c = c
      and w = w and lim_ns = lim_ns]) (use assms in \<open>auto dest: publish_frame\<close>)

end

lemma add_keys_valid:
  "add_keys ks keys = Some keys' \<Longrightarrow> (\<And>k t. keys k = Some t \<Longrightarrow> k \<noteq> [] \<and> ValidTenant t) \<Longrightarrow>
   keys' k = Some t \<Longrightarrow> k \<noteq> [] \<and> ValidTenant t"
proof (induction ks arbitrary: keys)
  case (Cons kt ks)
  obtain k1 t1 where kt: "kt = (k1, t1)" by fastforce
  with Cons.prems(1) have ok: "k1 \<noteq> []" "ValidTenant t1" "add_keys ks (AddKey k1 t1 keys) = Some keys'"
    by (auto split: if_splits)
  show ?case
    by (rule Cons.IH [OF ok(3) _ Cons.prems(3)])
       (use ok(1,2) Cons.prems(2) in \<open>auto simp: AddKey_def split: if_splits\<close>)
qed auto

lemma NewApp_valid:
  assumes "NewApp config nopub = Inr (a, rl)"
  shows "(\<forall>k t. app_keys a k = Some t \<longrightarrow> k \<noteq> [] \<and> ValidTenant t) \<and> 0 < app_timeout a \<and>
         limiters rl = Map.empty \<and> 0 < rps rl \<and> limiter_ok now rl"
  using assms add_keys_valid [of "APIKeys config" NewAPIKeyConfig "app_keys a"]
  by (auto simp: NewApp_def NewAPIKeyConfig_def NewRateLimiter_def NewRateLimiterWithTTL_def
      limiter_ok_def second_def split: if_splits option.splits) metis

lemma accept_valid:
  "validate i = None \<Longrightarrow> ValidTenant tenant \<Longrightarrow> \<not> IsZero received \<Longrightarrow> \<exists>e. Accept i tenant received = Inr e"
  by (simp add: Accept_def)

text \<open>The group \<^verbatim>\<open>/v1\<close>: refused, limited, or the handler with the tenant of the key.\<close>

lemma protected_cases:
  obtains (unauthorised) msg where
      "c_header c ''Authorization'' = [] \<or> app_keys a (bearer_key (c_header c ''Authorization'')) = None"
      "protected a handler c (w, rl) = (SendError 401 ErrCodeAuth msg (w_now w) c, w, rl)"
  | (limited) tenant c1 rl' where
      "app_keys a (bearer_key (c_header c ''Authorization'')) = Some tenant"
      "protected a handler c (w, rl) = (SendError 429 ErrCodeRateLimit
         ''rate limit exceeded, please try again later'' (w_now w) c1, w, rl')"
      "l_request_id c1 = l_request_id c" "r_headers c1 ''X-Request-ID'' = r_headers c ''X-Request-ID''"
      "c_err c1 = c_err c" "c_path c1 = c_path c"
  | (handled) tenant c1 rl' where
      "app_keys a (bearer_key (c_header c ''Authorization'')) = Some tenant" "l_tenant_id c1 = Some tenant"
      "protected a handler c (w, rl) = (case handler c1 w of (c', w') \<Rightarrow> (c', w', rl'))"
      "c_body c1 = c_body c" "l_request_id c1 = l_request_id c"
      "r_headers c1 ''X-Request-ID'' = r_headers c ''X-Request-ID''" "c_err c1 = c_err c" "c_path c1 = c_path c"
proof (cases "c_header c ''Authorization'' = []")
  case False
  show ?thesis
  proof (cases "app_keys a (bearer_key (c_header c ''Authorization''))")
    case (Some tenant)
    obtain rl' ok cap rem where al: "allow (w_now w) tenant rl = (rl', ok, cap, rem)" by (metis prod_cases4)
    let ?c1 = "set_header ''X-RateLimit-Remaining'' (Itoa rem)
        (set_header ''X-RateLimit-Limit'' (Itoa cap) (c\<lparr>l_tenant_id := Some tenant\<rparr>))"
    have "protected a handler c (w, rl) =
        (if ok then (case handler ?c1 w of (c', w') \<Rightarrow> (c', w', rl'))
         else (SendError 429 ErrCodeRateLimit ''rate limit exceeded, please try again later'' (w_now w) ?c1, w, rl'))"
      using False Some al
      by (simp add: protected_def APIKeyAuth_def ValidateKey_def RateLimit_def Let_def)
    then show ?thesis
      using Some by (cases ok) (auto intro: limited [of tenant ?c1 rl'] handled [of tenant ?c1 rl'])
  next
    case None
    with False show ?thesis
      by (intro unauthorised [of "''invalid API key''"]) (auto simp: protected_def APIKeyAuth_def ValidateKey_def)
  qed
next
  case True
  then show ?thesis
    by (intro unauthorised [of "''missing authorization header''"]) (auto simp: protected_def APIKeyAuth_def)
qed

section \<open>What reaches the publisher\<close>

definition own_batch :: "bytes \<Rightarrow> Envelope list \<Rightarrow> bool" where
  "own_batch tenant es \<longleftrightarrow>
     1 \<le> length es \<and> length es \<le> 100 \<and> (\<forall>e \<in> set es. TenantID e = tenant \<and> validate e = None)"

definition guarded_publish :: "bytes \<Rightarrow> publish \<Rightarrow> publish" where
  \<comment> \<open>a publisher that refuses everything but batches of valid events of one tenant\<close>
  "guarded_publish tenant publish ctx es w =
     (if own_batch tenant es then publish ctx es w else (w, Some ErrSaturated))"

lemma validate_truncate: "validate (Input.truncate e) = validate e"
  by (simp add: validate_def Input.defs)

lemma accepted_own_batch:
  assumes "decode_request u batch raw = Inr is" and "accept_all is tenant received = Some es"
  shows "own_batch tenant es"
proof -
  have a: "list_all2 (\<lambda>i e. Accept i tenant received = Inr e) is es" using accept_all_Some [OF assms(2)] .
  have "TenantID e = tenant \<and> validate e = None" if "e \<in> set es" for e
  proof -
    from a that obtain i where "Accept i tenant received = Inr e"
      by (auto simp: list_all2_conv_all_nth in_set_conv_nth)
    from Accept_fields [OF this] show ?thesis by (metis validate_truncate)
  qed
  with decode_request_valid [OF assms(1)] list_all2_lengthD [OF a] show ?thesis
    by (auto simp: own_batch_def)
qed

lemma ingest_guard:
  "l_tenant_id c = Some tenant \<Longrightarrow>
   ingest u (guarded_publish tenant publish) lim_ns batch c w = ingest u publish lim_ns batch c w"
  using accepted_own_batch [of u batch "c_body c" _ tenant "clock_time (w_now w)"]
  by (auto simp: ingest_def guarded_publish_def split: sum.splits option.splits)

lemma protected_cong:
  assumes "\<And>c1. c_header c ''Authorization'' \<noteq> [] \<Longrightarrow>
      app_keys a (bearer_key (c_header c ''Authorization'')) = l_tenant_id c1 \<Longrightarrow> l_tenant_id c1 \<noteq> None \<Longrightarrow>
      handler c1 = handler' c1"
  shows "protected a handler c s = protected a handler' c s"
  using assms
  by (auto simp: protected_def APIKeyAuth_def ValidateKey_def RateLimit_def Let_def
      split: prod.splits option.splits)

section \<open>Properties\<close>

text \<open>
  C4. The acknowledgement of the ingest endpoints is truthful: a 202 is only sent after the
  broker acknowledged a record for every event of the request, each accepted for the tenant of the
  request at the time of its receipt, and the ids it lists are those of the request, in order.
\<close>

theorem ingest_acknowledges:
  assumes "kgo_contract produce"
    and "ingest u (Publish u produce p) within_ns batch c w = (c', w')" and "r_status c' = 202"
  shows "\<exists>is tenant es. decode_request u batch (c_body c) = Inr is \<and> l_tenant_id c = Some tenant \<and>
           list_all2 (\<lambda>i e. Accept i tenant (clock_time (w_now w)) = Inr e) is es \<and>
           (\<forall>e \<in> set es. in_log u p (d_log w') e) \<and>
           r_body c' = JSONAccepted (map (\<lambda>i. uuid_string u (EventID i)) is) (l_request_id c)"
  using broker.ingest_accepted [of "(u, produce, p)" u within_ns batch c w c' w'] assms by simp

definition sample_body :: bytes where
  \<open>sample_body =
     ''{"event_id":"00000000-0000-0000-0000-000000000007","event_type":"signup",''
     @ ''"occurred_at":"2026-01-02T00:00:00Z","payload":{}}''\<close>

definition sample_input :: Input where
  "sample_input =
     \<lparr>EventID = 7, EventType = ''signup'',
      OccurredAt = \<lparr>t_sec = 63902908800, t_nsec = 0, t_offset = 0\<rparr>, Payload = ''{}''\<rparr>"

definition sample_request :: fctx where
  "sample_request =
     \<lparr>c_method = ''POST'', c_path = ''/v1/events'',
      c_header = (\<lambda>h. if h = ''Authorization'' then ''Bearer k1'' else []), c_body = sample_body,
      l_request_id = None, l_tenant_id = Some ''acme'', l_metrics_observed = False, c_err = None,
      r_status = 200, r_headers = Map.empty, r_body = NoBody\<rparr>"

lemma sample_decodes: "decode_request uuid_canonical False sample_body = Inr [sample_input]"
  by code_simp

lemma sample_accepts:
  "accept_all [sample_input] ''acme'' (clock_time (w_now quiet_world)) = Some [sample_event]"
  by code_simp

lemma sample_ingest:
  obtains c' w' where "ingest uuid_canonical (Publish uuid_canonical (kgo_example {} {}) sample_publisher)
      second False sample_request quiet_world = (c', w')" "r_status c' = 202"
proof -
  obtain raw where "EncodeEnvelope uuid_canonical sample_event = Inr raw" using sample_encodes by blast
  then obtain w' where "Publish uuid_canonical (kgo_example {} {}) sample_publisher
      (with_timeout None (w_now quiet_world) second) [sample_event] quiet_world = (w', None)"
    by (simp add: Publish_def send_def kgo_example_def quiet_world_def sample_publisher_def deadline_def
        with_timeout_def second_def Let_def)
  with that sample_decodes sample_accepts show thesis by (simp add: ingest_def sample_request_def)
qed

theorem ingest_acknowledges_witness:
  "\<exists>c' w'. ingest uuid_canonical (Publish uuid_canonical (kgo_example {} {}) sample_publisher) second False
       sample_request quiet_world = (c', w') \<and> r_status c' = 202 \<and>
     in_log uuid_canonical sample_publisher (d_log w') sample_event"
proof (rule sample_ingest)
  fix c' w' assume run: "ingest uuid_canonical (Publish uuid_canonical (kgo_example {} {}) sample_publisher)
      second False sample_request quiet_world = (c', w')" "r_status c' = 202"
  from ingest_acknowledges [OF kgo_example_contract run] sample_decodes sample_accepts accept_all_Some
  have "in_log uuid_canonical sample_publisher (d_log w') sample_event"
    by (fastforce simp: sample_request_def list_all2_Cons1)
  with run show ?thesis by blast
qed

text \<open>
  C5. Isolation of tenants, and nothing unvalidated on the wire: on every endpoint, the publisher
  is only ever called with one to a hundred events that passed validation and carry the tenant
  of the request's own API key.  A publisher that refused every other call would serve the
  request in the same way.
\<close>

theorem serve_publishes_own_events:
  assumes "app_keys a (bearer_key (c_header c ''Authorization'')) = Some tenant"
  shows "serve u (guarded_publish tenant publish) ping new_id a e c s = serve u publish ping new_id a e c s"
proof -
  have "protected a (ingest u (guarded_publish tenant publish) t b) (RequestID now c) s =
      protected a (ingest u publish t b) (RequestID now c) s" for t b now
    using assms by (intro protected_cong ext) (auto simp: RequestID_def Let_def ingest_guard)
  then show ?thesis by (cases e) (simp_all add: serve_def dispatch_def)
qed

definition sample_app :: app where
  "sample_app = \<lparr>app_keys = [''k1'' \<mapsto> ''acme''], app_timeout = 5 * second\<rparr>"

theorem serve_publishes_own_events_witness:
  "serve uuid_canonical (guarded_publish ''acme'' (Publish uuid_canonical (kgo_example {} {}) sample_publisher))
     None [] sample_app ESingle sample_request (quiet_world, NewRateLimiter 2) =
   serve uuid_canonical (Publish uuid_canonical (kgo_example {} {}) sample_publisher)
     None [] sample_app ESingle sample_request (quiet_world, NewRateLimiter 2)"
  by (rule serve_publishes_own_events)
     (simp add: sample_app_def sample_request_def bearer_key_def HasPrefix_def TrimPrefix_def)

lemma RequestID_simps [simp]:
  "c_header (RequestID now c) = c_header c" "c_err (RequestID now c) = c_err c"
  "c_path (RequestID now c) = c_path c" "c_body (RequestID now c) = c_body c"
  "r_headers (RequestID now c) ''X-Request-ID'' = l_request_id (RequestID now c)"
  "l_request_id (RequestID now c) \<noteq> None"
  by (simp_all add: RequestID_def Let_def)

lemma observe_request_simps [simp]:
  "fst (observe_request start (c, w, rl)) = c\<lparr>l_metrics_observed := True\<rparr>"
  "snd (snd (observe_request start (c, w, rl))) = rl"
  "d_table (fst (snd (observe_request start (c, w, rl)))) = d_table w"
  "d_log (fst (snd (observe_request start (c, w, rl)))) = d_log w"
  "d_committed (fst (snd (observe_request start (c, w, rl)))) = d_committed w"
  by (simp_all add: observe_request_def Let_def)

lemma protected_refuses:
  assumes "c_header c ''Authorization'' = [] \<or> app_keys a (bearer_key (c_header c ''Authorization'')) = None"
  shows "\<exists>msg. protected a handler c (w, rl) = (SendError 401 ErrCodeAuth msg (w_now w) c, w, rl)"
  using assms
  by (cases "c_header c ''Authorization'' = []")
     (auto simp: protected_def APIKeyAuth_def ValidateKey_def Let_def)

definition behind_key :: "endpoint \<Rightarrow> bool" where
  "behind_key e \<longleftrightarrow> (case e of ESingle \<Rightarrow> True | EBatch \<Rightarrow> True | EProtected _ \<Rightarrow> True | _ \<Rightarrow> False)"

text \<open>
  C33. Without a valid key nothing happens: below \<^verbatim>\<open>/v1\<close> a request whose Authorization header is
  missing or names no configured key gets a 401, whatever its route and body; nothing is
  published or stored, and it takes no token from any tenant.
\<close>

theorem serve_unauthenticated:
  assumes "behind_key e" and "c_err c = None"
    and "c_header c ''Authorization'' = [] \<or> app_keys a (bearer_key (c_header c ''Authorization'')) = None"
    and "serve u publish ping new_id a e c (w, rl) = (c', w', rl')"
  shows "r_status c' = 401 \<and> d_table w' = d_table w \<and> d_log w' = d_log w \<and>
         d_committed w' = d_committed w \<and> rl' = rl"
proof -
  have "\<exists>msg. protected a h (RequestID (w_now w) c) (w, rl) =
      (SendError 401 ErrCodeAuth msg (w_now w) (RequestID (w_now w) c), w, rl)" for h
    using assms(3) by (intro protected_refuses) simp
  then obtain msg where "dispatch u publish ping a e (RequestID (w_now w) c) (w, rl) =
      (SendError 401 ErrCodeAuth msg (w_now w) (RequestID (w_now w) c), w, rl)"
    using assms(1) by (cases e) (auto simp: behind_key_def dispatch_def)
  with assms(2,4) have "(c', w', rl') = observe_request (w_now w)
      (SendError 401 ErrCodeAuth msg (w_now w) (RequestID (w_now w) c), w, rl)"
    by (simp add: serve_def Let_def)
  then show ?thesis
    by (auto simp: observe_request_def Let_def)
qed

theorem serve_unauthenticated_witness:
  "\<exists>c' w' rl'. serve uuid_canonical (Publish uuid_canonical (kgo_example {} {}) sample_publisher) None []
      sample_app EBatch (sample_request\<lparr>c_header := \<lambda>h. ''Bearer nope''\<rparr>) (quiet_world, NewRateLimiter 2) = (c', w', rl') \<and>
    r_status c' = 401 \<and> d_log w' = []"
proof -
  let ?c = "sample_request\<lparr>c_header := \<lambda>h. ''Bearer nope''\<rparr>"
  obtain c' w' rl' where run: "serve uuid_canonical (Publish uuid_canonical (kgo_example {} {}) sample_publisher)
      None [] sample_app EBatch ?c (quiet_world, NewRateLimiter 2) = (c', w', rl')"
    by (metis prod_cases3)
  have "app_keys sample_app (bearer_key (c_header ?c ''Authorization'')) = None"
    by (simp add: sample_app_def bearer_key_def HasPrefix_def TrimPrefix_def)
  with serve_unauthenticated [OF _ _ _ run] run show ?thesis
    by (auto simp: behind_key_def sample_request_def quiet_world_def)
qed

text \<open>
  An application built by \<^verbatim>\<open>NewApp\<close> answers the ingest endpoints with 202, 400, 401, 413, 429
  or 503 only: the branches for a missing tenant (500) and for an identity that \<^verbatim>\<open>Accept\<close>
  refuses after decoding are never taken, 413 is sent exactly for what decoding calls too large,
  and every refusal short of 503 leaves the broker's log as it was.
\<close>

theorem serve_statuses:
  assumes "NewApp config nopub = Inr (a, rl0)" and "e = ESingle \<or> e = EBatch" and "c_err c = None"
    and "\<not> IsZero (clock_time (w_now w))"
    and "serve u (Publish u produce p) ping new_id a e c (w, rl) = (c', w', rl')"
  shows "r_status c' \<in> {202, 400, 401, 413, 429, 503} \<and>
         (r_status c' = 413 \<longrightarrow> (\<exists>err. decode_request u (e = EBatch) (c_body c) = Inl err \<and> IsTooLarge err)) \<and>
         (r_status c' = 400 \<longrightarrow> (\<exists>err. decode_request u (e = EBatch) (c_body c) = Inl err \<and> \<not> IsTooLarge err)) \<and>
         (r_status c' \<notin> {202, 503} \<longrightarrow> d_log w' = d_log w)"
proof -
  let ?b = "e = EBatch" and ?c = "RequestID (w_now w) c"
  let ?h = "ingest u (Publish u produce p) (app_timeout a) ?b"
  have disp: "dispatch u (Publish u produce p) ping a e ?c (w, rl) = protected a ?h ?c (w, rl)"
    using assms(2) by (auto simp: dispatch_def)
  obtain c1 w1 rl1 where p: "protected a ?h ?c (w, rl) = (c1, w1, rl1)" by (metis prod_cases3)
  have res: "c_err c1 = None \<Longrightarrow> r_status c' = r_status c1 \<and> d_log w' = d_log w1"
    using assms(5) disp p by (auto simp: serve_def observe_request_def Let_def)
  show ?thesis
  proof (cases rule: protected_cases [of ?c a ?h w rl])
    case (handled tenant c2 rl2)
    then have tenant: "ValidTenant tenant" using NewApp_valid [OF assms(1)] by blast
    show ?thesis
    proof (cases rule: ingest_cases [of u ?b c2 "Publish u produce p" "app_timeout a" w])
      case (identity "is" t)
      from accept_all_None [OF identity(3)] obtain i err where
        "i \<in> set is" "Accept i t (clock_time (w_now w)) = Inl err" by blast
      with decode_request_valid [OF identity(1)] accept_valid [OF _ tenant assms(4), of i] identity(2) handled(2)
      show ?thesis by simp
    next
      case (invalid err)
      with handled p have "r_status c1 = (if IsTooLarge err then 413 else 400)" "c_err c1 = None" "w1 = w"
        using assms(3) by auto
      with res invalid(1) handled(4) show ?thesis by simp
    next
      case (no_tenant "is")
      with handled(2) show ?thesis by simp
    next
      case (uncertain "is" t es w2 err)
      with handled p have "r_status c1 = 503" "c_err c1 = None" using assms(3) by auto
      with res show ?thesis by simp
    next
      case (accepted "is" t es w2)
      with handled p have "r_status c1 = 202" "c_err c1 = None" using assms(3) by auto
      with res show ?thesis by simp
    qed
  next
    case (unauthorised msg)
    with p have "r_status c1 = 401" "c_err c1 = None" "w1 = w" using assms(3) by auto
    with res show ?thesis by simp
  next
    case (limited t c2 rl2)
    with p have "r_status c1 = 429" "c_err c1 = None" "w1 = w" using assms(3) by auto
    with res show ?thesis by simp
  qed
qed

definition sample_config :: Config where
  "sample_config = \<lparr>APIKeys = [(''k1'', ''acme'')], RateLimitRPS = 2, ApiPublishTimeout = 5 * second\<rparr>"

lemma sample_config_app: "NewApp sample_config False = Inr (sample_app, NewRateLimiter 2)"
proof -
  have "ValidTenant ''acme''" by code_simp
  then show ?thesis
    by (simp add: NewApp_def sample_config_def sample_app_def NewAPIKeyConfig_def AddKey_def second_def)
qed

theorem serve_statuses_witness:
  "\<exists>c' w' rl'. serve uuid_canonical (Publish uuid_canonical (kgo_example {} {}) sample_publisher) None []
      sample_app EBatch sample_request (quiet_world, NewRateLimiter 2) = (c', w', rl') \<and>
    r_status c' \<in> {202, 400, 401, 413, 429, 503}"
proof -
  obtain c' w' rl' where run: "serve uuid_canonical (Publish uuid_canonical (kgo_example {} {}) sample_publisher)
      None [] sample_app EBatch sample_request (quiet_world, NewRateLimiter 2) = (c', w', rl')"
    by (metis prod_cases3)
  have "c_err sample_request = None" "\<not> IsZero (clock_time (w_now quiet_world))"
    by (simp_all add: sample_request_def quiet_world_def clock_time_def IsZero_def)
  with serve_statuses [OF sample_config_app _ _ _ run] run show ?thesis by blast
qed

definition http_counts :: "world \<Rightarrow> metric_call list" where
  "http_counts w =
     (case w_metrics w of None \<Rightarrow> []
      | Some m \<Rightarrow> filter (\<lambda>x. fst (series x) = ''ingestkit_http_total'') (m_calls m))"

lemma Publish_http:
  assumes "Publish u produce p ctx es w = (w', err)"
  shows "http_counts w' = http_counts w \<and> (w_metrics w' = None \<longleftrightarrow> w_metrics w = None)"
  using assms
  by (auto simp: Publish_def send_def Let_def http_counts_def measure_with_def ObservePublish_def
      ObservePublishFailure_def split: sum.splits prod.splits option.splits)

lemma ingest_frame:
  assumes "ingest u (Publish u produce p) t b c w = (c', w')"
  shows "http_counts w' = http_counts w \<and> (w_metrics w' = None \<longleftrightarrow> w_metrics w = None) \<and>
         c_path c' = c_path c \<and> l_request_id c' = l_request_id c \<and> r_headers c' = r_headers c \<and> c_err c' = c_err c"
  by (cases rule: ingest_cases [of u b c "Publish u produce p" t w])
     (use assms in \<open>auto dest: Publish_http split: if_splits\<close>)

lemma protected_frame:
  assumes "protected a h c (w, rl) = (c', w', rl')"
    and "\<And>c w c' w'. h c w = (c', w') \<Longrightarrow>
      http_counts w' = http_counts w \<and> (w_metrics w' = None \<longleftrightarrow> w_metrics w = None) \<and>
      c_path c' = c_path c \<and> l_request_id c' = l_request_id c \<and> r_headers c' = r_headers c"
  shows "http_counts w' = http_counts w \<and> (w_metrics w' = None \<longleftrightarrow> w_metrics w = None) \<and>
         c_path c' = c_path c \<and> l_request_id c' = l_request_id c \<and>
         r_headers c' ''X-Request-ID'' = r_headers c ''X-Request-ID''"
proof (cases rule: protected_cases [of c a h w rl])
  case (handled t c1 rl1)
  moreover obtain c2 w2 where "h c1 w = (c2, w2)" by fastforce
  ultimately show ?thesis using assms(1) assms(2) [of c1 w c2 w2] by auto
qed (use assms(1) in auto)

lemma dispatch_frame:
  assumes "dispatch u (Publish u produce p) ping a e c (w, rl) = (c', w', rl')"
  shows "http_counts w' = http_counts w \<and> (w_metrics w' = None \<longleftrightarrow> w_metrics w = None) \<and>
         c_path c' = c_path c \<and> l_request_id c' = l_request_id c \<and>
         r_headers c' ''X-Request-ID'' = r_headers c ''X-Request-ID''" (is ?frame)
proof -
  have "?frame" if "protected a (ingest u (Publish u produce p) t b) c (w, rl) = (c', w', rl')" for t b
    by (rule protected_frame [OF that]) (use ingest_frame in blast)
  moreover have "?frame" if "protected a (\<lambda>c w. (c\<lparr>c_err := Some code\<rparr>, w)) c (w, rl) = (c', w', rl')" for code
    by (rule protected_frame [OF that]) auto
  ultimately show ?thesis using assms by (cases e) (auto simp: dispatch_def ready_def)
qed



end
