(* ===== verification/Json_Facts.thy ===== *)
theory Json_Facts
  imports Go_Json
begin

text \<open>
  Facts about the model of \<^verbatim>\<open>encoding/json\<close>: a string literal reads back as the text it was
  written from, a token is read again in any context that does not continue it, and a complete
  value is read again inside a larger document.
\<close>

named_theorems quoting "facts about quoted text"

section \<open>Runes\<close>

lemma char_of_byte_eqI: "byte c = n \<Longrightarrow> char_of n = c"
  by (metis char_of_byte)

text \<open>The bytes of a rune outside ASCII: \<open>w\<close> of them, all above 127, decoded in any context.\<close>

definition rune_at :: "nat \<Rightarrow> nat \<Rightarrow> bytes \<Rightarrow> bool" where
  "rune_at rr w s \<longleftrightarrow>
     2 \<le> w \<and> w \<le> 4 \<and> w \<le> length s \<and> encode_rune rr = take w s \<and>
     (\<forall>ys. decode_rune (take w s @ ys) = (rr, w)) \<and> (\<forall>c \<in> set (take w s). 128 \<le> byte c) \<and>
     utf8_valid (take w s) \<and> utf8_valid (drop w s)"

lemma rune2:
  assumes "between 194 223 a" "cont b" "utf8_valid r"
  shows "rune_at ((byte a - 192) * 64 + (byte b - 128)) 2 (a # b # r)"
proof -
  define x y where "x = byte a - 192" and "y = byte b - 128"
  have xy: "byte a = 192 + x" "2 \<le> x" "x < 32" "byte b = 128 + y" "y < 64"
    using assms by (auto simp: byte_simps x_def y_def)
  have "char_of (192 + x) = a" "char_of (128 + y) = b"
    using xy by (auto intro: char_of_byte_eqI)
  moreover have "(x * 64 + y) div 64 = x" "(x * 64 + y) mod 64 = y" using xy by auto
  ultimately have "encode_rune (x * 64 + y) = [a, b]"
    using xy by (auto simp: encode_rune_def Let_def)
  then show ?thesis
    using assms xy by (auto simp: rune_at_def x_def [symmetric] y_def [symmetric] byte_simps)
qed

lemma base64_digits: "q < 64 \<Longrightarrow> (p * 64 + q) div 64 = p \<and> (p * 64 + q) mod 64 = (q :: nat)"
  by auto

lemma rune3:
  assumes "between 224 239 a" "second3 (byte a) b" "cont c" "utf8_valid r"
  shows "rune_at ((byte a - 224) * 4096 + (byte b - 128) * 64 + (byte c - 128)) 3 (a # b # c # r)"
proof -
  define x y z where "x = byte a - 224" and "y = byte b - 128" and "z = byte c - 128"
  have xyz: "byte a = 224 + x" "x < 16" "byte b = 128 + y" "y < 64" "byte c = 128 + z" "z < 64"
    "x = 0 \<Longrightarrow> 32 \<le> y" "x = 13 \<Longrightarrow> y < 32"
    using assms by (auto simp: byte_simps second3_def x_def y_def z_def split: if_splits)
  have cs: "char_of (224 + x) = a" "char_of (128 + y) = b" "char_of (128 + z) = c"
    using xyz by (auto intro: char_of_byte_eqI)
  define rr where "rr = x * 4096 + y * 64 + z"
  have d: "rr div 4096 = x" "rr div 64 mod 64 = y" "rr mod 64 = z"
    using base64_digits [OF xyz(6), of "x * 64 + y"] base64_digits [OF xyz(4), of x]
      div_mult2_eq [of rr 64 64] by (simp_all add: rr_def algebra_simps)
  have "2048 \<le> rr" "rr < 65536" "\<not> (55296 \<le> rr \<and> rr \<le> 57343)"
    using xyz(2,4,6,7,8) by (cases "x = 0"; cases "x = 13"; simp add: rr_def; arith)+
  then have "encode_rune rr = [a, b, c]"
    using d cs by (auto simp: encode_rune_def Let_def)
  then show ?thesis
    using assms xyz
    by (auto simp: rune_at_def rr_def x_def [symmetric] y_def [symmetric] z_def [symmetric] byte_simps)
qed

lemma rune4:
  assumes "between 240 244 a" "second4 (byte a) b" "cont c" "cont e" "utf8_valid r"
  shows "rune_at ((byte a - 240) * 262144 + (byte b - 128) * 4096 + (byte c - 128) * 64 + (byte e - 128))
           4 (a # b # c # e # r)"
proof -
  define x y z v where "x = byte a - 240" and "y = byte b - 128" and "z = byte c - 128" and "v = byte e - 128"
  have xyz: "byte a = 240 + x" "x \<le> 4" "byte b = 128 + y" "y < 64" "byte c = 128 + z" "z < 64"
    "byte e = 128 + v" "v < 64" "x = 0 \<Longrightarrow> 16 \<le> y" "x = 4 \<Longrightarrow> y < 16"
    using assms by (auto simp: byte_simps second4_def x_def y_def z_def v_def split: if_splits)
  have cs: "char_of (240 + x) = a" "char_of (128 + y) = b" "char_of (128 + z) = c" "char_of (128 + v) = e"
    using xyz by (auto intro: char_of_byte_eqI)
  define rr where "rr = x * 262144 + y * 4096 + z * 64 + v"
  have d: "rr div 262144 = x" "rr div 4096 mod 64 = y" "rr div 64 mod 64 = z" "rr mod 64 = v"
    using base64_digits [OF xyz(8), of "(x * 64 + y) * 64 + z"] base64_digits [OF xyz(6), of "x * 64 + y"]
      base64_digits [OF xyz(4), of x] div_mult2_eq [of rr 64 64] div_mult2_eq [of rr 4096 64]
    by (simp_all add: rr_def algebra_simps)
  have "65536 \<le> rr" "rr \<le> 1114111"
    using xyz(2,4,6,8,9,10) by (cases "x = 0"; cases "x = 4"; simp add: rr_def; arith)+
  then have "encode_rune rr = [a, b, c, e]"
    using d cs by (auto simp: encode_rune_def Let_def)
  then show ?thesis
    using assms xyz
    by (auto simp: rune_at_def rr_def x_def [symmetric] y_def [symmetric] z_def [symmetric]
        v_def [symmetric] byte_simps)
qed

lemma decode_rune_valid:
  assumes "utf8_valid (a # s)" "\<not> byte a < 128"
  obtains rr w where "decode_rune (a # s) = (rr, w)" "rune_at rr w (a # s)"
proof -
  from assms consider
      b r where "between 194 223 a" "s = b # r" "cont b" "utf8_valid r"
    | b c r where "\<not> between 194 223 a" "between 224 239 a" "s = b # c # r" "second3 (byte a) b" "cont c" "utf8_valid r"
    | b c e r where "\<not> between 194 223 a" "\<not> between 224 239 a" "between 240 244 a" "s = b # c # e # r"
        "second4 (byte a) b" "cont c" "cont e" "utf8_valid r"
    by (auto split: if_splits list.splits)
  then show thesis
  proof cases
    case 1 then show thesis using rune2 [of a b r] assms(2) that by simp
  next
    case 2 then show thesis using rune3 [of a b c r] assms(2) that by simp
  next
    case 3 then show thesis using rune4 [of a b c e r] assms(2) that by simp
  qed
qed

lemma utf8_runes_induct [consumes 1, case_names Nil ascii rune]:
  assumes "utf8_valid s" and "P []"
    and "\<And>c s. byte c < 128 \<Longrightarrow> utf8_valid s \<Longrightarrow> P s \<Longrightarrow> P (c # s)"
    and "\<And>c s rr w. \<not> byte c < 128 \<Longrightarrow> decode_rune (c # s) = (rr, w) \<Longrightarrow> rune_at rr w (c # s) \<Longrightarrow>
      P (drop w (c # s)) \<Longrightarrow> P (c # s)"
  shows "P s"
  using assms(1)
proof (induction s rule: length_induct)
  case (1 s)
  show ?case
  proof (cases s)
    case (Cons c r)
    show ?thesis
    proof (cases "byte c < 128")
      case True
      then show ?thesis using 1 Cons assms(3) by simp
    next
      case False
      from decode_rune_valid [of c r] 1(2) Cons False obtain rr w where
        rw: "decode_rune (c # r) = (rr, w)" "rune_at rr w (c # r)" by blast
      then have "P (drop w (c # r))" using 1(1) Cons by (auto simp: rune_at_def)
      with assms(4) False rw Cons show ?thesis by blast
    qed
  qed (use assms(2) in simp)
qed

section \<open>String literals\<close>

text \<open>What the encoder writes for one rune outside ASCII.\<close>

definition rune_text :: "nat \<Rightarrow> bytes \<Rightarrow> bytes" where
  "rune_text rr t =
     (if rr = 8232 \<or> rr = 8233 then [backslash_c] @ ''u202'' @ [hex_digit (rr mod 16)] else t)"

lemma quote_body_rune [quoting]:
  assumes "\<not> byte c < 128" "decode_rune (c # s) = (rr, w)" "rune_at rr w (c # s)"
  shows "quote_body html (c # s) = rune_text rr (take w (c # s)) @ quote_body html (drop w (c # s))"
proof -
  from assms(3) obtain k where "w = Suc k" "w \<noteq> 1" by (cases w) (auto simp: rune_at_def)
  with assms show ?thesis by (auto simp: rune_text_def)
qed

lemma rune_head: "rune_at rr w t \<Longrightarrow> \<exists>c x. take w t = c # x \<and> length x = w - 1 \<and> \<not> byte c < 128"
proof -
  assume t: "rune_at rr w t"
  then have "length (take w t) = w" "2 \<le> w" "\<forall>c \<in> set (take w t). 128 \<le> byte c"
    by (auto simp: rune_at_def simp del: decode_rune.simps utf8_valid.simps)
  then show ?thesis by (cases "take w t") auto
qed

lemma hex_u202: "hex_value (''202'' @ [CHR ''8'']) = 8232" "hex_value (''202'' @ [CHR ''9'']) = 8233"
  by (simp_all add: hex_value_def ParseUint_def digit_in_def between_def)

lemma hex_89: "rr = 8232 \<or> rr = 8233 \<Longrightarrow> hex_digit (rr mod 16) = (if rr = 8232 then CHR ''8'' else CHR ''9'')"
  by (auto simp: hex_digit_def intro: byte_eqI)

lemma unquote_rune:
  assumes "rune_at rr w t"
  shows "unquote (take w t @ r) = take w t @ unquote r"
proof -
  from rune_head [OF assms] obtain c x where cx: "take w t = c # x" "length x = w - 1" "\<not> byte c < 128" by blast
  have dec: "decode_rune (take w t @ r) = (rr, w)" and "2 \<le> w"
    using assms unfolding rune_at_def by blast+
  then have w: "w = Suc (length x)" "length x \<noteq> 0" using cx(2) by arith+
  have "decode_rune (c # x @ r) = (rr, w)" using dec cx(1) by (simp only: append_Cons)
  moreover have "c \<noteq> backslash_c" using cx(3) by auto
  ultimately show ?thesis
    using cx(1,3) w by (simp del: decode_rune.simps)
qed

lemma unquote_rune_text:
  assumes "rune_at rr w t"
  shows "unquote (rune_text rr (take w t) @ r) = take w t @ unquote r"
proof (cases "rr = 8232 \<or> rr = 8233")
  case True
  have "encode_rune rr = take w t" using assms by (simp add: rune_at_def)
  with True show ?thesis
    using hex_u202 by (auto simp: rune_text_def hex_89 is_high_def is_surrogate_def Let_def)
next
  case False
  with unquote_rune [OF assms] show ?thesis by (simp add: rune_text_def)
qed

lemma hex_digit_low: "n < 16 \<Longrightarrow> digit_in 16 (hex_digit n) = Some (int n) \<and> is_hex (hex_digit n)"
  by (auto simp: hex_digit_def digit_in_def is_hex_def between_def)

lemma hex_value_00:
  "n < 256 \<Longrightarrow> hex_value [CHR ''0'', CHR ''0'', hex_digit (n div 16), hex_digit (n mod 16)] = n"
proof -
  assume n: "n < 256"
  have v: "int (n div 16) * 16 + int (n mod 16) = int n"
    by (metis div_mult_mod_eq of_nat_add of_nat_mult of_nat_numeral)
  from n have "n div 16 < 16" by auto
  then show ?thesis
    using hex_digit_low [of "n div 16"] hex_digit_low [of "n mod 16"] n v
    by (auto simp: hex_value_def ParseUint_def digit_in_def [of 16 "CHR ''0''"] between_def)
qed

lemma quote_ascii_cases:
  assumes "byte c < 128"
  obtains (plain) "quote_ascii html c = [c]" "c \<noteq> quote_c" "c \<noteq> backslash_c" "\<not> byte c < 32"
    | (escape) e where "quote_ascii html c = [backslash_c, e]" "is_escape e" "e \<noteq> CHR ''u''" "simple_escape e = c"
    | (unit) "quote_ascii html c = backslash_c # CHR ''u'' #
        [CHR ''0'', CHR ''0'', hex_digit (byte c div 16), hex_digit (byte c mod 16)]"
proof -
  consider "c = quote_c" | "c = backslash_c" | "c = CHR 0x08" | "c = CHR 0x0C" | "c = CHR 0x0A" | "c = CHR 0x0D"
    | "c = CHR 0x09" | "c \<notin> {quote_c, backslash_c, CHR 0x08, CHR 0x0C, CHR 0x0A, CHR 0x0D, CHR 0x09}" by blast
  then show thesis
  proof cases
    case 8
    then have "byte c \<noteq> 8" "byte c \<noteq> 12" "byte c \<noteq> 10" "byte c \<noteq> 13" "byte c \<noteq> 9"
      by (auto intro: byte_eqI)
    with 8 plain unit show thesis
      by (cases "byte c < 32 \<or> (html \<and> c \<in> {CHR ''<'', CHR ''>'', CHR ''&''})") (simp_all add: quote_ascii_def)
  next
    case 1 with escape [of quote_c] show thesis by (simp add: quote_ascii_def is_escape_def simple_escape_def)
  next
    case 2 with escape [of backslash_c] show thesis by (simp add: quote_ascii_def is_escape_def simple_escape_def)
  next
    case 3 with escape [of "CHR ''b''"] show thesis by (simp add: quote_ascii_def is_escape_def simple_escape_def)
  next
    case 4 with escape [of "CHR ''f''"] show thesis by (simp add: quote_ascii_def is_escape_def simple_escape_def)
  next
    case 5 with escape [of "CHR ''n''"] show thesis by (simp add: quote_ascii_def is_escape_def simple_escape_def)
  next
    case 6 with escape [of "CHR ''r''"] show thesis by (simp add: quote_ascii_def is_escape_def simple_escape_def)
  next
    case 7 with escape [of "CHR ''t''"] show thesis by (simp add: quote_ascii_def is_escape_def simple_escape_def)
  qed
qed

lemma unquote_ascii:
  assumes "byte c < 128"
  shows "unquote (quote_ascii html c @ r) = c # unquote r"
  using assms
proof (cases rule: quote_ascii_cases [of c html])
  case unit
  have "\<not> is_high (byte c)" "\<not> is_surrogate (byte c)" "encode_rune (byte c) = [c]"
    using assms by (auto simp: is_high_def is_surrogate_def encode_rune_def)
  then show ?thesis using unit hex_value_00 [of "byte c"] by (simp add: Let_def)
qed (use assms in simp_all)

lemma unquote_quote_body: "utf8_valid s \<Longrightarrow> unquote (quote_body html s) = s"
proof (induction rule: utf8_runes_induct)
  case (rune c s rr w)
  then have "unquote (quote_body html (c # s)) = take w (c # s) @ drop w (c # s)"
    by (simp only: quote_body_rune [OF rune(1,2,3)] unquote_rune_text [OF rune(3)])
  then show ?case by (metis append_take_drop_id)
qed (simp_all add: unquote_ascii)

lemma lex_string_high:
  "\<forall>c \<in> set t. 128 \<le> byte c \<Longrightarrow>
   lex_string (t @ r) = map_option (\<lambda>(s, q). (t @ s, q)) (lex_string r)"
proof (induction t)
  case (Cons c t)
  then have "c \<noteq> quote_c" "c \<noteq> backslash_c" "\<not> byte c < 32" by auto
  with Cons show ?case by (simp add: option.map_comp comp_def case_prod_beta)
qed (cases "lex_string r"; simp)

lemma lex_string_unit:
  "hex4 h \<Longrightarrow> length h = 4 \<Longrightarrow>
   lex_string (backslash_c # CHR ''u'' # h @ r) =
     map_option (\<lambda>(s, q). (backslash_c # CHR ''u'' # h @ s, q)) (lex_string r)"
  by (simp add: hex4_def is_escape_def)

lemma hex_digits_hex: "n < 16 \<Longrightarrow> is_hex (hex_digit n)"
  using hex_digit_low by simp

lemma lex_string_ascii:
  assumes "byte c < 128"
  shows "lex_string (quote_ascii html c @ r) = map_option (\<lambda>(s, q). (quote_ascii html c @ s, q)) (lex_string r)"
  using assms
proof (cases rule: quote_ascii_cases [of c html])
  case unit
  have "hex4 [CHR ''0'', CHR ''0'', hex_digit (byte c div 16), hex_digit (byte c mod 16)]"
    using assms by (simp add: hex4_def hex_digits_hex) (simp add: is_hex_def between_def)
  from lex_string_unit [OF this, of r] unit show ?thesis by simp
qed simp_all

lemma lex_string_rune_text:
  assumes "rune_at rr w t"
  shows "lex_string (rune_text rr (take w t) @ r) =
           map_option (\<lambda>(s, q). (rune_text rr (take w t) @ s, q)) (lex_string r)"
proof (cases "rr = 8232 \<or> rr = 8233")
  case True
  then have "hex4 (''202'' @ [hex_digit (rr mod 16)])"
    by (auto simp: hex4_def hex_89 is_hex_def between_def)
  from lex_string_unit [OF this, of r] True show ?thesis by (simp add: rune_text_def)
next
  case False
  then show ?thesis
    using lex_string_high [of "take w t" r] assms by (simp add: rune_text_def rune_at_def)
qed

lemma lex_string_quote_body:
  "utf8_valid s \<Longrightarrow> lex_string (quote_body html s @ quote_c # r) = Some (quote_body html s, r)"
proof (induction rule: utf8_runes_induct)
  case (rune c s rr w)
  then show ?case
    using lex_string_rune_text [OF rune(3), of "quote_body html (drop w (c # s)) @ quote_c # r"]
    by (simp only: quote_body_rune [OF rune(1,2,3)] append_assoc) simp
qed (simp_all add: lex_string_ascii)

lemma hex_digit_ascii: "n < 16 \<Longrightarrow> byte (hex_digit n) < 128"
  by (simp add: hex_digit_def)

lemma utf8_valid_quote_ascii:
  assumes "byte c < 128"
  shows "utf8_valid (quote_ascii html c)"
  using assms
proof (cases rule: quote_ascii_cases [of c html])
  case (escape e)
  from escape(2) have "byte e < 128" unfolding is_escape_def by (elim insertE emptyE) simp_all
  with escape show ?thesis by simp
next
  case unit
  then show ?thesis using assms hex_digit_ascii [of "byte c div 16"] hex_digit_ascii [of "byte c mod 16"] by simp
qed (use assms in simp)

lemma utf8_valid_rune_text: "rune_at rr w t \<Longrightarrow> utf8_valid (rune_text rr (take w t))"
  unfolding rune_text_def rune_at_def by (cases "rr = 8232 \<or> rr = 8233") (auto simp: hex_89)

lemma utf8_valid_quote_body: "utf8_valid s \<Longrightarrow> utf8_valid (quote_body html s)"
proof (induction rule: utf8_runes_induct)
  case (rune c s rr w)
  then show ?case
    by (simp only: quote_body_rune [OF rune(1,2,3)] utf8_valid_append [OF utf8_valid_rune_text [OF rune(3)]])
qed (simp_all add: utf8_valid_append utf8_valid_quote_ascii)

section \<open>Reading tokens again\<close>

text \<open>A byte that may follow a number without continuing it.\<close>

definition number_char :: "char \<Rightarrow> bool" where
  "number_char c \<longleftrightarrow> is_digit c \<or> c \<in> {CHR ''.'', CHR ''e'', CHR ''E'', CHR ''+'', CHR ''-''}"

definition delimited :: "bytes \<Rightarrow> bool" where
  "delimited r \<longleftrightarrow> (case r of [] \<Rightarrow> True | c # _ \<Rightarrow> \<not> number_char c)"

lemma delimited_simps [simp]:
  "delimited []" "delimited (c # r) \<longleftrightarrow> \<not> number_char c"
  by (simp_all add: delimited_def)

lemma lex_string_again: "lex_string s = Some (b, r) \<Longrightarrow> lex_string (b @ quote_c # r') = Some (b, r')"
proof (induction s arbitrary: b rule: lex_string.induct)
  case (2 c cs)
  show ?case
  proof (cases "c = backslash_c")
    case True
    then obtain e es where cs: "cs = e # es"
      using "2.prems" by (cases cs) auto
    show ?thesis
    proof (cases "is_escape e")
      case esc: True
      with "2.prems" True cs obtain b' where "b = c # e # b'" "lex_string es = Some (b', r)" by auto
      with "2.IH"(1) [OF _ True cs esc] True esc show ?thesis by simp
    next
      case False
      then have u: "e = CHR ''u''" "hex4 es"
        using "2.prems" True cs by (auto split: if_splits)
      then obtain b' where b: "b = c # e # take 4 es @ b'" "lex_string (drop 4 es) = Some (b', r)"
        using "2.prems" True cs False by auto
      have "lex_string (b' @ quote_c # r') = Some (b', r')"
        using "2.IH"(2) [OF _ True cs False] u b True by simp
      moreover have "hex4 (take 4 es)" "length (take 4 es) = 4" using u by (auto simp: hex4_def)
      ultimately show ?thesis
        using lex_string_unit [of "take 4 es" "b' @ quote_c # r'"] b True u by simp
    qed
  next
    case False
    then show ?thesis using "2.prems" "2.IH"(3) by (auto split: if_splits)
  qed
qed simp

text \<open>The rest of a number after its integer part does not start with a digit.\<close>

definition no_digit :: "bytes \<Rightarrow> bool" where
  "no_digit r \<longleftrightarrow> (case r of [] \<Rightarrow> True | c # _ \<Rightarrow> \<not> is_digit c)"

lemma span_no_digit: "no_digit y \<Longrightarrow> \<forall>c \<in> set ds. is_digit c \<Longrightarrow> span_while is_digit (ds @ y) = (ds, y)"
  by (cases y) (auto simp: no_digit_def span_while_def takeWhile_tail dropWhile_append)

lemma span_digits: "span_while is_digit s = (ds, r) \<Longrightarrow> \<forall>c \<in> set ds. is_digit c"
  by (auto simp: span_while_def dest: set_takeWhileD)

lemma lex_int_again:
  assumes "lex_int s = Some (i, r)" "no_digit y"
  shows "lex_int (i @ y) = Some (i, y)"
proof -
  from assms(1) consider "i = [CHR ''0'']" | c cs where "s = c # cs" "c \<noteq> CHR ''0''" "is_digit c" "span_while is_digit s = (i, r)"
    by (auto simp: lex_int_def split: list.splits if_splits)
  then show ?thesis
  proof cases
    case 2
    then obtain ds where i: "i = c # ds" by (auto simp: span_while_def)
    with span_no_digit [OF assms(2) span_digits [OF 2(4)]] 2 show ?thesis by (simp add: lex_int_def)
  qed (simp add: lex_int_def)
qed

definition frac_stop :: "bytes \<Rightarrow> bool" where
  "frac_stop r \<longleftrightarrow> (case r of [] \<Rightarrow> True | c # _ \<Rightarrow> \<not> is_digit c \<and> c \<noteq> CHR ''.'')"

lemma frac_stop_no_digit: "frac_stop r \<Longrightarrow> no_digit r"
  by (cases r) (auto simp: frac_stop_def no_digit_def)

lemma lex_frac_again:
  assumes "lex_frac s = Some (f, r)" "frac_stop y"
  shows "lex_frac (f @ y) = Some (f, y) \<and> no_digit (f @ y)"
proof -
  from assms(1) consider "f = []" | cs ds where "f = CHR ''.'' # ds" "ds \<noteq> []" "span_while is_digit cs = (ds, r)"
    by (auto simp: lex_frac_def split: list.splits if_splits prod.splits)
  then show ?thesis
  proof cases
    case 1
    with assms(2) show ?thesis by (cases y) (auto simp: lex_frac_def frac_stop_def no_digit_def)
  next
    case 2
    with span_no_digit [OF frac_stop_no_digit [OF assms(2)] span_digits [OF 2(3)]] show ?thesis
      by (simp add: lex_frac_def no_digit_def is_digit_def between_def)
  qed
qed

lemma lex_exp_again:
  assumes "lex_exp s = Some (x, r)" "delimited y"
  shows "lex_exp (x @ y) = Some (x, y) \<and> frac_stop (x @ y)"
proof -
  from assms(1) consider "x = []"
    | c sg ds r0 where "x = c # sg @ ds" "c = CHR ''e'' \<or> c = CHR ''E''" "ds \<noteq> []"
        "sg = [] \<or> sg = ''+'' \<or> sg = ''-''" "span_while is_digit r0 = (ds, r)"
    by (auto simp: lex_exp_def Let_def split: list.splits if_splits prod.splits) (metis append_Cons append_Nil)+
  then show ?thesis
  proof cases
    case 1
    with assms(2) show ?thesis
      by (cases y) (auto simp: lex_exp_def frac_stop_def number_char_def)
  next
    case 2
    from assms(2) have "no_digit y" by (cases y) (auto simp: no_digit_def number_char_def)
    note span = span_no_digit [OF this span_digits [OF 2(5)]]
    from 2(3) span_digits [OF 2(5)] obtain d ds' where d: "ds = d # ds'" "is_digit d" by (cases ds) auto
    then have "d \<noteq> CHR ''+''" "d \<noteq> CHR ''-''" by (auto simp: is_digit_def between_def)
    with 2 span d show ?thesis
      by (auto simp: lex_exp_def frac_stop_def is_digit_def between_def)
  qed
qed

lemma lex_number_parts:
  assumes "lex_number s = Some (n, r)"
  obtains sg s1 i s2 f s3 x where "lex_int s1 = Some (i, s2)" "lex_frac s2 = Some (f, s3)" "lex_exp s3 = Some (x, r)"
    "n = sg @ i @ f @ x" "sg = [] \<or> sg = ''-''"
  using assms by (auto simp: lex_number_def Let_def split: prod.splits option.splits list.splits if_splits)

lemma lex_number_again:
  assumes "lex_number s = Some (n, r)" "delimited y"
  shows "lex_number (n @ y) = Some (n, y)"
proof -
  obtain sg s1 i s2 f s3 x where
    parts: "lex_int s1 = Some (i, s2)" "lex_frac s2 = Some (f, s3)" "lex_exp s3 = Some (x, r)" "n = sg @ i @ f @ x"
    and sg: "sg = [] \<or> sg = ''-''"
    using lex_number_parts [OF assms(1)] .
  have x: "lex_exp (x @ y) = Some (x, y)" "frac_stop (x @ y)" using lex_exp_again [OF parts(3) assms(2)] by auto
  have f: "lex_frac (f @ x @ y) = Some (f, x @ y)" "no_digit (f @ x @ y)" using lex_frac_again [OF parts(2) x(2)] by auto
  have i: "lex_int (i @ f @ x @ y) = Some (i, f @ x @ y)" using lex_int_again [OF parts(1) f(2)] .
  then obtain c i' where "i = c # i'" "c = CHR ''0'' \<or> is_digit c"
    using lex_int_text [OF parts(1)] by (cases i) (auto simp: lex_int_def split: if_splits)
  moreover from this(2) have "c \<noteq> CHR ''-''" by (auto simp: is_digit_def between_def)
  ultimately show ?thesis using sg parts(4) i f(1) x(1) by (auto simp: lex_number_def)
qed

lemma lex_number_digit: "lex_number s = Some (n, r) \<Longrightarrow> \<exists>d ds. n = d # ds \<and> (d = CHR ''-'' \<or> is_digit d)"
  by (auto simp: lex_number_def lex_int_def span_while_def Let_def is_digit_def between_def
      split: prod.splits option.splits list.splits if_splits)

lemma number_char_simps [simp]:
  "number_char CHR ''0''" "number_char CHR ''.''" "number_char CHR ''e''" "number_char CHR ''E''"
  "number_char CHR ''+''" "number_char CHR ''-''"
  by (simp_all add: number_char_def is_digit_def between_def)

lemma number_char_digit: "is_digit c \<Longrightarrow> number_char c" "c \<in> set (takeWhile is_digit xs) \<Longrightarrow> number_char c"
  by (auto simp: number_char_def dest: set_takeWhileD)

lemma lex_int_chars: "lex_int s = Some (n, r) \<Longrightarrow> \<forall>c \<in> set n. number_char c"
  by (auto simp: lex_int_def span_while_def split: list.splits if_splits dest: number_char_digit)

lemma lex_frac_chars: "lex_frac s = Some (n, r) \<Longrightarrow> \<forall>c \<in> set n. number_char c"
  by (auto simp: lex_frac_def span_while_def split: list.splits if_splits dest: number_char_digit)

lemma lex_exp_chars: "lex_exp s = Some (n, r) \<Longrightarrow> \<forall>c \<in> set n. number_char c"
  by (auto simp: lex_exp_def span_while_def Let_def split: list.splits if_splits prod.splits
      dest: number_char_digit)

lemma lex_number_chars: "lex_number s = Some (n, r) \<Longrightarrow> \<forall>c \<in> set n. number_char c"
  by (erule lex_number_parts) (auto dest!: lex_int_chars lex_frac_chars lex_exp_chars)

lemma lex_token_cases:
  assumes "lex_token s = Some (t, x, r)"
  obtains (punct) c where "s = c # r" "x = [c]"
      "(c, t) \<in> {(CHR ''{'', TLBrace), (CHR ''}'', TRBrace), (CHR ''['', TLBracket), (CHR '']'', TRBracket),
         (CHR '':'', TColon), (CHR '','', TComma)}"
    | (str) cs b where "s = quote_c # cs" "lex_string cs = Some (b, r)" "t = TString b" "x = quote_c # b @ [quote_c]"
    | (word) "s = x @ r" "(x, t) \<in> {(''true'', TTrue), (''false'', TFalse), (''null'', TNull)}"
    | (num) "lex_number s = Some (x, r)" "t = TNumber x"
proof -
  have xr: "s = x @ r" using lex_token_text [OF assms] ..
  obtain c cs where s: "s = c # cs" using assms by (cases s) (auto simp: lex_token_def)
  show thesis
  proof (cases "c \<in> {CHR ''{'', CHR ''}'', CHR ''['', CHR '']'', CHR '':'', CHR '','', quote_c}")
    case True
    then show thesis
      using assms s punct [of c] str [of cs] unfolding lex_token_def by (auto split: option.splits)
  next
    case False
    then show thesis
      using assms s word [OF xr] num unfolding lex_token_def by (auto split: if_splits option.splits)
  qed
qed

text \<open>Only a number can be continued by what follows it.\<close>

lemma lex_token_again:
  assumes "lex_token s = Some (t, x, r)" "(\<exists>n. t = TNumber n) \<Longrightarrow> delimited y"
  shows "lex_token (x @ y) = Some (t, x, y) \<and> (\<exists>c cs. x = c # cs \<and> \<not> is_space c)"
  using assms(1)
proof (cases rule: lex_token_cases)
  case (punct c)
  then show ?thesis by (auto simp: lex_token_def is_space_def)
next
  case (str cs b)
  with lex_string_again [OF str(2), of y] show ?thesis by (simp add: lex_token_def is_space_def)
next
  case word
  from word(2) consider "x = ''true''" "t = TTrue" | "x = ''false''" "t = TFalse" | "x = ''null''" "t = TNull" by blast
  then show ?thesis by cases (simp_all add: lex_token_def is_space_def)
next
  case num
  then have "lex_number (x @ y) = Some (x, y)" using lex_number_again assms(2) by blast
  moreover from num(1) obtain d ds where d: "x = d # ds" "d = CHR ''-'' \<or> is_digit d"
    using lex_number_digit by blast
  then have "d \<notin> {CHR ''{'', CHR ''}'', CHR ''['', CHR '']'', CHR '':'', CHR '','', quote_c, CHR ''t'', CHR ''f'', CHR ''n''}"
    "\<not> is_space d"
    by (auto simp: is_digit_def between_def is_space_def)
  ultimately show ?thesis using d(1) num(2) by (simp add: lex_token_def)
qed

lemma lex_token_ascii: "lex_token (c # s) = Some p \<Longrightarrow> byte c < 128"
proof -
  assume "lex_token (c # s) = Some p"
  moreover obtain t x r where "p = (t, x, r)" by (cases p)
  ultimately have "lex_token (c # s) = Some (t, x, r)" by simp
  then show ?thesis
  proof (cases rule: lex_token_cases)
    case num
    from lex_number_digit [OF num(1)] lex_number_text [OF num(1)]
    have "c = CHR ''-'' \<or> is_digit c" by auto
    then show ?thesis by (auto simp: is_digit_def between_def)
  next
    case word
    from word(2) consider "x = ''true''" | "x = ''false''" | "x = ''null''" by blast
    then show ?thesis by cases (use word(1) in simp_all)
  qed auto
qed

section \<open>Reading documents again\<close>

definition lexed :: "lexeme \<Rightarrow> bool" where
  "lexed l \<longleftrightarrow> (\<exists>s r. lex_token s = Some (lx_token l, lx_text l, r))"

abbreviation lexm :: "token \<Rightarrow> bytes \<Rightarrow> lexeme" where
  "lexm t x \<equiv> \<lparr>lx_space = [], lx_text = x, lx_token = t\<rparr>"

definition closes :: "token \<Rightarrow> bool" where
  "closes t \<longleftrightarrow> t \<in> {TColon, TComma, TRBrace, TRBracket}"

fun spaced :: "lexeme list \<Rightarrow> bool" where
  "spaced [] \<longleftrightarrow> True"
| "spaced (l # ls) \<longleftrightarrow>
     (case lx_token l of TNumber _ \<Rightarrow> ls = [] \<or> closes (lx_token (hd ls)) | _ \<Rightarrow> True) \<and> spaced ls"

lemma lex_Nil [simp]: "lex [] = []"
  by (simp add: lex.simps)

lemma lex_blank: "list_all is_space s \<Longrightarrow> lex s = []"
  by (subst lex.simps) (simp add: list_all_iff)

lemma lex_Cons:
  assumes "lex_token (c # s) = Some (t, x, r)" "\<not> is_space c"
  shows "lex (c # s) = lexm t x # lex r"
  using assms by (subst lex.simps) simp

lemma lex_unfold:
  "lex s = (if dropWhile is_space s = [] then []
            else case lex_token (dropWhile is_space s) of
                   None \<Rightarrow> [\<lparr>lx_space = takeWhile is_space s, lx_text = dropWhile is_space s, lx_token = TBad\<rparr>]
                 | Some (t, x, r) \<Rightarrow> \<lparr>lx_space = takeWhile is_space s, lx_text = x, lx_token = t\<rparr> # lex r)"
  by (subst lex.simps) (simp add: Let_def)

lemma lex_head_ascii:
  assumes "\<forall>l \<in> set (lex s). lx_token l \<noteq> TBad"
  shows "s = [] \<or> byte (hd s) < 128"
proof (cases s)
  case (Cons c cs)
  show ?thesis
  proof (cases "is_space c")
    case True
    then show ?thesis using Cons by (auto simp: is_space_def)
  next
    case False
    then obtain p where "lex_token (c # cs) = Some p"
      using assms Cons lex_unfold [of s] by (cases "lex_token (c # cs)") auto
    then show ?thesis using Cons lex_token_ascii by auto
  qed
qed simp

lemma lex_lexed: "l \<in> set (lex s) \<Longrightarrow> lx_token l \<noteq> TBad \<Longrightarrow> lexed l"
proof (induction s rule: lex.induct)
  case (1 s)
  let ?s = "dropWhile is_space s"
  have ne: "?s \<noteq> []" using "1.prems"(1) lex_unfold [of s] by (auto split: if_splits)
  show ?case
  proof (cases "lex_token ?s")
    case None
    then show ?thesis using "1.prems" ne lex_unfold [of s] by (auto simp del: dropWhile_eq_Nil_conv)
  next
    case (Some p)
    obtain t x r where p: "p = (t, x, r)" by (cases p)
    have "lex s = \<lparr>lx_space = takeWhile is_space s, lx_text = x, lx_token = t\<rparr> # lex r"
      using ne Some p lex_unfold [of s] by (simp del: dropWhile_eq_Nil_conv)
    with "1.prems" consider "lx_token l = t" "lx_text l = x" | "l \<in> set (lex r)" by auto
    then show ?thesis
    proof cases
      case 1 then show ?thesis using Some p by (auto simp: lexed_def)
    next
      case 2
      show ?thesis by (rule "1.IH" [OF refl refl ne Some p [symmetric] refl 2 "1.prems"(2)])
    qed
  qed
qed

lemma lex_token_closes:
  assumes "lex_token s = Some (t, x, r)" "closes t"
  shows "x \<in> {'':'', '','', ''}'', '']''}"
  using assms by (cases rule: lex_token_cases) (auto simp: closes_def)

lemma lexed_closes:
  assumes "lexed l" "closes (lx_token l)"
  shows "delimited (lx_text l @ y)"
proof -
  from assms have "lx_text l \<in> {'':'', '','', ''}'', '']''}"
    using lex_token_closes unfolding lexed_def by blast
  then show ?thesis by (auto simp: number_char_def is_digit_def between_def)
qed

lemma lex_compact:
  assumes "\<forall>l \<in> set ls. lexed l" "spaced ls"
    and "ls \<noteq> [] \<Longrightarrow> (\<exists>n. lx_token (last ls) = TNumber n) \<Longrightarrow> delimited y"
  shows "lex (compact_lex ls @ y) = map (\<lambda>l. l\<lparr>lx_space := []\<rparr>) ls @ lex y"
  using assms
proof (induction ls)
  case (Cons l ls)
  let ?y = "compact_lex ls @ y"
  have "delimited ?y" if num: "lx_token l = TNumber n" for n
  proof (cases ls)
    case Nil
    then show ?thesis using Cons.prems(3) num by (simp add: compact_lex_def)
  next
    case (Cons m ms)
    then show ?thesis using Cons.prems lexed_closes [of m] num by (simp add: compact_lex_def)
  qed
  then have "(\<exists>n. lx_token l = TNumber n) \<Longrightarrow> delimited ?y" by blast
  moreover obtain s r where "lex_token s = Some (lx_token l, lx_text l, r)"
    using Cons.prems(1) by (auto simp: lexed_def)
  ultimately obtain c cs where again: "lex_token (lx_text l @ ?y) = Some (lx_token l, lx_text l, ?y)"
    "lx_text l = c # cs" "\<not> is_space c"
    using lex_token_again [of s "lx_token l" "lx_text l" r ?y] by blast
  then have "lex (lx_text l @ ?y) = l\<lparr>lx_space := []\<rparr> # lex ?y"
    using lex_Cons [of c "cs @ ?y" "lx_token l" "lx_text l" ?y] by (cases l) auto
  moreover have "lex ?y = map (\<lambda>l. l\<lparr>lx_space := []\<rparr>) ls @ lex y"
    using Cons.prems by (intro Cons.IH) auto
  ultimately show ?case by (simp add: compact_lex_def)
qed (simp add: compact_lex_def)

section \<open>Scanning values again\<close>

lemma scan_step_number: "scan_step sc (TNumber n) = Some sc' \<Longrightarrow> fst sc' = EDone"
  by (cases "(sc, TNumber n)" rule: scan_step.cases) (auto simp: begin_value_def begin_key_def)

lemma scan_step_not_bad: "scan_step sc t = Some sc' \<Longrightarrow> t \<noteq> TBad"
  by (cases "(sc, t)" rule: scan_step.cases) (auto simp: begin_value_def begin_key_def)

lemma scan_step_after_value: "scan_step (EDone, st) t = Some sc' \<Longrightarrow> closes t"
  by (cases "((EDone, st), t)" rule: scan_step.cases) (auto simp: closes_def split: if_splits)

lemma take_from_step:
  assumes "take_from sc (l # ls) = Some (v, r)"
  obtains "sc = (EDone, [])" "v = []" "r = l # ls"
  | sc' v' where "sc \<noteq> (EDone, [])" "scan_step sc (lx_token l) = Some sc'" "take_from sc' ls = Some (v', r)" "v = l # v'"
  using assms by (cases "sc = (EDone, [])") (auto split: option.splits)

lemma take_from_after_value:
  "take_from (EDone, st) ls = Some (v, r) \<Longrightarrow> v = [] \<or> closes (lx_token (hd v))"
  by (cases ls) (auto split: if_splits option.splits dest: scan_step_after_value)

lemma take_from_spaced: "take_from sc ls = Some (v, r) \<Longrightarrow> spaced v \<and> (\<forall>l \<in> set v. lx_token l \<noteq> TBad)"
proof (induction ls arbitrary: sc v)
  case (Cons l ls)
  from Cons.prems show ?case
  proof (cases rule: take_from_step)
    case (2 sc' v')
    have "v' = [] \<or> closes (lx_token (hd v'))" if num: "lx_token l = TNumber n" for n
    proof -
      obtain st where "sc' = (EDone, st)" using scan_step_number [of sc n sc'] 2(2) num by (cases sc') auto
      with 2(3) show ?thesis using take_from_after_value by blast
    qed
    with Cons.IH [OF 2(3)] 2 scan_step_not_bad show ?thesis by (auto split: token.splits)
  qed simp
qed (auto split: if_splits)

lemma take_from_map:
  "(\<And>l. lx_token (f l) = lx_token l) \<Longrightarrow>
   take_from sc (map f ls) = map_option (map_prod (map f) (map f)) (take_from sc ls)"
  by (induction ls arbitrary: sc) (auto simp: option.map_comp comp_def case_prod_beta split: option.splits)

text \<open>How deep the tokens nest, from a given depth.\<close>

fun nested :: "int \<Rightarrow> int \<Rightarrow> token list \<Rightarrow> bool" where
  "nested limit d [] \<longleftrightarrow> True"
| "nested limit d (t # ts) \<longleftrightarrow>
     (let d' = (if t = TLBrace \<or> t = TLBracket then 1 + d
                else if t = TRBrace \<or> t = TRBracket then d - 1 else d)
      in d' \<le> limit \<and> nested limit d' ts)"

definition scan_ok :: "scan \<Rightarrow> bool" where
  "scan_ok = (\<lambda>(e, st). e \<in> {EValueOrEnd, EKeyOrEnd, EKey} \<longrightarrow> st \<noteq> [])"

lemma scan_step_under:
  assumes "scan_step (e, st) t = Some (e', st')" "scan_ok (e, st)" "(e, st) \<noteq> (EDone, [])"
    and "nested limit (int (length st)) (t # ts)" "limit + int (length base) \<le> max_nesting"
  shows "scan_step (e, st @ base) t = Some (e', st' @ base) \<and> scan_ok (e', st') \<and>
         nested limit (int (length st')) ts"
  using assms
  by (cases "((e, st), t)" rule: scan_step.cases)
     (auto simp: begin_value_def begin_key_def push_def scan_ok_def Let_def neq_Nil_conv
       split: token.splits if_splits)

lemma take_from_under:
  assumes "take_from (e, st) ls = Some (v, r)" "scan_ok (e, st)"
    and "nested limit (int (length st)) (map lx_token v)" "limit + int (length base) \<le> max_nesting"
  shows "take_from (e, st @ base) (v @ rest) = map_option (\<lambda>(a, b). (v @ a, b)) (take_from (EDone, base) rest)"
  using assms
proof (induction ls arbitrary: e st v)
  case Nil
  then show ?case by (cases "take_from (EDone, base) rest") (auto split: if_splits)
next
  case (Cons l ls)
  from Cons.prems(1) show ?case
  proof (cases rule: take_from_step)
    case 1
    then show ?thesis by (cases "take_from (EDone, base) rest") auto
  next
    case (2 sc' v')
    obtain e' st' where sc': "sc' = (e', st')" by (cases sc')
    have step: "scan_step (e, st @ base) (lx_token l) = Some (e', st' @ base)" "scan_ok (e', st')"
      "nested limit (int (length st')) (map lx_token v')"
      using scan_step_under [of e st "lx_token l" e' st' limit "map lx_token v'" base] 2 sc' Cons.prems by auto
    have "(e, st @ base) \<noteq> (EDone, [])" using 2(1) by auto
    with step Cons.IH [OF _ step(2,3) Cons.prems(4)] 2 sc' show ?thesis
      by (auto simp: option.map_comp comp_def case_prod_beta)
  qed
qed

lemma take_value_under:
  assumes "take_value ls = Some (v, r)" "nested limit 0 (map lx_token v)" "limit + int (length base) \<le> max_nesting"
  shows "take_from (EValue, base) (v @ rest) = map_option (\<lambda>(a, b). (v @ a, b)) (take_from (EDone, base) rest)"
  using take_from_under [of EValue "[]" ls v r limit base rest] assms
  by (simp add: take_value_def scan_ok_def)

section \<open>Plain literals\<close>

lemma lex_string_plain: "list_all plain_char b \<Longrightarrow> lex_string (b @ quote_c # r) = Some (b, r)"
  by (induction b) (auto simp: plain_char_def)

lemma quote_body_plain: "list_all plain_char s \<Longrightarrow> quote_body False s = s"
proof (induction s)
  case (Cons c s)
  then have "byte c < 128" "32 \<le> byte c" "c \<noteq> quote_c" "c \<noteq> backslash_c" by (auto simp: plain_char_def)
  then have "quote_ascii False c = [c]" by (simp add: quote_ascii_def)
  with Cons \<open>byte c < 128\<close> show ?case by simp
qed simp

lemma unquote_plain: "list_all plain_char s \<Longrightarrow> unquote s = s"
  by (induction s) (auto simp: plain_char_def)

section \<open>Objects\<close>

text \<open>The lexemes of an object with the given members, without white space.\<close>

abbreviation lit_lex :: "bytes \<Rightarrow> lexeme" where
  "lit_lex b \<equiv> lexm (TString b) (quote_c # b @ [quote_c])"

fun members_lexemes :: "(bytes \<times> lexeme list) list \<Rightarrow> lexeme list" where
  "members_lexemes [] = []"
| "members_lexemes [(k, v)] = lit_lex k # lexm TColon '':'' # v"
| "members_lexemes ((k, v) # m # ms) = lit_lex k # lexm TColon '':'' # v @ lexm TComma '','' # members_lexemes (m # ms)"

definition object_lexemes :: "(bytes \<times> lexeme list) list \<Rightarrow> lexeme list" where
  "object_lexemes ms = lexm TLBrace ''{'' # members_lexemes ms @ [lexm TRBrace ''}'']"

definition value_ok :: "lexeme list \<Rightarrow> bool" where
  "value_ok v \<longleftrightarrow> take_value v = Some (v, []) \<and> nested 64 0 (map lx_token v)"

lemma value_ok_lit [simp]: "value_ok [lit_lex b]"
  by (simp add: value_ok_def take_value_def begin_value_def)

lemma take_value_ok: "value_ok v \<Longrightarrow> take_value (v @ d # r) = Some (v, d # r)"
  using take_value_under [of v v "[]" 64 "[]" "d # r"]
  by (simp add: value_ok_def take_value_def max_nesting_def)

lemma take_member:
  assumes "value_ok v" "e = EKey \<or> e = EKeyOrEnd"
  shows "take_from (e, [FObjectKey]) (lit_lex k # lexm TColon '':'' # v @ rest) =
    map_option (\<lambda>(a, b). (lit_lex k # lexm TColon '':'' # v @ a, b)) (take_from (EDone, [FObjectValue]) rest)"
  using take_value_under [of v v "[]" 64 "[FObjectValue]" rest] assms
  by (cases "take_from (EDone, [FObjectValue]) rest") (auto simp: value_ok_def max_nesting_def begin_key_def)

lemma take_members:
  "ms \<noteq> [] \<Longrightarrow> \<forall>m \<in> set ms. value_ok (snd m) \<Longrightarrow> e = EKey \<or> e = EKeyOrEnd \<Longrightarrow>
   take_from (e, [FObjectKey]) (members_lexemes ms @ lexm TRBrace ''}'' # rest) =
     Some (members_lexemes ms @ [lexm TRBrace ''}''], rest)"
proof (induction ms arbitrary: e rule: members_lexemes.induct)
  case (2 k v)
  then have "take_from (EDone, [FObjectValue]) (lexm TRBrace ''}'' # rest) = Some ([lexm TRBrace ''}''], rest)"
    by (cases rest) simp_all
  with take_member [of v e k "lexm TRBrace ''}'' # rest"] 2 show ?case by simp
next
  case (3 k v m ms)
  have "take_from (EDone, [FObjectValue]) (lexm TComma '','' # members_lexemes (m # ms) @ lexm TRBrace ''}'' # rest) =
      Some (lexm TComma '','' # members_lexemes (m # ms) @ [lexm TRBrace ''}''], rest)"
    using 3 by simp
  with take_member [of v e k "lexm TComma '','' # members_lexemes (m # ms) @ lexm TRBrace ''}'' # rest"] 3
  show ?case by simp
qed simp

lemma members_from_lexemes:
  "ms \<noteq> [] \<Longrightarrow> \<forall>m \<in> set ms. value_ok (snd m) \<Longrightarrow> members_from (members_lexemes ms @ [lexm TRBrace ''}'']) = Some ms"
proof (induction ms rule: members_lexemes.induct)
  case (2 k v)
  then show ?case by (simp add: members_from.simps take_value_ok)
next
  case (3 k v m ms)
  then show ?case by (subst members_from.simps) (simp add: take_value_ok)
qed simp

lemma object_lexemes_read:
  assumes "ms \<noteq> []" "\<forall>m \<in> set ms. value_ok (snd m)"
  shows "take_value (object_lexemes ms) = Some (object_lexemes ms, [])" "members (object_lexemes ms) = Some ms"
proof -
  show "take_value (object_lexemes ms) = Some (object_lexemes ms, [])"
    using take_members [OF assms, of EKeyOrEnd "[]"]
    by (simp add: take_value_def object_lexemes_def begin_value_def push_def max_nesting_def)
  have "members_lexemes ms \<noteq> []" using assms(1) by (cases ms rule: members_lexemes.cases) auto
  then have "map lx_token (members_lexemes ms @ [lexm TRBrace ''}'']) \<noteq> [TRBrace]" by simp
  with members_from_lexemes [OF assms] show "members (object_lexemes ms) = Some ms"
    by (simp add: members_def object_lexemes_def)
qed

end
