(* ===== verification/Time_Facts.thy ===== *)
theory Time_Facts
  imports Go_Time
begin

text \<open>
  Facts about the model of \<^verbatim>\<open>time\<close>: the calendar is a bijection between days and dates, and
  an instant reads back from the RFC 3339 text it is written as.
\<close>

section \<open>The calendar\<close>

lemma days_before_year_bounds:
  "146097 * y - 146796 \<le> 400 * days_before_year y"
  "400 * days_before_year y \<le> 146097 * y - 145701"
proof -
  define k where "k = y - 1"
  have "4 * (k div 4) = k - k mod 4" "100 * (k div 100) = k - k mod 100" "400 * (k div 400) = k - k mod 400"
    by (simp_all add: minus_mod_eq_mult_div)
  then have "400 * days_before_year y = 146097 * k - 100 * (k mod 4) + 4 * (k mod 100) - k mod 400"
    unfolding days_before_year_def k_def [symmetric] by algebra
  moreover have "0 \<le> k mod 4" "k mod 4 < 4" "0 \<le> k mod 100" "k mod 100 < 100" "0 \<le> k mod 400" "k mod 400 < 400"
    by simp_all
  moreover have "y = k + 1" by (simp add: k_def)
  ultimately show "146097 * y - 146796 \<le> 400 * days_before_year y"
    "400 * days_before_year y \<le> 146097 * y - 145701"
    by linarith+
qed

lemma year_of_day_correct:
  "days_before_year (year_of_day n) \<le> n \<and> n < days_before_year (year_of_day n + 1)"
proof -
  define q where "q = n * 400 div 146097"
  have q: "146097 * q \<le> 400 * n" "400 * n < 146097 * (q + 1)"
    unfolding q_def by (simp_all add: mult.commute)
  have "days_before_year q \<le> n" using q days_before_year_bounds [of q] by linarith
  moreover have "n < days_before_year (q + 3)" 
    using q days_before_year_bounds [of "q + 3"] unfolding distrib_left by linarith
  moreover have "q + 1 - 1 = q" "q + 1 + 1 = q + 2" "q + 2 + 1 = q + 3" by simp_all
  ultimately show ?thesis
    unfolding year_of_day_def q_def [symmetric] Let_def by (auto simp: add.commute)
qed

lemma days_before_month_12: "days_before_month y 12 = (if leap y then 366 else 365)"
  by (simp add: eval_nat_numeral days_in_def)

lemma div_pred:
  assumes "0 < c"
  shows "y div c = (y - 1) div c + (if y mod c = 0 then 1 else (0 :: int))"
proof (cases "y mod c = 0")
  case True
  then have "y - 1 = c * (y div c - 1) + (c - 1)" using mult_div_mod_eq [of c y] by (simp add: algebra_simps)
  from int_div_pos_eq [OF this] assms True show ?thesis by simp
next
  case False
  then have r: "0 \<le> y mod c - 1" "y mod c - 1 < c"
    using assms pos_mod_sign [of c y] pos_mod_bound [of c y] by linarith+
  have "y - 1 = c * (y div c) + (y mod c - 1)" using mult_div_mod_eq [of c y] by simp
  from int_div_pos_eq [OF this r] False show ?thesis by simp
qed

lemma year_length: "days_before_year (y + 1) = days_before_year y + days_before_month y 12"
proof -
  have "y mod 400 mod 100 = y mod 100" "y mod 100 mod 4 = y mod 4" by (simp_all add: mod_mod_cancel)
  then have imp: "y mod 400 = 0 \<Longrightarrow> y mod 100 = 0" "y mod 100 = 0 \<Longrightarrow> y mod 4 = 0" by auto
  define a b c where "a \<longleftrightarrow> y mod 4 = 0" and "b \<longleftrightarrow> y mod 100 = 0" and "c \<longleftrightarrow> y mod 400 = 0"
  have "c \<Longrightarrow> b" using imp(1) unfolding b_def c_def .
  moreover have "b \<Longrightarrow> a" using imp(2) unfolding a_def b_def .
  moreover have "leap y \<longleftrightarrow> a \<and> (\<not> b \<or> c)" unfolding a_def b_def c_def leap_def by (rule refl)
  ultimately have "365 + (if a then 1 else 0) - (if b then 1 else 0) + (if c then 1 else 0) = days_before_month y 12"
    unfolding days_before_month_12 by (cases a; cases b; cases c) simp_all
  moreover have "days_before_year (y + 1) = 365 * y + y div 4 - y div 100 + y div 400"
    by (simp add: days_before_year_def)
  moreover have "days_before_year y = 365 * y - 365 + (y - 1) div 4 - (y - 1) div 100 + (y - 1) div 400"
    by (simp add: days_before_year_def)
  moreover have "365 * Y + A - B + C = 365 * Y - 365 + A' - B' + C' + m"
    if "A = A' + i" "B = B' + j" "C = C' + k" "365 + i - j + k = m" for A A' B B' C C' i j k m Y :: int
    using that by linarith
  from this [OF div_pred [of 4 y] div_pred [of 100 y] div_pred [of 400 y]] calculation show ?thesis
    unfolding a_def b_def c_def by (simp only: zero_less_numeral simp_thms)
qed

lemma month_search_correct:
  "0 \<le> r \<Longrightarrow> r < days_before_month y (Suc k) \<Longrightarrow>
   1 \<le> month_search y r k \<and> month_search y r k \<le> int k + 1 \<and>
   days_before_month y (nat (month_search y r k - 1)) \<le> r \<and>
   r < days_before_month y (nat (month_search y r k))"
proof (induction k)
  case (Suc k)
  show ?case
  proof (cases "days_before_month y (Suc k) \<le> r")
    case True
    have "nat (int k + 2 - 1) = Suc k" "nat (int k + 2) = Suc (Suc k)" by simp_all
    with True Suc.prems show ?thesis by (simp del: days_before_month.simps)
  next
    case False
    with Suc show ?thesis by (simp del: days_before_month.simps)
  qed
qed simp

lemma civil_correct:
  assumes "civil n = (y, m, d)"
  shows "day_number y m d = n \<and> 1 \<le> m \<and> m \<le> 12 \<and> 1 \<le> d \<and> d \<le> days_in y m"
proof -
  define r where "r = n - days_before_year y"
  have y: "y = year_of_day n" and m: "m = month_search y r 11" and d: "d = r - days_before_month y (nat (m - 1)) + 1"
    using assms by (auto simp: civil_def Let_def r_def)
  have "0 \<le> r" "r < days_before_month y 12"
    using year_of_day_correct [of n] year_length [of y] by (simp_all add: r_def y)
  with month_search_correct [of r y 11] m have b: "1 \<le> m" "m \<le> 12"
    "days_before_month y (nat (m - 1)) \<le> r" "r < days_before_month y (nat m)" by simp_all
  obtain k where k: "nat (m - 1) = k" "nat m = Suc k" "m = int k + 1"
    using b(1) by (metis Suc_nat_eq_nat_zadd1 add.commute diff_add_cancel diff_ge_0_iff_ge int_nat_eq)
  with b(4) have "r < days_before_month y k + days_in y m" by (simp add: add.commute)
  then show ?thesis
    using b d k by (simp add: day_number_def r_def)
qed

section \<open>Decimal fields\<close>

lemma length_dec: "0 < w \<Longrightarrow> n < 10 ^ w \<Longrightarrow> length (dec n) \<le> w"
proof (induction n arbitrary: w rule: dec.induct)
  case (1 n)
  show ?case
  proof (cases "n < 10")
    case False
    then obtain v where w: "w = Suc v" "0 < v" using "1.prems" by (cases w; cases "w - 1") auto
    then have "n div 10 < 10 ^ v" using "1.prems" by auto
    with "1.IH" [OF False w(2)] w(1) False show ?thesis by (simp add: dec.simps [of n])
  qed (use "1.prems" in \<open>simp add: dec.simps [of n]\<close>)
qed

lemma digits_value_zeros: "digits_value 10 a (replicate k CHR ''0'') = Some (a * 10 ^ k)"
  by (induction k arbitrary: a) (simp_all add: digit_in_def between_def)

lemma length_pad: "0 < w \<Longrightarrow> n < 10 ^ w \<Longrightarrow> length (pad w n) = w"
  using length_dec [of w n] by (simp add: pad_def)

lemma pad_digits: "list_all is_digit (pad w n)"
  using dec_digits [of n] by (auto simp: pad_def list_all_iff is_digit_def between_def)

lemma digits_value_pad: "digits_value 10 0 (pad w n) = Some (int n)"
  by (simp add: pad_def digits_value_append digits_value_zeros digits_value_dec)

lemma fixed_pad: "0 < w \<Longrightarrow> n < 10 ^ w \<Longrightarrow> fixed w (pad w n @ r) = Some (n, r)"
  using pad_digits [of w n] length_pad [of w n]
  by (auto simp: fixed_def num_def digits_value_pad)

lemma upto2_pad: "n < 100 \<Longrightarrow> upto2 (pad 2 n @ r) = Some (n, r)"
proof -
  assume n: "n < 100"
  then obtain a b where ab: "pad 2 n = [a, b]" using length_pad [of 2 n] by (auto simp: length_Suc_conv eval_nat_numeral)
  with pad_digits [of 2 n] have "is_digit a" "is_digit b" by simp_all
  with ab fixed_pad [of 2 n r] n show ?thesis by (simp add: upto2_def)
qed

lemma then_lit_Some [simp]: "then_lit c (Some (v, c # r)) = Some (v, r)"
  by (simp add: then_lit_def lit_def)

lemma ranged_Some [simp]: "lo \<le> v \<Longrightarrow> v \<le> hi \<Longrightarrow> ranged lo hi (Some (v, r)) = Some (v, r)"
  by (simp add: ranged_def)

section \<open>Fractions and zones\<close>

definition zone_text :: "bytes \<Rightarrow> bool" where
  "zone_text s \<longleftrightarrow> (\<exists>c r. s = c # r \<and> c \<in> {CHR ''Z'', CHR ''+'', CHR ''-''})"

lemma zone_text_format: "zone_text (format_zone off)"
  by (auto simp: zone_text_def format_zone_def Let_def)

lemma fraction_none: "zone_text s \<Longrightarrow> fraction s = (0, s)"
  by (auto simp: zone_text_def fraction_def split: list.splits)

lemma strip_zeros:
  obtains k where "ds = rev (dropWhile (\<lambda>c. c = CHR ''0'') (rev ds)) @ replicate k CHR ''0''"
proof -
  have "rev ds = takeWhile (\<lambda>c. c = CHR ''0'') (rev ds) @ dropWhile (\<lambda>c. c = CHR ''0'') (rev ds)" by simp
  moreover have "takeWhile (\<lambda>c. c = CHR ''0'') (rev ds) =
      replicate (length (takeWhile (\<lambda>c. c = CHR ''0'') (rev ds))) CHR ''0''"
    by (intro replicate_eqI) (auto dest: set_takeWhileD)
  ultimately have "ds = rev (dropWhile (\<lambda>c. c = CHR ''0'') (rev ds)) @
      replicate (length (takeWhile (\<lambda>c. c = CHR ''0'') (rev ds))) CHR ''0''"
    by (metis rev_append rev_replicate rev_rev_ident)
  then show thesis by (rule that)
qed

lemma fraction_nano:
  assumes "ns < 10 ^ 9" "zone_text z"
  shows "fraction (format_nano ns @ z) = (ns, z)"
proof (cases "ns = 0")
  case True
  then show ?thesis using fraction_none assms(2) by (simp add: format_nano_def)
next
  case False
  define f where "f = rev (dropWhile (\<lambda>c. c = CHR ''0'') (rev (pad 9 ns)))"
  obtain k where k: "pad 9 ns = f @ replicate k CHR ''0''" using strip_zeros f_def by blast
  have len: "length f + k = 9" using length_pad [of 9 ns] assms(1) k by simp
  obtain v where v: "digits_value 10 0 f = Some v" "v * 10 ^ k = int ns"
    using digits_value_pad [of 9 ns] k by (auto simp: digits_value_append digits_value_zeros split: option.splits)
  have digits: "list_all is_digit f" using pad_digits [of 9 ns] k by simp
  have "f \<noteq> []" using v False by auto
  then obtain b r where f: "f = b # r" "is_digit b" using digits by (cases f) auto
  obtain c z' where z: "z = c # z'" "c \<in> {CHR ''Z'', CHR ''+'', CHR ''-''}"
    using assms(2) unfolding zone_text_def by blast
  then have "\<not> is_digit c" by (auto simp: is_digit_def between_def)
  have "takeWhile is_digit (f @ z) = f" "dropWhile is_digit (f @ z) = z"
    using digits z(1) \<open>\<not> is_digit c\<close> by (simp_all add: takeWhile_append2 dropWhile_append2 list_all_iff)
  moreover have "num f = Some (nat v)" using digits v(1) \<open>f \<noteq> []\<close> by (simp add: num_def)
  moreover have "0 \<le> v" using digits_value_nonneg [OF v(1)] by simp
  then have "nat v * 10 ^ k = ns" using v(2) by (simp add: nat_mult_distrib flip: nat_int_add of_nat_eq_iff [where 'a = int])
  moreover have "take 9 f = f" "9 - length f = k" using len by simp_all
  moreover have "format_nano ns = CHR ''.'' # f" using False by (simp add: format_nano_def f_def)
  ultimately show ?thesis using f by (simp add: fraction_def)
qed

lemma zone_format:
  assumes "60 dvd off" "\<bar>off\<bar> div 3600 < 24"
  shows "zone (format_zone off) = Some off"
proof (cases "off = 0")
  case False
  from assms(1) obtain q where q: "off = 60 * q" by blast
  define m where "m = nat \<bar>q\<bar>"
  have m: "nat (\<bar>off\<bar> div 60) = m" "m \<noteq> 0" "\<bar>off\<bar> = int (m * 60)" using q False by (simp_all add: m_def abs_mult)
  have "m div 60 < 24" using assms(2) m(3) by (simp add: zdiv_int [symmetric])
  define sg where "sg = (if off < 0 then CHR ''-'' else CHR ''+'')"
  have "format_zone off = sg # pad 2 (m div 60) @ CHR '':'' # pad 2 (m mod 60)"
    using False m by (simp add: format_zone_def sg_def)
  moreover have "fixed 2 (pad 2 (m div 60) @ CHR '':'' # pad 2 (m mod 60)) = Some (m div 60, CHR '':'' # pad 2 (m mod 60))"
    using \<open>m div 60 < 24\<close> by (intro fixed_pad) auto
  moreover have "fixed 2 (pad 2 (m mod 60)) = Some (m mod 60, [])"
    using fixed_pad [of 2 "m mod 60" "[]"] mod_less_divisor [of 60 m] by simp
  moreover have "3600 * int (m div 60) + int (m mod 60) * 60 = (if off < 0 then - off else off)"
  proof -
    have "int (m div 60) * 60 + int (m mod 60) = int m" by (metis div_mult_mod_eq of_nat_add of_nat_mult of_nat_numeral)
    moreover have "3600 * a + b * 60 = (if off < 0 then - off else off)"
      if "a * 60 + b = c" "\<bar>off\<bar> = c * 60" for a b c :: int
      using that by (auto simp: abs_if split: if_splits)
    ultimately show ?thesis using m(3) by simp
  qed
  moreover have "\<not> 60 < m mod 60" using mod_less_divisor [of 60 m] by linarith
  ultimately show ?thesis
    using \<open>m div 60 < 24\<close> by (cases "off < 0") (simp_all add: zone_def sg_def then_lit_def lit_def)
qed (simp add: format_zone_def zone_def)

section \<open>Reading an instant back\<close>

definition proper_time :: "go_time \<Rightarrow> bool" where
  \<comment> \<open>what every parsed time and every clock reading satisfies\<close>
  "proper_time t \<longleftrightarrow> t_nsec t < 10 ^ 9 \<and> 60 dvd t_offset t"

definition clock_fields :: "nat \<Rightarrow> nat \<times> nat \<times> nat" where
  "clock_fields r = (r div 3600, r div 60 mod 60, r mod 60)"

lemma clock_fields_bounds:
  assumes "r < 86400" "clock_fields r = (h, mi, s)"
  shows "h \<le> 23 \<and> mi \<le> 59 \<and> s \<le> 59 \<and> h * 3600 + mi * 60 + s = r"
proof -
  define q where "q = r div 60"
  have "r div 3600 = q div 60" using div_mult2_eq [of r 60 60] by (simp add: q_def)
  then have "h = q div 60" "mi = q mod 60" "s = r mod 60" using assms(2) by (auto simp: clock_fields_def q_def)
  moreover have "q div 60 * 60 + q mod 60 = q" "q * 60 + r mod 60 = r" "q mod 60 < 60" "r mod 60 < 60"
    by (simp_all add: q_def)
  ultimately show ?thesis using assms(1) by linarith
qed

lemma parse_format_rfc3339:
  assumes "format_rfc3339 t = Some b" "proper_time t"
  shows "parse_rfc3339 b = Some t"
proof -
  define local where "local = t_sec t + t_offset t"
  obtain y mo d where civ: "civil (local div 86400) = (y, mo, d)" by (metis prod_cases3)
  define r where "r = nat (local mod 86400)"
  obtain h mi s where hms: "clock_fields r = (h, mi, s)" by (metis prod_cases3)
  define z where "z = format_zone (t_offset t)"
  have y: "0 \<le> y" "y \<le> 9999" "\<bar>t_offset t\<bar> div 3600 < 24"
    and b: "b = pad 4 (nat y) @ CHR ''-'' # pad 2 (nat mo) @ CHR ''-'' # pad 2 (nat d) @ CHR ''T'' # pad 2 h @
        CHR '':'' # pad 2 mi @ CHR '':'' # pad 2 s @ format_nano (t_nsec t) @ z"
    using assms(1) civ hms
    by (auto simp: format_rfc3339_def Let_def local_def [symmetric] r_def [symmetric] clock_fields_def z_def
        split: if_splits)
  note cal = civil_correct [OF civ]
  have "days_in y mo \<le> 31" by (simp add: days_in_def)
  with cal have dm: "1 \<le> nat d" "nat d < 100" "1 \<le> nat mo" "nat mo \<le> 12" "nat mo < 100" by linarith+
  have "r < 86400" by (simp add: r_def nat_less_iff)
  note clk = clock_fields_bounds [OF this hms]
  have frac: "fraction (format_nano (t_nsec t) @ z) = (t_nsec t, z)"
    using fraction_nano zone_text_format assms(2) by (simp add: z_def proper_time_def)
  have zone: "zone z = Some (t_offset t)"
    using zone_format y(3) assms(2) by (simp add: z_def proper_time_def)
  have "make_time (nat y) (nat mo) (nat d) h mi s (t_nsec t) (t_offset t) = t"
  proof -
    have "int r = local mod 86400" by (simp add: r_def)
    then have "day_number y mo d * 86400 + int r = local" using cal by simp
    then have "day_number y mo d * 86400 + int (h * 3600 + mi * 60 + s) = t_sec t + t_offset t"
      using clk by (simp add: local_def)
    then show ?thesis using y cal by (cases t) (simp add: make_time_def)
  qed
  then show ?thesis
    using y dm clk cal frac zone unfolding b parse_rfc3339_def
    by (simp add: fixed_pad upto2_pad)
qed

section \<open>Times are proper and their text is plain\<close>

lemma all_digits_value: "list_all is_digit s \<Longrightarrow> \<exists>v. digits_value 10 a s = Some v"
  by (induction s arbitrary: a) (auto simp: digit_in_def is_digit_def between_def)

lemma digits_value_bound: "list_all is_digit s \<Longrightarrow> digits_value 10 a s = Some v \<Longrightarrow> v < (a + 1) * 10 ^ length s"
proof (induction s arbitrary: a)
  case (Cons c cs)
  from Cons.prems(1) have "digit_in 10 c = Some (int (byte c) - 48)" "int (byte c) - 48 \<le> 9"
    by (auto simp: digit_in_def is_digit_def between_def)
  with Cons.prems have "digits_value 10 (a * 10 + (int (byte c) - 48)) cs = Some v" by simp
  from Cons.IH [OF _ this] Cons.prems have "v < (a * 10 + (int (byte c) - 48) + 1) * 10 ^ length cs" by simp
  also have "\<dots> \<le> ((a + 1) * 10) * 10 ^ length cs"
    using \<open>int (byte c) - 48 \<le> 9\<close> by (intro mult_right_mono) auto
  finally show ?case by (simp add: algebra_simps)
qed simp

lemma num_bound: "num s = Some n \<Longrightarrow> n < 10 ^ length s"
proof -
  assume "num s = Some n"
  then obtain v where v: "list_all is_digit s" "digits_value 10 0 s = Some v" "n = nat v"
    by (auto simp: num_def split: if_splits)
  with digits_value_bound [OF v(1,2)] have "v < 10 ^ length s" by simp
  with v(3) show ?thesis by (simp add: nat_less_iff)
qed

lemma fraction_bound: "fst (fraction s) < 10 ^ 9"
proof (cases "\<exists>a b r. s = a # b # r \<and> (a = CHR ''.'' \<or> a = CHR '','') \<and> is_digit b")
  case True
  then obtain a b r where s: "s = a # b # r" "a = CHR ''.'' \<or> a = CHR '',''" "is_digit b" by blast
  define kept where "kept = take 9 (takeWhile is_digit (b # r))"
  have "kept \<noteq> []" "list_all is_digit kept" "length kept \<le> 9"
    using s(3) by (auto simp: kept_def list_all_iff dest: in_set_takeD set_takeWhileD)
  moreover from this(2) obtain v where "digits_value 10 0 kept = Some v"
    using all_digits_value by blast
  ultimately obtain n where n: "num kept = Some n" by (simp add: num_def)
  have "fst (fraction s) = n * 10 ^ (9 - length kept)"
    using s n unfolding kept_def fraction_def Let_def by auto
  also have "\<dots> < 10 ^ length kept * 10 ^ (9 - length kept)" using num_bound [OF n] by simp
  also have "\<dots> = 10 ^ 9" using \<open>length kept \<le> 9\<close> by (simp add: power_add [symmetric])
  finally show ?thesis .
next
  case False
  then have "fraction s = (0, s)" by (auto simp: fraction_def split: list.splits)
  then show ?thesis by simp
qed

lemma zone_minutes: "zone s = Some off \<Longrightarrow> 60 dvd off"
  by (auto simp: zone_def split: if_splits list.splits option.splits)

lemma parse_proper: "parse_rfc3339 s = Some t \<Longrightarrow> proper_time t"
  unfolding parse_rfc3339_def proper_time_def
  using fraction_bound zone_minutes
  by (auto simp: make_time_def split: option.splits prod.splits if_splits) (metis fst_conv)

lemma clock_time_proper: "proper_time (clock_time now)"
  by (simp add: proper_time_def clock_time_def nat_less_iff)

lemma UTC_proper: "proper_time t \<Longrightarrow> proper_time (UTC t)"
  by (simp add: proper_time_def UTC_def)

lemma digits_plain: "list_all is_digit s \<Longrightarrow> list_all plain_char s"
proof -
  have "is_digit c \<Longrightarrow> plain_char c" for c by (auto simp: is_digit_def between_def plain_char_def)
  then show "list_all is_digit s \<Longrightarrow> list_all plain_char s" by (simp add: list_all_iff)
qed

lemma format_plain: "format_rfc3339 t = Some b \<Longrightarrow> list_all plain_char b"
proof -
  have pad: "list_all plain_char (pad w n)" for w n by (rule digits_plain [OF pad_digits])
  have pun: "plain_char CHR ''-''" "plain_char CHR ''T''" "plain_char CHR '':''" "plain_char CHR ''.''"
    "plain_char CHR ''Z''" "plain_char CHR ''+''" by (simp_all add: plain_char_def)
  have "list_all plain_char (format_nano ns)" for ns
    using pad [of 9 ns] pun by (auto simp: format_nano_def list_all_iff dest: set_dropWhileD)
  moreover have "list_all plain_char (format_zone off)" for off
    using pad pun by (simp add: format_zone_def Let_def)
  moreover assume "format_rfc3339 t = Some b"
  ultimately show ?thesis
    using pad pun by (auto simp: format_rfc3339_def Let_def split: prod.splits if_splits)
qed

end
