(* ===== verification/Event_Codec.thy ===== *)
theory Event_Codec
  imports Event Json_Facts Time_Facts
begin

text \<open>
  The broker form of an event reads back: what \<^verbatim>\<open>EncodeEnvelope\<close> writes, \<^verbatim>\<open>DecodeEnvelope\<close>
  accepts, and it yields the same event with the white space of the payload dropped.  The
  theory collects what that needs of text, time and documents, and the exact meaning of the
  checks that protect the JSONB column.
\<close>

section \<open>Unicode of documents\<close>

lemma utf8_valid_split:
  "utf8_valid zs \<Longrightarrow> zs = xs @ ys \<Longrightarrow> ys = [] \<or> byte (hd ys) < 128 \<Longrightarrow> utf8_valid xs \<and> utf8_valid ys"
proof (induction arbitrary: xs rule: utf8_runes_induct)
  case (ascii c s)
  then show ?case by (cases xs) auto
next
  case (rune c s rr w)
  let ?z = "c # s"
  have high: "\<forall>b \<in> set (take w ?z). \<not> byte b < 128" and w: "w \<le> length ?z" "utf8_valid (take w ?z)"
    using rune(3) unfolding rune_at_def by fastforce+
  have "w \<le> length xs"
  proof (rule ccontr)
    assume "\<not> w \<le> length xs"
    with w(1) rune(5) obtain y ys' k where y: "ys = y # ys'" "w - length xs = Suc k"
      by (cases ys; cases "w - length xs") auto
    then have "y \<in> set (take w ?z)" using rune(5) by simp
    with high rune(6) y(1) show False by simp
  qed
  then have xs: "take w ?z = take w xs" "drop w ?z = drop w xs @ ys" using rune(5) by auto
  with rune(4) [OF xs(2) rune(6)] have "utf8_valid (drop w xs)" "utf8_valid ys" by auto
  moreover have "utf8_valid (take w xs)" using w(2) xs(1) by simp
  ultimately show ?case using utf8_valid_append [of "take w xs" "drop w xs"] by simp
qed simp

text \<open>The forms of what \<^verbatim>\<open>validUnicodeJSON\<close> lets pass after a backslash.\<close>

definition code_unit :: "bytes \<Rightarrow> int \<Rightarrow> int \<Rightarrow> bool" where
  "code_unit h lo hi \<longleftrightarrow> length h = 4 \<and> (case ParseUint h 16 16 of None \<Rightarrow> False | Some v \<Rightarrow> lo \<le> v \<and> v \<le> hi)"

definition scalar_unit :: "bytes \<Rightarrow> bool" where
  "scalar_unit h \<longleftrightarrow> code_unit h 1 55295 \<or> code_unit h 57344 65535"

lemma valid_escapes_simps:
  "c \<noteq> backslash_c \<Longrightarrow> valid_escapes (c # cs) = valid_escapes cs"
  "e \<noteq> CHR ''u'' \<Longrightarrow> valid_escapes (backslash_c # e # es) = valid_escapes es"
  "scalar_unit h \<Longrightarrow> valid_escapes (backslash_c # CHR ''u'' # h @ es) = valid_escapes es"
  "code_unit h 55296 56319 \<Longrightarrow> code_unit h' 56320 57343 \<Longrightarrow>
   valid_escapes (backslash_c # CHR ''u'' # h @ backslash_c # CHR ''u'' # h' @ es) = valid_escapes es"
  by (auto simp: scalar_unit_def code_unit_def Let_def split: option.splits)

lemma ParseUint_16: "ParseUint h 16 16 = Some v \<Longrightarrow> v \<le> 65535"
  by (auto simp: ParseUint_def split: if_splits option.splits)

lemma ParseUint_nonneg: "ParseUint h 16 b = Some v \<Longrightarrow> 0 \<le> v"
  using digits_value_nonneg [of 16 0 h v] by (auto simp: ParseUint_def split: if_splits option.splits)

lemma valid_escapes_cases:
  assumes "valid_escapes (c # cs)"
  obtains (plain) "c \<noteq> backslash_c" "valid_escapes cs"
    | (simple) e es where "c = backslash_c" "cs = e # es" "e \<noteq> CHR ''u''" "valid_escapes es"
    | (scalar) h es where "c = backslash_c" "cs = CHR ''u'' # h @ es" "scalar_unit h" "valid_escapes es"
    | (pair) h h' es where "c = backslash_c" "cs = CHR ''u'' # h @ backslash_c # CHR ''u'' # h' @ es"
        "code_unit h 55296 56319" "code_unit h' 56320 57343" "valid_escapes es"
proof (cases "c = backslash_c")
  case True
  with assms obtain e es where cs: "cs = e # es" by (cases cs) auto
  show thesis
  proof (cases "e = CHR ''u''")
    case False
    then show thesis using simple assms True cs by simp
  next
    case u: True
    define h r where "h = take 4 es" and "r = drop 4 es"
    then have es: "es = h @ r" by simp
    from assms True cs u obtain v where v: "ParseUint h 16 16 = Some v" "length h = 4" "v \<noteq> 0" "\<not> (56320 \<le> v \<and> v \<le> 57343)"
      unfolding h_def by (auto split: if_splits option.splits)
    show thesis
    proof (cases "55296 \<le> v \<and> v \<le> 56319")
      case hi: True
      define h' q where "h' = take 4 (drop 2 r)" and "q = drop 6 r"
      from assms True cs u v hi obtain lo where lo: "6 \<le> length r" "take 2 r = [backslash_c, CHR ''u'']"
        "ParseUint h' 16 16 = Some lo" "56320 \<le> lo" "lo \<le> 57343" "valid_escapes q"
        unfolding h_def r_def h'_def q_def by (auto simp: Let_def split: if_splits option.splits)
      have "drop 6 r = drop 4 (drop 2 r)" by simp
      then have "drop 2 r = h' @ q" unfolding h'_def q_def by (metis append_take_drop_id)
      moreover have "r = take 2 r @ drop 2 r" by simp
      ultimately have "r = backslash_c # CHR ''u'' # h' @ q" using lo(2) by (metis append_Cons append_Nil)
      moreover have "length h' = 4" using lo(1) by (simp add: h'_def)
      ultimately show thesis using pair [of h h' q] True cs u es v hi lo by (simp add: code_unit_def)
    next
      case False
      then have "scalar_unit h"
        using v ParseUint_16 [OF v(1)] ParseUint_nonneg [OF v(1)] by (auto simp: scalar_unit_def code_unit_def)
      moreover have "valid_escapes r"
        using assms True cs u v False unfolding h_def r_def by (auto split: if_splits option.splits)
      ultimately show thesis using scalar True cs u es by simp
    qed
  qed
qed (use assms plain in simp)

lemma valid_escapes_induct [consumes 1, case_names Nil plain simple scalar pair]:
  assumes "valid_escapes s" and "P []"
    and "\<And>c s. c \<noteq> backslash_c \<Longrightarrow> valid_escapes s \<Longrightarrow> P s \<Longrightarrow> P (c # s)"
    and "\<And>e s. e \<noteq> CHR ''u'' \<Longrightarrow> valid_escapes s \<Longrightarrow> P s \<Longrightarrow> P (backslash_c # e # s)"
    and "\<And>h s. scalar_unit h \<Longrightarrow> valid_escapes s \<Longrightarrow> P s \<Longrightarrow> P (backslash_c # CHR ''u'' # h @ s)"
    and "\<And>h h' s. code_unit h 55296 56319 \<Longrightarrow> code_unit h' 56320 57343 \<Longrightarrow> valid_escapes s \<Longrightarrow> P s \<Longrightarrow>
      P (backslash_c # CHR ''u'' # h @ backslash_c # CHR ''u'' # h' @ s)"
  shows "P s"
  using assms(1)
proof (induction s rule: length_induct)
  case (1 s)
  show ?case
  proof (cases s)
    case (Cons c cs)
    with 1(2) have "valid_escapes (c # cs)" by simp
    then show ?thesis
    proof (cases rule: valid_escapes_cases)
      case plain then show ?thesis using assms(3) 1(1) Cons by simp
    next
      case simple then show ?thesis using assms(4) 1(1) Cons by simp
    next
      case scalar then show ?thesis using assms(5) 1(1) Cons by simp
    next
      case pair then show ?thesis using assms(6) 1(1) Cons by simp
    qed
  qed (use assms(2) in simp)
qed

lemma valid_escapes_append:
  "valid_escapes xs \<Longrightarrow> valid_escapes (xs @ ys) \<longleftrightarrow> valid_escapes ys"
  by (induction rule: valid_escapes_induct) (simp_all add: valid_escapes_simps del: valid_escapes.simps(2))

lemma valid_escapes_plain: "backslash_c \<notin> set xs \<Longrightarrow> valid_escapes xs"
  by (induction xs) (auto simp: valid_escapes_simps)

lemma validUnicodeJSON_append:
  "validUnicodeJSON xs \<Longrightarrow> validUnicodeJSON (xs @ ys) \<longleftrightarrow> validUnicodeJSON ys"
  by (simp add: validUnicodeJSON_def utf8_valid_append valid_escapes_append)

lemma validUnicodeJSON_concat: "\<forall>x \<in> set xs. validUnicodeJSON x \<Longrightarrow> validUnicodeJSON (concat xs)"
  by (induction xs) (simp_all add: validUnicodeJSON_append, simp add: validUnicodeJSON_def)

lemma validUnicodeJSON_plain: "(\<And>c. c \<in> set s \<Longrightarrow> byte c < 128 \<and> c \<noteq> backslash_c) \<Longrightarrow> validUnicodeJSON s"
  unfolding validUnicodeJSON_def by (blast intro: utf8_valid_ascii valid_escapes_plain)

text \<open>The literal the lexer cuts off has complete escapes.\<close>

lemma lex_string_escapes:
  "valid_escapes s \<Longrightarrow> lex_string s = Some (b, r) \<Longrightarrow> valid_escapes b \<and> valid_escapes r"
proof (induction arbitrary: b rule: valid_escapes_induct)
  case (plain c s)
  then show ?case by (auto simp: valid_escapes_simps split: if_splits simp del: valid_escapes.simps(2))
next
  case (simple e s)
  then show ?case by (auto simp: valid_escapes_simps split: if_splits simp del: valid_escapes.simps(2))
next
  case (scalar h s)
  have l: "length h = 4" using scalar(1) by (auto simp: scalar_unit_def code_unit_def)
  with scalar(4) obtain b' where "b = backslash_c # CHR ''u'' # h @ b'" "lex_string s = Some (b', r)"
    by (auto simp: is_escape_def split: if_splits)
  with scalar(1,3) show ?case by (simp add: valid_escapes_simps del: valid_escapes.simps(2))
next
  case (pair h h' s)
  have l: "length h = 4" "length h' = 4" using pair(1,2) by (auto simp: code_unit_def)
  with pair(5) obtain b' where "b = backslash_c # CHR ''u'' # h @ backslash_c # CHR ''u'' # h' @ b'" "lex_string s = Some (b', r)"
    by (auto simp: is_escape_def split: if_splits)
  with pair(1,2,4) show ?case by (simp add: valid_escapes_simps del: valid_escapes.simps(2))
qed simp

lemma lex_token_unicode:
  assumes "lex_token s = Some (t, x, r)" "validUnicodeJSON s" "r = [] \<or> byte (hd r) < 128"
  shows "validUnicodeJSON x \<and> validUnicodeJSON r"
proof -
  have s: "s = x @ r" using lex_token_text [OF assms(1)] ..
  have utf8: "utf8_valid x" "utf8_valid r"
    using utf8_valid_split [OF _ s assms(3)] assms(2) by (simp_all add: validUnicodeJSON_def)
  have "valid_escapes x \<and> valid_escapes r"
    using assms(1)
  proof (cases rule: lex_token_cases)
    case (str cs b)
    with assms(2) have "valid_escapes cs" by (simp add: validUnicodeJSON_def valid_escapes_simps)
    from lex_string_escapes [OF this str(2)] str(4) show ?thesis
      by (simp add: valid_escapes_simps valid_escapes_append)
  next
    case (punct c)
    with assms(2) show ?thesis by (auto simp: validUnicodeJSON_def)
  next
    case word
    then have "backslash_c \<notin> set x" by auto
    from valid_escapes_append [OF valid_escapes_plain [OF this], of r] s assms(2) valid_escapes_plain [OF this]
    show ?thesis by (simp add: validUnicodeJSON_def)
  next
    case num
    have "\<not> number_char backslash_c" by (simp add: number_char_def is_digit_def between_def)
    with lex_number_chars [OF num(1)] have "backslash_c \<notin> set x" by blast
    from valid_escapes_append [OF valid_escapes_plain [OF this], of r] s assms(2) valid_escapes_plain [OF this]
    show ?thesis by (simp add: validUnicodeJSON_def)
  qed
  with utf8 show ?thesis by (simp add: validUnicodeJSON_def)
qed

definition no_bad :: "lexeme list \<Rightarrow> bool" where
  "no_bad ls \<longleftrightarrow> (\<forall>l \<in> set ls. lx_token l \<noteq> TBad)"

lemma lex_unicode:
  "validUnicodeJSON s \<Longrightarrow> no_bad (lex s) \<Longrightarrow> \<forall>l \<in> set (lex s). validUnicodeJSON (lx_text l)"
proof (induction s rule: lex.induct)
  case (1 s)
  let ?w = "takeWhile is_space s" and ?s = "dropWhile is_space s"
  show ?case
  proof (cases "?s = []")
    case True
    then show ?thesis using lex_unfold [of s] by simp
  next
    case ne: False
    have "validUnicodeJSON ?w"
      using set_takeWhileD [of _ is_space s] by (intro validUnicodeJSON_plain) (fastforce simp: is_space_def)
    with "1.prems"(1) have valid: "validUnicodeJSON ?s"
      using validUnicodeJSON_append [of ?w ?s] by simp
    obtain t x r where tok: "lex_token ?s = Some (t, x, r)"
      using "1.prems"(2) ne lex_unfold [of s]
      by (cases "lex_token ?s") (auto simp: no_bad_def simp del: dropWhile_eq_Nil_conv)
    then have lex: "lex s = \<lparr>lx_space = ?w, lx_text = x, lx_token = t\<rparr> # lex r"
      using ne lex_unfold [of s] by (simp del: dropWhile_eq_Nil_conv)
    with "1.prems"(2) have bad: "no_bad (lex r)" by (simp add: no_bad_def)
    from lex_token_unicode [OF tok valid] lex_head_ascii [of r] bad
    have x: "validUnicodeJSON x" "validUnicodeJSON r" by (auto simp: no_bad_def)
    have "\<forall>l \<in> set (lex r). validUnicodeJSON (lx_text l)"
      by (rule "1.IH" [OF refl refl ne tok refl refl x(2) bad])
    with lex x(1) show ?thesis by simp
  qed
qed

lemma compact_unicode:
  "validUnicodeJSON s \<Longrightarrow> no_bad (lex s) \<Longrightarrow> validUnicodeJSON (compact_lex (lex s))"
  unfolding compact_lex_def using lex_unicode by (intro validUnicodeJSON_concat) auto

section \<open>Compacting a payload\<close>

abbreviation strip :: "lexeme \<Rightarrow> lexeme" where
  "strip l \<equiv> l\<lparr>lx_space := []\<rparr>"

lemma json_valid_take: "json_valid raw \<Longrightarrow> take_value (lex raw) = Some (lex raw, [])"
  using take_value_append [of "lex raw"] by (auto simp: json_valid_def split: option.splits)

lemma json_valid_no_bad: "json_valid raw \<Longrightarrow> no_bad (lex raw) \<and> spaced (lex raw)"
  using take_from_spaced [of "(EValue, [])" "lex raw"] json_valid_take [of raw]
  by (auto simp: no_bad_def take_value_def)

lemma lex_compact_payload:
  assumes "json_valid raw" "(\<exists>n. lx_token (last (lex raw)) = TNumber n) \<Longrightarrow> delimited y"
  shows "lex (compact_lex (lex raw) @ y) = map strip (lex raw) @ lex y"
  using json_valid_no_bad [OF assms(1)] assms(2) lex_lexed [of _ raw]
  by (intro lex_compact) (auto simp: no_bad_def)

lemma take_value_strip: "json_valid raw \<Longrightarrow> take_value (map strip (lex raw)) = Some (map strip (lex raw), [])"
  using json_valid_take [of raw] take_from_map [of strip "(EValue, [])" "lex raw"] by (simp add: take_value_def)

lemma json_valid_compact: "json_valid raw \<Longrightarrow> json_valid (compact_lex (lex raw))"
  using lex_compact_payload [of raw "[]"] take_value_strip by (simp add: json_valid_def)

lemma lex_compact_alone: "json_valid raw \<Longrightarrow> lex (compact_lex (lex raw)) = map strip (lex raw)"
  using lex_compact_payload [of raw "[]"] by simp

lemma raw_text_strip: "raw_text (map strip ls) = compact_lex ls"
  by (cases ls) (simp_all add: compact_lex_def comp_def)

lemma validJSONB_compact: "validJSONB raw \<Longrightarrow> validJSONB (compact_lex (lex raw))"
  using compact_unicode [of raw] json_valid_no_bad [of raw]
  by (auto simp: validJSONB_def json_valid_compact lex_compact_alone comp_def)

lemma json_object_compact: "json_object raw \<Longrightarrow> json_object (compact_lex (lex raw))"
  by (auto simp: json_object_def json_valid_compact lex_compact_alone split: list.splits)

lemma walk_tokens_nested: "walk_tokens d ts \<Longrightarrow> d \<le> MaxPayloadDepth \<Longrightarrow> nested MaxPayloadDepth d ts"
  by (induction ts arbitrary: d) (auto simp: Let_def add.commute split: token.splits if_splits)

section \<open>The envelope as a document\<close>

lemma lex_punct:
  "lex (CHR ''{'' # r) = lexm TLBrace ''{'' # lex r" "lex (CHR ''}'' # r) = lexm TRBrace ''}'' # lex r"
  "lex (CHR '':'' # r) = lexm TColon '':'' # lex r" "lex (CHR '','' # r) = lexm TComma '','' # lex r"
  by (rule lex_Cons; simp add: lex_token_def is_space_def)+

lemma lex_literal: "lex_string (b @ quote_c # r) = Some (b, r) \<Longrightarrow> lex (quote_c # b @ quote_c # r) = lit_lex b # lex r"
  by (rule lex_Cons) (simp_all add: lex_token_def is_space_def)

lemma lex_quote: "utf8_valid s \<Longrightarrow> lex (quote False s @ r) = lit_lex (quote_body False s) # lex r"
  using lex_literal [OF lex_string_quote_body, of s False r] by (simp add: quote_def)

lemma lex_quoted: "list_all plain_char b \<Longrightarrow> lex (quoted b @ r) = lit_lex b # lex r"
  using lex_literal [OF lex_string_plain, of b r] by (simp add: quoted_def)

lemma lex_field:
  "list_all plain_char n \<Longrightarrow> lex (json_field n v @ r) = lit_lex n # lexm TColon '':'' # lex (v @ r)"
  using lex_literal [OF lex_string_plain, of n "CHR '':'' # v @ r"] by (simp add: json_field_def lex_punct)

lemma uuid_char_plain: "uuid_char c \<Longrightarrow> plain_char c"
  by (auto simp: uuid_char_def plain_char_def between_def)

lemma uuid_plain: "uuid_codec u \<Longrightarrow> list_all plain_char (uuid_string u x)"
  using uuid_char_plain by (auto simp: uuid_codec_def list_all_iff)

lemma plain_valid: "list_all plain_char s \<Longrightarrow> validUnicodeJSON s"
  by (rule validUnicodeJSON_plain) (auto simp: list_all_iff plain_char_def)

definition envelope_members :: "uuid_pkg \<Rightarrow> Envelope \<Rightarrow> bytes \<Rightarrow> bytes \<Rightarrow> (bytes \<times> lexeme list) list" where
  "envelope_members u e at rc =
     [(''event_id'', [lit_lex (uuid_string u (EventID e))]),
      (''event_type'', [lit_lex (quote_body False (EventType e))]),
      (''occurred_at'', [lit_lex at]),
      (''payload'', map strip (lex (Payload e))),
      (''tenant_id'', [lit_lex (quote_body False (TenantID e))]),
      (''received_at'', [lit_lex rc])]"

lemma payload_value_ok: "validJSONB raw \<Longrightarrow> value_ok (map strip (lex raw))"
  using take_value_strip [of raw] walk_tokens_nested [of 0 "map lx_token (lex raw)"]
  by (simp add: value_ok_def validJSONB_def MaxPayloadDepth_def comp_def)

lemma lex_encode_json:
  assumes "encode_json u e = Some raw" "uuid_codec u" "utf8_valid (EventType e)" "utf8_valid (TenantID e)"
  obtains at rc where "format_rfc3339 (OccurredAt e) = Some at" "format_rfc3339 (ReceivedAt e) = Some rc"
    "json_valid (Payload e)" "lex raw = object_lexemes (envelope_members u e at rc)"
proof -
  from assms(1) obtain at rc where t: "format_rfc3339 (OccurredAt e) = Some at" "format_rfc3339 (ReceivedAt e) = Some rc"
    and valid: "json_valid (Payload e)"
    and raw: "raw = ''{'' @ json_field ''event_id'' (quote False (uuid_string u (EventID e))) @ '',''
               @ json_field ''event_type'' (quote False (EventType e)) @ '',''
               @ json_field ''occurred_at'' (quoted at) @ '',''
               @ json_field ''payload'' (compact_lex (lex (Payload e))) @ '',''
               @ json_field ''tenant_id'' (quote False (TenantID e)) @ '',''
               @ json_field ''received_at'' (quoted rc) @ ''}'' @ [newline_c]"
    by (auto simp: encode_json_def split: option.splits if_splits)
  have "delimited (CHR '','' # r)" for r by (simp add: number_char_def is_digit_def between_def)
  then have pl: "lex (compact_lex (lex (Payload e)) @ CHR '','' # r) = map strip (lex (Payload e)) @ lex (CHR '','' # r)" for r
    using lex_compact_payload [OF valid] by blast
  note uid = uuid_plain [OF assms(2), of "EventID e"]
  have uidq: "quote False (uuid_string u (EventID e)) = quoted (uuid_string u (EventID e))"
    using quote_body_plain [OF uid] by (simp add: quote_def quoted_def)
  have "lex raw = object_lexemes (envelope_members u e at rc)"
    unfolding raw uidq
    using format_plain [OF t(1)] format_plain [OF t(2)] uid assms(3,4)
    by (simp add: lex_field lex_quote lex_quoted lex_punct pl lex_blank is_space_def object_lexemes_def
        envelope_members_def plain_char_def)
  with t valid show thesis by (rule that)
qed


section \<open>Reading the envelope\<close>

lemma quote_body_escapes: "utf8_valid s \<Longrightarrow> CHR 0x00 \<notin> set s \<Longrightarrow> valid_escapes (quote_body html s)"
proof (induction rule: utf8_runes_induct)
  case (ascii c s)
  have "valid_escapes (quote_ascii html c)"
    using ascii(1)
  proof (cases rule: quote_ascii_cases [of c html])
    case unit
    have "byte c \<noteq> 0" using ascii(4) byte_eqI [of c "CHR 0x00"] by auto
    moreover have "int (byte c div 16) * 16 + int (byte c mod 16) = int (byte c)"
      by (metis div_mult_mod_eq of_nat_add of_nat_mult of_nat_numeral)
    ultimately have "scalar_unit [CHR ''0'', CHR ''0'', hex_digit (byte c div 16), hex_digit (byte c mod 16)]"
      using hex_digit_low [of "byte c div 16"] hex_digit_low [of "byte c mod 16"] ascii(1)
      by (simp add: scalar_unit_def code_unit_def ParseUint_def digit_in_def [of 16 "CHR ''0''"] between_def)
    from valid_escapes_simps(3) [OF this, of "[]"] unit show ?thesis by simp
  qed (simp_all add: valid_escapes_simps)
  with ascii show ?case by (simp add: valid_escapes_append)
next
  case (rune c s rr w)
  have "valid_escapes (rune_text rr (take w (c # s)))"
  proof (cases "rr = 8232 \<or> rr = 8233")
    case True
    then have "scalar_unit (''202'' @ [hex_digit (rr mod 16)])"
      by (auto simp: hex_89 scalar_unit_def code_unit_def ParseUint_def digit_in_def between_def)
    from valid_escapes_simps(3) [OF this, of "[]"] True show ?thesis by (simp add: rune_text_def)
  next
    case False
    have "\<forall>b \<in> set (take w (c # s)). 128 \<le> byte b" using rune(3) unfolding rune_at_def by blast
    then have "backslash_c \<notin> set (take w (c # s))" by force
    with False show ?thesis using valid_escapes_plain by (simp add: rune_text_def)
  qed
  moreover have "valid_escapes (quote_body html (drop w (c # s)))"
    using rune(4,5) in_set_dropD by metis
  ultimately show ?case
    by (simp only: quote_body_rune [OF rune(1,2,3)] valid_escapes_append)
qed simp

lemma quote_valid: "validText s \<Longrightarrow> validUnicodeJSON (quote html s)"
  using quote_body_escapes [of s html] utf8_valid_quote_body [of s html]
  by (simp add: validText_def validUnicodeJSON_def quote_def valid_escapes_simps valid_escapes_append utf8_valid_append)

lemma quoted_valid: "list_all plain_char b \<Longrightarrow> validUnicodeJSON (quoted b)"
  using plain_valid [of b]
  by (simp add: quoted_def validUnicodeJSON_def valid_escapes_simps valid_escapes_append utf8_valid_append)

lemma json_field_valid: "list_all plain_char n \<Longrightarrow> validUnicodeJSON v \<Longrightarrow> validUnicodeJSON (json_field n v)"
  using plain_valid [of n]
  by (simp add: json_field_def validUnicodeJSON_def valid_escapes_simps valid_escapes_append utf8_valid_append)


lemma encode_json_valid:
  assumes "encode_json u e = Some raw" "uuid_codec u" "validText (EventType e)" "validText (TenantID e)"
    "validUnicodeJSON (Payload e)"
  shows "validUnicodeJSON raw"
proof -
  have payload: "validUnicodeJSON (compact_lex (lex (Payload e)))" if "json_valid (Payload e)"
    using compact_unicode [OF assms(5)] json_valid_no_bad [OF that] by simp
  have punct: "validUnicodeJSON ''{''" "validUnicodeJSON ''}''" "validUnicodeJSON '',''" "validUnicodeJSON [newline_c]"
    by (simp_all add: validUnicodeJSON_def)
  have "quote False (uuid_string u (EventID e)) = quoted (uuid_string u (EventID e))"
    using quote_body_plain [OF uuid_plain [OF assms(2)]] by (simp add: quote_def quoted_def)
  then have uid: "validUnicodeJSON (quote False (uuid_string u (EventID e)))"
    using quoted_valid uuid_plain [OF assms(2)] by simp
  have names: "list_all plain_char n" if "n \<in> set envelope_fields" for n
    using that by (auto simp: envelope_fields_def input_fields_def plain_char_def)
  note fields = json_field_valid [OF names, unfolded envelope_fields_def input_fields_def]
  from assms(1) show ?thesis
    by (auto simp: encode_json_def punct fields payload uid quoted_valid format_plain quote_valid assms(3,4)
        validUnicodeJSON_append simp del: append.simps split: option.splits if_splits)
qed


text \<open>The event the consumer sees: same data, the payload without white space, the receipt in UTC.\<close>

definition as_read :: "Envelope \<Rightarrow> Envelope" where
  "as_read e = e\<lparr>Payload := compact_lex (lex (Payload e)), ReceivedAt := UTC (ReceivedAt e)\<rparr>"

lemma Accept_ok:
  "(\<exists>r. Accept i tenant received = Inr r) \<longleftrightarrow> validate i = None \<and> ValidTenant tenant \<and> \<not> IsZero received"
  by (auto simp: Accept_def split: option.splits)

lemma validate_ok:
  "validate i = None \<longleftrightarrow>
   EventID i \<noteq> uuid_Nil \<and> EventType i \<noteq> [] \<and> length (EventType i) \<le> 128 \<and> validText (EventType i) \<and>
   \<not> IsZero (OccurredAt i) \<and> json_object (Payload i) \<and> validJSONB (Payload i)"
  by (auto simp: validate_def)

lemma decode_members:
  assumes "uuid_codec u" "utf8_valid (EventType e)" "utf8_valid (TenantID e)"
    and "parse_rfc3339 at = Some (OccurredAt e)" "parse_rfc3339 rc = Some (ReceivedAt e)"
  shows "set_members envelope_fields (set_envelope u) (envelope_members u e at rc) zero_envelope =
     Some (e\<lparr>Payload := compact_lex (lex (Payload e))\<rparr>)"
proof -
  have id: "uuid_parse u (unquote (uuid_string u (EventID e))) = Some (EventID e)"
    using assms(1) uuid_plain [OF assms(1)] by (simp add: unquote_plain uuid_codec_def)
  show ?thesis
    unfolding envelope_members_def using id assms
    by (cases e)
       (simp add: field_of_def envelope_fields_def input_fields_def set_envelope_def set_input_def json_uuid_def json_string_def
         json_time_def unquote_quote_body raw_text_strip zero_envelope_def zero_input_def Input.defs)
qed


lemma envelope_roundtrip:
  assumes "uuid_codec u" "EncodeEnvelope u e = Inr raw" "proper_time (OccurredAt e)" "proper_time (ReceivedAt e)"
  shows "DecodeEnvelope u raw = Inr (as_read e)"
proof -
  let ?e = "e\<lparr>Payload := compact_lex (lex (Payload e))\<rparr>"
  from assms(2) have enc: "encode_json u e = Some raw" and size: "int (length raw) \<le> MaxEnvelopeBytes"
    and acc: "\<exists>r. Accept (Input.truncate e) (TenantID e) (ReceivedAt e) = Inr r"
    by (auto simp: EncodeEnvelope_def split: sum.splits option.splits if_splits)
  from acc have ok: "validate (Input.truncate e) = None" "ValidTenant (TenantID e)" "\<not> IsZero (ReceivedAt e)"
    by (simp_all add: Accept_ok)
  then have v: "validText (EventType e)" "validText (TenantID e)" "json_object (Payload e)" "validJSONB (Payload e)"
    by (simp_all add: validate_ok ValidTenant_def Input.defs)
  then have utf8: "utf8_valid (EventType e)" "utf8_valid (TenantID e)" "validUnicodeJSON (Payload e)"
    by (simp_all add: validText_def validJSONB_def)
  from lex_encode_json [OF enc assms(1) utf8(1,2)] obtain at rc where
    t: "format_rfc3339 (OccurredAt e) = Some at" "format_rfc3339 (ReceivedAt e) = Some rc"
    and lex: "lex raw = object_lexemes (envelope_members u e at rc)" by blast
  let ?ms = "envelope_members u e at rc"
  have ms: "?ms \<noteq> []" "\<forall>m \<in> set ?ms. value_ok (snd m)"
    using payload_value_ok [OF v(4)] by (simp_all add: envelope_members_def)
  have "set_members envelope_fields (set_envelope u) ?ms zero_envelope = Some ?e"
    using parse_format_rfc3339 t assms(3,4) by (intro decode_members assms(1) utf8) auto
  then have "decode_struct envelope_fields (set_envelope u) zero_envelope (lex raw) = Some ?e"
    using object_lexemes_read(2) [OF ms] lex
    by (simp add: decode_struct_def object_lexemes_def)
  then have "decode envelope_fields (set_envelope u) zero_envelope raw MaxEnvelopeBytes = Inr ?e"
    using size encode_json_valid [OF enc assms(1) v(1,2) utf8(3)] object_lexemes_read(1) [OF ms] lex
    by (simp add: decode_def)
  moreover have "validate (Input.truncate ?e) = None"
    using ok(1) json_object_compact [OF v(3)] validJSONB_compact [OF v(4)]
    by (simp add: validate_ok Input.defs)
  ultimately show ?thesis
    using ok(2,3) by (cases e) (simp add: DecodeEnvelope_def Accept_def as_read_def Input.defs)
qed

section \<open>Text inside payloads\<close>

lemma encode_rune_scalar:
  assumes "r \<le> 1114111" "\<not> (55296 \<le> r \<and> r \<le> 57343)"
  shows "utf8_valid (encode_rune r) \<and> (r \<noteq> 0 \<longrightarrow> CHR 0x00 \<notin> set (encode_rune r))"
proof -
  have null: "byte CHR 0x00 = 0" by simp
  have nz: "CHR 0x00 \<notin> set s" if "\<forall>c \<in> set s. byte c \<noteq> 0" for s using that null by blast
  consider "r < 128" | "128 \<le> r" "r < 2048" | "2048 \<le> r" "r < 65536" | "65536 \<le> r" by linarith
  then show ?thesis
  proof cases
    case 1
    then have "encode_rune r = [char_of r]" by (simp add: encode_rune_def)
    then show ?thesis using 1 nz [of "[char_of r]"] by auto
  next
    case 2
    then have e: "encode_rune r = [char_of (192 + r div 64), char_of (128 + r mod 64)]" by (simp add: encode_rune_def)
    have "2 \<le> r div 64" "r div 64 < 32" using 2 by auto
    then show ?thesis using nz [of "encode_rune r"] unfolding e by (auto simp: between_def cont_def)
  next
    case 3
    define x y where "x = r div 4096" and "y = r div 64 mod 64"
    have e: "encode_rune r = [char_of (224 + x), char_of (128 + y), char_of (128 + r mod 64)]"
      using 3 assms by (auto simp: encode_rune_def x_def y_def)
    define q where "q = r div 64"
    have q: "q = x * 64 + y" "y < 64" unfolding x_def y_def q_def using div_mult2_eq [of r 64 64] by simp_all
    have "32 \<le> q" "q < 1024" using 3 by (auto simp: q_def)
    moreover have "\<not> (864 \<le> q \<and> q < 896)" using assms(2) unfolding q_def by linarith
    ultimately have "x < 16" "y < 64" "x = 0 \<Longrightarrow> 32 \<le> y" "x = 13 \<Longrightarrow> y < 32" using q by linarith+
    then show ?thesis using nz [of "encode_rune r"] unfolding e by (auto simp: between_def cont_def second3_def)
  next
    case 4
    define x y where "x = r div 262144" and "y = r div 4096 mod 64"
    have e: "encode_rune r = [char_of (240 + x), char_of (128 + y), char_of (128 + r div 64 mod 64), char_of (128 + r mod 64)]"
      using 4 assms by (auto simp: encode_rune_def x_def y_def)
    define q where "q = r div 4096"
    have q: "q = x * 64 + y" "y < 64" unfolding x_def y_def q_def using div_mult2_eq [of r 4096 64] by simp_all
    have "16 \<le> q" "q < 272" using 4 assms(1) by (auto simp: q_def)
    then have "x \<le> 4" "y < 64" "x = 0 \<Longrightarrow> 16 \<le> y" "x = 4 \<Longrightarrow> y < 16" using q by linarith+
    then show ?thesis using nz [of "encode_rune r"] unfolding e by (auto simp: between_def cont_def second4_def)
  qed
qed


definition literal :: "bytes \<Rightarrow> bool" where
  "literal b \<longleftrightarrow> lex_string (b @ [quote_c]) = Some (b, [])"

lemma literal_simps:
  "c \<noteq> backslash_c \<Longrightarrow> literal (c # s) \<longleftrightarrow> c \<noteq> quote_c \<and> 32 \<le> byte c \<and> literal s"
  "e \<noteq> CHR ''u'' \<Longrightarrow> literal (backslash_c # e # s) \<longleftrightarrow> is_escape e \<and> literal s"
  "length h = 4 \<Longrightarrow> literal (backslash_c # CHR ''u'' # h @ s) \<longleftrightarrow> hex4 h \<and> literal s"
proof -
  show "c \<noteq> backslash_c \<Longrightarrow> literal (c # s) \<longleftrightarrow> c \<noteq> quote_c \<and> 32 \<le> byte c \<and> literal s"
    by (auto simp: literal_def)
  show "e \<noteq> CHR ''u'' \<Longrightarrow> literal (backslash_c # e # s) \<longleftrightarrow> is_escape e \<and> literal s"
    by (auto simp: literal_def)
  show "length h = 4 \<Longrightarrow> literal (backslash_c # CHR ''u'' # h @ s) \<longleftrightarrow> hex4 h \<and> literal s"
    by (auto simp: literal_def hex4_def is_escape_def)
qed

lemma code_unit_value:
  assumes "code_unit h lo hi"
  obtains v where "length h = 4" "hex_value h = nat v" "0 \<le> v" "lo \<le> v" "v \<le> hi" "v \<le> 65535"
proof -
  from assms obtain v where v: "length h = 4" "ParseUint h 16 16 = Some v" "lo \<le> v" "v \<le> hi"
    by (auto simp: code_unit_def split: option.splits)
  have "v \<le> 65535" "0 \<le> v" using ParseUint_16 [OF v(2)] ParseUint_nonneg [OF v(2)] by auto
  moreover from v(2) this have "ParseUint h 16 64 = Some v" by (auto simp: ParseUint_def split: if_splits option.splits)
  then have "hex_value h = nat v" by (simp add: hex_value_def)
  ultimately show thesis using that v by blast
qed

lemma validText_append: "validText xs \<Longrightarrow> validText ys \<Longrightarrow> validText (xs @ ys)"
  by (auto simp: validText_def utf8_valid_append)

lemma encode_rune_validText: "r \<noteq> 0 \<Longrightarrow> r \<le> 1114111 \<Longrightarrow> \<not> (55296 \<le> r \<and> r \<le> 57343) \<Longrightarrow> validText (encode_rune r)"
  using encode_rune_scalar [of r] by (auto simp: validText_def)

lemma hex_chars_ascii: "hex4 h \<Longrightarrow> length h = 4 \<Longrightarrow> utf8_valid (h @ s) = utf8_valid s"
proof -
  assume h: "hex4 h" "length h = 4"
  have "is_hex c \<Longrightarrow> byte c < 128" for c by (auto simp: is_hex_def between_def)
  with h have "utf8_valid h" by (intro utf8_valid_ascii) (auto simp: hex4_def list_all_iff)
  then show ?thesis by (rule utf8_valid_append)
qed

lemma unquote_scalar:
  assumes "scalar_unit h"
  obtains r where "unquote (backslash_c # CHR ''u'' # h @ s) = encode_rune r @ unquote s"
    "r \<noteq> 0" "r \<le> 1114111" "\<not> (55296 \<le> r \<and> r \<le> 57343)" "length h = 4"
proof -
  obtain v where v: "length h = 4" "hex_value h = nat v" "0 < v" "v \<le> 65535" "\<not> (55296 \<le> v \<and> v \<le> 57343)"
    using assms unfolding scalar_unit_def by (elim disjE code_unit_value) auto
  then have "\<not> is_high (nat v)" "\<not> is_surrogate (nat v)" by (auto simp: is_high_def is_surrogate_def)
  with v have "unquote (backslash_c # CHR ''u'' # h @ s) = encode_rune (nat v) @ unquote s" by (simp add: Let_def)
  then show thesis by (rule that) (use v in auto)
qed

lemma unquote_pair:
  assumes "code_unit h 55296 56319" "code_unit h' 56320 57343" "hex4 h'"
  obtains r where "unquote (backslash_c # CHR ''u'' # h @ backslash_c # CHR ''u'' # h' @ s) = encode_rune r @ unquote s"
    "r \<noteq> 0" "r \<le> 1114111" "\<not> (55296 \<le> r \<and> r \<le> 57343)"
proof -
  obtain v where v: "length h = 4" "hex_value h = nat v" "55296 \<le> v" "v \<le> 56319"
    using assms(1) by (auto elim: code_unit_value)
  obtain l where l: "length h' = 4" "hex_value h' = nat l" "56320 \<le> l" "l \<le> 57343"
    using assms(2) by (auto elim: code_unit_value)
  let ?r = "pair_value (nat v) (nat l)"
  have "65536 \<le> ?r" "?r \<le> 1114111" using v l by (auto simp: pair_value_def)
  moreover have "is_high (nat v)" "is_low (nat l)" using v l by (auto simp: is_high_def is_low_def)
  moreover have "next_u (backslash_c # CHR ''u'' # h' @ s) = Some (nat l)"
    using l assms(3) by (simp add: next_u_def hex4_def)
  ultimately have "unquote (backslash_c # CHR ''u'' # h @ backslash_c # CHR ''u'' # h' @ s) = encode_rune ?r @ unquote s"
    using v l by (simp add: Let_def)
  then show thesis by (rule that) (use \<open>65536 \<le> ?r\<close> \<open>?r \<le> 1114111\<close> in auto)
qed

lemma simple_escape_valid: "is_escape e \<Longrightarrow> byte e < 128 \<and> validText [simple_escape e]"
  unfolding is_escape_def by (elim insertE emptyE) (simp_all add: simple_escape_def validText_def)

lemma literal_high: "\<forall>c \<in> set t. 128 \<le> byte c \<Longrightarrow> literal (t @ s) \<longleftrightarrow> literal s"
  using lex_string_high [of t "s @ [quote_c]"] by (auto simp: literal_def)

lemma valid_escapes_high: "\<forall>c \<in> set t. 128 \<le> byte c \<Longrightarrow> valid_escapes (t @ s) \<longleftrightarrow> valid_escapes s"
proof -
  assume "\<forall>c \<in> set t. 128 \<le> byte c"
  then have "backslash_c \<notin> set t" by force
  then show ?thesis by (intro valid_escapes_append valid_escapes_plain)
qed

lemma unquote_validText:
  "utf8_valid b \<Longrightarrow> valid_escapes b \<Longrightarrow> literal b \<Longrightarrow> validText (unquote b)"
proof (induction b rule: length_induct)
  case (1 b)
  show ?case
  proof (cases b)
    case Nil
    then show ?thesis by (simp add: validText_def)
  next
    case (Cons c cs)
    from 1(3) Cons have "valid_escapes (c # cs)" by simp
    then show ?thesis
    proof (cases rule: valid_escapes_cases)
      case (simple e es)
      then have e: "is_escape e" "literal es" using 1(4) Cons literal_simps(2) by auto
      note esc = simple_escape_valid [OF e(1)]
      have "validText (unquote es)" using 1(1,2) Cons simple e esc by simp
      then show ?thesis using Cons simple validText_append [of "[simple_escape e]"] esc by simp
    next
      case (scalar h es)
      from unquote_scalar [OF scalar(3), of es] obtain r where
        r: "unquote (backslash_c # CHR ''u'' # h @ es) = encode_rune r @ unquote es" "validText (encode_rune r)" "length h = 4"
        using encode_rune_validText by metis
      then have "hex4 h" "literal es" using 1(4) Cons scalar literal_simps(3) by auto
      then have "validText (unquote es)" using 1(1,2) Cons scalar r(3) hex_chars_ascii [of h es] by simp
      with r Cons scalar show ?thesis using validText_append by simp
    next
      case (pair h h' es)
      have len: "length h = 4" "length h' = 4" using pair by (auto simp: code_unit_def)
      then have hex: "hex4 h" "hex4 h'" "literal es" using 1(4) Cons pair literal_simps(3) by auto
      from unquote_pair [OF pair(3,4) hex(2), of es] obtain r where
        r: "unquote (backslash_c # CHR ''u'' # h @ backslash_c # CHR ''u'' # h' @ es) = encode_rune r @ unquote es"
          "validText (encode_rune r)"
        using encode_rune_validText by metis
      have "validText (unquote es)"
        using 1(1,2) Cons pair len hex hex_chars_ascii [OF hex(1) len(1)] hex_chars_ascii [OF hex(2) len(2)] by simp
      with r Cons pair show ?thesis using validText_append by simp
    next
      case plain
      then have c: "c \<noteq> quote_c" "32 \<le> byte c" "literal cs" using 1(4) Cons literal_simps(1) by auto
      show ?thesis
      proof (cases "byte c < 128")
        case True
        have "validText [c]" using True c by (auto simp: validText_def)
        moreover have "validText (unquote cs)" using 1(1,2) Cons c plain True by simp
        ultimately show ?thesis using Cons plain True validText_append [of "[c]"] by simp
      next
        case False
        from decode_rune_valid [of c cs] 1(2) Cons False obtain rr w where
          rw: "decode_rune (c # cs) = (rr, w)" "rune_at rr w (c # cs)" by blast
        then have hi: "\<forall>b \<in> set (take w (c # cs)). 128 \<le> byte b" "utf8_valid (take w (c # cs))"
          "utf8_valid (drop w (c # cs))" "2 \<le> w" unfolding rune_at_def by blast+
        have split: "take w (c # cs) @ drop w (c # cs) = b" using Cons by simp
        then have "literal (drop w (c # cs))" "valid_escapes (drop w (c # cs))"
          using literal_high [OF hi(1)] valid_escapes_high [OF hi(1)] 1(3,4) by metis+
        with 1(1) hi Cons have "validText (unquote (drop w (c # cs)))" by auto
        moreover have "validText (take w (c # cs))" using hi by (force simp: validText_def)
        ultimately show ?thesis using unquote_rune [OF rw(2), of "drop w (c # cs)"] split validText_append by metis
      qed
    qed
  qed
qed

end
