(* ===== verification/Event_Contract.thy ===== *)
theory Event_Contract
  imports Event_Codec Complex_Main
begin

text \<open>
  What the checks of \<^verbatim>\<open>internal/event\<close> guarantee: which numbers pass, what an accepted payload
  holds, what a batch decodes to, that an accepted event fits into a broker record, and that
  the consumer reads back what the API wrote.
\<close>

section \<open>Numbers inside payloads\<close>

text \<open>
  The decimal a JSON number stands for, without its sign: a coefficient and a scale, as
  PostgreSQL keeps a numeric.  The exponent is unbounded here.
\<close>

definition mantissa :: "bytes \<Rightarrow> bytes" where
  "mantissa n = takeWhile (\<lambda>c. \<not> is_e c) n"

definition coefficient :: "bytes \<Rightarrow> int" where
  "coefficient n = the (digits_value 10 0 (filter is_digit (mantissa n)))"

definition exponent_of :: "bytes \<Rightarrow> int" where
  "exponent_of n =
     (case dropWhile (\<lambda>c. \<not> is_e c) n of [] \<Rightarrow> 0
      | _ # x \<Rightarrow> (if hd x = CHR ''-'' then -1 else 1) * the (digits_value 10 0 (filter is_digit x)))"

definition scale_of :: "bytes \<Rightarrow> int" where
  "scale_of n = int (length (drop 1 (dropWhile (\<lambda>c. c \<noteq> CHR ''.'') (mantissa n)))) - exponent_of n"

definition magnitude :: "bytes \<Rightarrow> rat" where
  "magnitude n = of_int (coefficient n) * 10 powi (- scale_of n)"

definition pg_integer_digits :: nat where "pg_integer_digits = 131072"
definition pg_scale :: int where "pg_scale = 16383"

lemma digits_value_strip:
  "digits_value 10 0 ds = digits_value 10 0 (dropWhile (\<lambda>c. c = CHR ''0'') ds)"
  by (induction ds) (simp_all add: digit_in_def between_def)

lemma digits_value_lower:
  "list_all is_digit ds \<Longrightarrow> digits_value 10 a ds = Some v \<Longrightarrow> 0 \<le> a \<Longrightarrow> a * 10 ^ length ds \<le> v"
proof (induction ds arbitrary: a)
  case (Cons c cs)
  from Cons.prems(1) have d: "digit_in 10 c = Some (int (byte c) - 48)" "0 \<le> int (byte c) - 48"
    by (auto simp: digit_in_def is_digit_def between_def)
  with Cons.prems have "digits_value 10 (a * 10 + (int (byte c) - 48)) cs = Some v" by simp
  from Cons.IH [OF _ this] Cons.prems d have "(a * 10 + (int (byte c) - 48)) * 10 ^ length cs \<le> v" by simp
  moreover have "a * 10 * 10 ^ length cs \<le> (a * 10 + (int (byte c) - 48)) * 10 ^ length cs"
    using d by (intro mult_right_mono) auto
  ultimately have "a * 10 * 10 ^ length cs \<le> v" by linarith
  then show ?case by (simp add: mult.assoc)
qed simp

lemma coefficient_bounds:
  assumes "list_all is_digit ds" "digits_value 10 0 ds = Some c"
    and "k = length (dropWhile (\<lambda>c. c = CHR ''0'') ds)"
  shows "c < 10 ^ k \<and> (c \<noteq> 0 \<longrightarrow> 0 < k \<and> 10 ^ (k - 1) \<le> c) \<and> (k = 0 \<longrightarrow> c = 0)"
proof -
  define t where "t = dropWhile (\<lambda>c. c = CHR ''0'') ds"
  have s: "list_all is_digit t" using assms(1) by (auto simp: t_def list_all_iff dest: set_dropWhileD)
  have k: "k = length t" using assms(3) by (simp add: t_def)
  have v: "digits_value 10 0 t = Some c" using assms(2) digits_value_strip by (simp add: t_def)
  have up: "c < 10 ^ k" using digits_value_bound [OF s v] k by simp
  show ?thesis
  proof (cases t)
    case Nil
    then show ?thesis using v k by simp
  next
    case (Cons d r)
    have "d \<noteq> CHR ''0''" using Cons unfolding t_def by (metis (mono_tags, lifting) hd_dropWhile list.discI list.sel(1))
    then have "byte d \<noteq> 48" using byte_eqI [of d "CHR ''0''"] by auto
    moreover have "is_digit d" using s Cons by simp
    ultimately have "48 < byte d" "byte d \<le> 57" by (simp_all add: is_digit_def between_def)
    then have d: "digit_in 10 d = Some (int (byte d) - 48)" "1 \<le> int (byte d) - 48"
      by (simp_all add: digit_in_def between_def)
    then have "digits_value 10 (int (byte d) - 48) r = Some c" using v Cons by simp
    from digits_value_lower [OF _ this] s Cons d have "(int (byte d) - 48) * 10 ^ length r \<le> c" by simp
    moreover have "1 * 10 ^ length r \<le> (int (byte d) - 48) * 10 ^ length r" using d by (intro mult_right_mono) auto
    ultimately have "10 ^ length r \<le> c" by linarith
    then show ?thesis using up k Cons by simp
  qed
qed

lemma power_ten_bounds:
  assumes "0 < c" "c < 10 ^ k" "10 ^ (k - 1) \<le> c" "0 < k"
  shows "of_int c * 10 powi (- s) < (10 :: rat) ^ W \<longleftrightarrow> int k - s \<le> int W"
proof -
  have "(of_int c :: rat) < of_int (10 ^ k)" using assms(2) by (simp only: of_int_less_iff)
  moreover have "(of_int (10 ^ (k - 1)) :: rat) \<le> of_int c" using assms(3) by (simp only: of_int_le_iff)
  moreover have "int k - 1 = int (k - 1)" using assms(4) by simp
  ultimately have c: "(of_int c :: rat) < 10 powi int k" "10 powi (int k - 1) \<le> (of_int c :: rat)"
    by (simp_all only: power_int_of_nat of_int_power of_int_numeral)
  have pos: "0 < (10 :: rat) powi (- s)" by simp
  show ?thesis
  proof
    assume small: "of_int c * 10 powi (- s) < (10 :: rat) ^ W"
    show "int k - s \<le> int W"
    proof (rule ccontr)
      assume "\<not> int k - s \<le> int W"
      then have "(10 :: rat) powi (int W) \<le> 10 powi (int k - 1 + - s)" by (intro power_int_increasing) auto
      also have "\<dots> = 10 powi (int k - 1) * 10 powi (- s)" by (rule power_int_add) simp
      also have "\<dots> \<le> of_int c * 10 powi (- s)" using c(2) pos by (intro mult_right_mono) auto
      finally show False using small by simp
    qed
  next
    assume le: "int k - s \<le> int W"
    have "of_int c * 10 powi (- s) < (10 :: rat) powi int k * 10 powi (- s)"
      using c(1) pos by (intro mult_strict_right_mono)
    also have "\<dots> = 10 powi (int k + - s)" by (rule power_int_add [symmetric]) simp
    also have "\<dots> \<le> 10 powi (int W)" using le by (intro power_int_increasing) auto
    finally show "of_int c * 10 powi (- s) < (10 :: rat) ^ W" by simp
  qed
qed


text \<open>The parts of a JSON number: sign, whole digits, fraction digits, exponent.\<close>

definition number_form :: "bytes \<Rightarrow> bytes \<Rightarrow> bytes \<Rightarrow> bytes \<Rightarrow> bytes \<Rightarrow> bytes \<Rightarrow> bool" where
  "number_form n sg i f fd x \<longleftrightarrow>
     n = sg @ i @ f @ x \<and> (sg = [] \<or> sg = ''-'') \<and> i \<noteq> [] \<and> list_all is_digit i \<and>
     (f = [] \<and> fd = [] \<or> f = CHR ''.'' # fd) \<and> list_all is_digit fd \<and>
     (x = [] \<or> (\<exists>c esg es. x = c # esg @ es \<and> is_e c \<and> esg \<in> {[], ''+'', ''-''} \<and> es \<noteq> [] \<and> list_all is_digit es))"

lemma lex_int_shape: "lex_int s = Some (i, r) \<Longrightarrow> i \<noteq> [] \<and> list_all is_digit i"
  by (auto simp: lex_int_def span_while_def list_all_iff split: list.splits if_splits dest: set_takeWhileD)
     (simp add: is_digit_def between_def)

lemma lex_frac_shape: "lex_frac s = Some (f, r) \<Longrightarrow> \<exists>fd. (f = [] \<and> fd = [] \<or> f = CHR ''.'' # fd) \<and> list_all is_digit fd"
  by (auto simp: lex_frac_def span_while_def list_all_iff split: list.splits if_splits dest: set_takeWhileD)

lemma lex_exp_shape:
  assumes "lex_exp s = Some (x, r)"
  shows "x = [] \<or> (\<exists>c esg es. x = c # esg @ es \<and> is_e c \<and> esg \<in> {[], ''+'', ''-''} \<and> es \<noteq> [] \<and> list_all is_digit es)"
proof -
  show ?thesis
  proof (cases "\<exists>c cs. s = c # cs \<and> is_e c")
    case True
    then obtain c cs where s: "s = c # cs" "is_e c" by blast
    define q where "q = (case cs of d # ds \<Rightarrow> if d = CHR ''+'' \<or> d = CHR ''-'' then ([d], ds) else ([], cs) | [] \<Rightarrow> ([], []))"
    obtain g r0 where q: "q = (g, r0)" by (cases q)
    then have g: "g \<in> {[], ''+'', ''-''}" by (auto simp: q_def split: list.splits if_splits)
    have "lex_exp s = (if takeWhile is_digit r0 = [] then None
        else Some (c # g @ takeWhile is_digit r0, dropWhile is_digit r0))"
      using s q by (simp add: lex_exp_def is_e_def span_while_def q_def)
    then have "x = c # g @ takeWhile is_digit r0" "takeWhile is_digit r0 \<noteq> []"
      using assms by (simp_all split: if_splits)
    moreover have "list_all is_digit (takeWhile is_digit r0)" by (auto simp: list_all_iff dest: set_takeWhileD)
    ultimately show ?thesis using s(2) g by blast
  next
    case False
    then have "x = []" using assms by (cases s) (auto simp: lex_exp_def is_e_def split: if_splits)
    then show ?thesis ..
  qed
qed

lemma number_form_exists:
  assumes "lex_number s = Some (n, r)"
  obtains sg i f fd x where "number_form n sg i f fd x"
proof -
  from lex_number_parts [OF assms] obtain sg s1 i s2 f s3 x where
    p: "lex_int s1 = Some (i, s2)" "lex_frac s2 = Some (f, s3)" "lex_exp s3 = Some (x, r)" "n = sg @ i @ f @ x"
      "sg = [] \<or> sg = ''-''" .
  from lex_frac_shape [OF p(2)] obtain fd where fd: "f = [] \<and> fd = [] \<or> f = CHR ''.'' # fd" "list_all is_digit fd" by blast
  have "number_form n sg i f fd x"
    unfolding number_form_def using p(4,5) fd lex_int_shape [OF p(1)] lex_exp_shape [OF p(3)] by blast
  then show thesis by (rule that)
qed


lemma digit_not: "is_digit c \<Longrightarrow> \<not> is_e c \<and> c \<noteq> CHR ''.'' \<and> c \<noteq> CHR ''-'' \<and> c \<noteq> CHR ''+''"
  by (auto simp: is_digit_def between_def is_e_def)

lemma digits_not: "list_all is_digit ds \<Longrightarrow> c \<in> set ds \<Longrightarrow> \<not> is_e c \<and> c \<noteq> CHR ''.'' \<and> c \<noteq> CHR ''-'' \<and> is_digit c"
  using digit_not by (auto simp: list_all_iff)

text \<open>What the definitions of the decimal and of the check see of the parts.\<close>

lemma number_form_parts:
  assumes "number_form n sg i f fd x"
  shows "TrimPrefix n ''-'' = i @ f @ x" "mantissa n = sg @ i @ f" "dropWhile (\<lambda>c. \<not> is_e c) n = x"
    "takeWhile (\<lambda>c. \<not> is_e c) (i @ f @ x) = i @ f" "dropWhile (\<lambda>c. \<not> is_e c) (i @ f @ x) = x"
    "filter is_digit (sg @ i @ f) = i @ fd" "filter (\<lambda>c. c \<noteq> CHR ''.'') (i @ f) = i @ fd"
    "takeWhile (\<lambda>c. c \<noteq> CHR ''.'') (i @ f) = i" "drop 1 (dropWhile (\<lambda>c. c \<noteq> CHR ''.'') (sg @ i @ f)) = fd"
    "(if CHR ''.'' \<in> set (i @ f) then length (i @ f) - length i - 1 else 0) = length fd"
proof -
  have n: "n = sg @ i @ f @ x" and sg: "sg = [] \<or> sg = ''-''" and i: "i \<noteq> []" "list_all is_digit i"
    and f: "f = [] \<and> fd = [] \<or> f = CHR ''.'' # fd" "list_all is_digit fd"
    and x: "x = [] \<or> is_e (hd x)"
    using assms unfolding number_form_def by auto
  note di = digits_not [OF i(2)] and df = digits_not [OF f(2)]
  have "\<not> is_e CHR ''.''" "\<not> is_e CHR ''-''" by (simp_all add: is_e_def)
  moreover have "set (sg @ i @ f) \<subseteq> insert CHR ''-'' (insert CHR ''.'' (set i \<union> set fd))" using sg f(1) by auto
  ultimately have no_e: "\<not> is_e c" if "c \<in> set (sg @ i @ f)" for c using that di df by blast
  obtain d ds where d: "i = d # ds" "d \<noteq> CHR ''-''" using i di by (cases i) auto
  show "TrimPrefix n ''-'' = i @ f @ x" using sg d by (auto simp: n TrimPrefix_def HasPrefix_def)
  have span: "takeWhile (\<lambda>c. \<not> is_e c) (s @ x) = s" "dropWhile (\<lambda>c. \<not> is_e c) (s @ x) = x"
    if "\<forall>c \<in> set s. \<not> is_e c" for s
    using that x by (cases x; simp add: takeWhile_append2 dropWhile_append2)+
  show "mantissa n = sg @ i @ f" "dropWhile (\<lambda>c. \<not> is_e c) n = x"
    using span [of "sg @ i @ f"] no_e by (simp_all add: mantissa_def n)
  show "takeWhile (\<lambda>c. \<not> is_e c) (i @ f @ x) = i @ f" "dropWhile (\<lambda>c. \<not> is_e c) (i @ f @ x) = x"
    using span [of "i @ f"] no_e by simp_all
  have keep: "filter is_digit ds = ds" "filter (\<lambda>c. c \<noteq> CHR ''.'') ds = ds" if "list_all is_digit ds" for ds
    using that digits_not [OF that] by (auto simp: list_all_iff filter_id_conv)
  have "\<not> is_digit CHR ''.''" "\<not> is_digit CHR ''-''" by (simp_all add: is_digit_def between_def)
  then show "filter is_digit (sg @ i @ f) = i @ fd" "filter (\<lambda>c. c \<noteq> CHR ''.'') (i @ f) = i @ fd"
    using sg f keep [OF i(2)] keep [OF f(2)] by auto
  have dot: "CHR ''.'' \<notin> set i" "CHR ''.'' \<notin> set sg" "CHR ''.'' \<notin> set fd" using di df sg by auto
  show "takeWhile (\<lambda>c. c \<noteq> CHR ''.'') (i @ f) = i"
    using f(1) dot(1) by (auto simp: takeWhile_tail)
  show "drop 1 (dropWhile (\<lambda>c. c \<noteq> CHR ''.'') (sg @ i @ f)) = fd"
  proof -
    have "\<forall>c \<in> set (sg @ i). c \<noteq> CHR ''.''" using dot(1,2) by (metis Un_iff set_append)
    then have "dropWhile (\<lambda>c. c \<noteq> CHR ''.'') ((sg @ i) @ f) = dropWhile (\<lambda>c. c \<noteq> CHR ''.'') f"
      by (intro dropWhile_append2) blast
    also have "\<dots> = f" using f(1) by (elim disjE conjE) simp_all
    finally have "drop 1 (dropWhile (\<lambda>c. c \<noteq> CHR ''.'') (sg @ i @ f)) = drop 1 f" by (simp only: append_assoc)
    with f(1) show ?thesis by (elim disjE conjE) simp_all
  qed
  show "(if CHR ''.'' \<in> set (i @ f) then length (i @ f) - length i - 1 else 0) = length fd"
    using f(1) dot(1) by (elim disjE conjE) simp_all
qed

lemma ParseInt_exponent:
  assumes "esg \<in> {[], ''+'', ''-''}" "es \<noteq> []" "list_all is_digit es" "digits_value 10 0 es = Some v"
  shows "ParseInt (esg @ es) 10 32 =
    (let s = (if esg = ''-'' then - v else v) in if - (2 ^ 31) \<le> s \<and> s < 2 ^ 31 then Some s else None)"
proof -
  obtain d ds where d: "es = d # ds" "d \<noteq> CHR ''-''" "d \<noteq> CHR ''+''"
    using assms(2,3) digit_not by (cases es) auto
  have v: "0 \<le> v" using digits_value_nonneg [OF assms(4)] by simp
  have u: "ParseUint es 10 32 = (if v < 2 ^ 32 then Some v else None)"
    using assms(2,4) by (simp add: ParseUint_def)
  from assms(1) consider "esg = []" | "esg = ''+''" | "esg = ''-''" by blast
  then show ?thesis
    by cases (use d v in \<open>simp_all add: ParseInt_def u [unfolded d(1)]\<close>)
qed


lemma split_exponent_form:
  assumes "number_form n sg i f fd x"
  shows "split_exponent (i @ f @ x) =
    (if - (2 ^ 31) \<le> exponent_of n \<and> exponent_of n < 2 ^ 31 then Some (exponent_of n, i @ f) else None)"
proof (cases "x = []")
  case True
  then show ?thesis
    unfolding split_exponent_def exponent_of_def number_form_parts(3,5) [OF assms] by simp
next
  case False
  then obtain c esg es where x: "x = c # esg @ es" "esg \<in> {[], ''+'', ''-''}" "es \<noteq> []" "list_all is_digit es"
    using assms unfolding number_form_def by blast
  obtain v where v: "digits_value 10 0 es = Some v" using all_digits_value [OF x(4)] by blast
  have "hd es \<noteq> CHR ''-''" using x(3,4) digit_not by (cases es) auto
  moreover have "filter is_digit esg = []" using x(2) by (auto simp: is_digit_def between_def)
  moreover have "filter is_digit es = es" using x(4) by (simp add: list_all_iff filter_id_conv)
  ultimately have "exponent_of n = (if esg = ''-'' then - v else v)"
    unfolding exponent_of_def number_form_parts(3) [OF assms] using x v by auto
  with ParseInt_exponent [OF x(2,3,4) v] show ?thesis
    unfolding split_exponent_def number_form_parts(4,5) [OF assms] using x(1) by (simp add: Let_def)
qed

lemma representable_form:
  assumes "number_form n sg i f fd x" "k = length (dropWhile (\<lambda>c. c = CHR ''0'') (i @ fd))" "0 < k"
  shows "representableNumber n \<longleftrightarrow>
    - (2 ^ 31) \<le> exponent_of n \<and> exponent_of n < 2 ^ 31 \<and>
    exponent_of n \<le> 131072 + int (length (i @ f)) \<and> - 16383 - int (length (i @ f)) \<le> exponent_of n \<and>
    int k - int (length fd) + exponent_of n \<le> 131072 \<and> int (length fd) - exponent_of n \<le> 16383"
proof -
  have k: "k \<le> length (i @ fd)" by (simp only: assms(2) length_dropWhile_le)
  have lead: "length (i @ fd) - length (dropWhile (\<lambda>c. c = CHR ''0'') (i @ fd)) = length (i @ fd) - k"
    using assms(2) by simp
  have whole: "int (length i) + e - int (length (i @ fd) - k) = int k - int (length fd) + e" for e
    using k by simp
  have "length (i @ fd) - k \<noteq> length (i @ fd)" using k assms(3) by linarith
  then show ?thesis
    unfolding representableNumber_def number_form_parts(1) [OF assms(1)] split_exponent_form [OF assms(1)]
    by (simp only: option.case prod.case Let_def number_form_parts(7,8,10) [OF assms(1)] lead whole
        if_False split: if_split) auto
qed

lemma representableNumber_decimal:
  assumes "lex_number s = Some (n, r)" "length n \<le> 2 ^ 30" "coefficient n \<noteq> 0"
  shows "representableNumber n \<longleftrightarrow> magnitude n < 10 ^ pg_integer_digits \<and> scale_of n \<le> pg_scale"
proof -
  obtain sg i f fd x where nf: "number_form n sg i f fd x" using number_form_exists [OF assms(1)] .
  have digits: "list_all is_digit (i @ fd)" using nf by (simp add: number_form_def)
  obtain c where c: "digits_value 10 0 (i @ fd) = Some c" using all_digits_value [OF digits] by blast
  then have coeff: "coefficient n = c"
    by (simp only: coefficient_def number_form_parts(2,6) [OF nf] option.sel)
  define k where "k = length (dropWhile (\<lambda>c. c = CHR ''0'') (i @ fd))"
  have cb: "0 < k" "c < 10 ^ k" "10 ^ (k - 1) \<le> c" "0 < c"
    using coefficient_bounds [OF digits c k_def] coeff assms(3) digits_value_nonneg [OF c] by auto
  have scale: "scale_of n = int (length fd) - exponent_of n"
    by (simp only: scale_of_def number_form_parts(2,9) [OF nf])
  have W: "int pg_integer_digits = 131072" by (simp add: pg_integer_digits_def)
  have mag: "magnitude n < 10 ^ pg_integer_digits \<longleftrightarrow> int k - scale_of n \<le> 131072"
    using power_ten_bounds [OF cb(4,2,3,1), of "scale_of n" pg_integer_digits] unfolding magnitude_def coeff W .
  have "length fd \<le> length (i @ f)" "length (i @ f) \<le> 2 ^ 30"
    using nf assms(2) unfolding number_form_def by auto
  then show ?thesis
    unfolding representable_form [OF nf k_def cb(1)] mag pg_scale_def scale using cb(1) by auto
qed

section \<open>Sizes\<close>

definition extent :: "lexeme list \<Rightarrow> nat" where
  "extent ls = sum_list (map (\<lambda>l. length (lx_space l) + length (lx_text l)) ls)"

lemma extent_simps [simp]:
  "extent [] = 0" "extent (l # ls) = length (lx_space l) + length (lx_text l) + extent ls"
  "extent (xs @ ys) = extent xs + extent ys"
  by (simp_all add: extent_def)

lemma extent_lex: "extent (lex s) \<le> length s"
proof (induction s rule: lex.induct)
  case (1 s)
  let ?w = "takeWhile is_space s" and ?s = "dropWhile is_space s"
  have len: "length s = length ?w + length ?s" by (metis length_append takeWhile_dropWhile_id)
  show ?case
  proof (cases "?s = []")
    case True
    then show ?thesis using lex_unfold [of s] by simp
  next
    case ne: False
    show ?thesis
    proof (cases "lex_token ?s")
      case None
      then show ?thesis using ne lex_unfold [of s] len by (simp del: dropWhile_eq_Nil_conv)
    next
      case (Some p)
      obtain t x r where p: "p = (t, x, r)" by (cases p)
      have "?s = x @ r" using lex_token_text Some p by blast
      moreover have "extent (lex r) \<le> length r" by (rule "1.IH" [OF refl refl ne Some p [symmetric] refl])
      ultimately show ?thesis
        using ne Some p lex_unfold [of s] len by (simp del: dropWhile_eq_Nil_conv)
    qed
  qed
qed

lemma length_raw_text: "length (raw_text ls) \<le> extent ls"
  by (cases ls) (simp_all add: length_concat extent_def comp_def)

lemma length_compact: "length (compact_lex (lex s)) \<le> length s"
proof -
  have "length (compact_lex ls) \<le> extent ls" for ls
    by (induction ls) (auto simp: compact_lex_def)
  then show ?thesis using extent_lex order_trans by blast
qed

lemma members_from_Some:
  assumes "members_from ls = Some ms"
  obtains k c r key v d r' where "ls = k # c # r" "take_value r = Some (v, d # r')"
    "members_from r' = Some (tl ms) \<and> ms = (key, v) # tl ms \<or> ms = [(key, v)]"
proof -
  from assms obtain k c r where ls: "ls = k # c # r"
    by (subst (asm) members_from.simps) (auto split: list.splits)
  with assms obtain key v ds where kv: "lx_token k = TString key" "take_value r = Some (v, ds)"
    by (subst (asm) members_from.simps) (auto split: token.splits option.splits)
  with ls assms obtain d r' where "ds = d # r'"
    by (subst (asm) members_from.simps) (auto split: list.splits)
  with ls kv assms show thesis
    by (subst (asm) members_from.simps) (auto intro: that split: if_splits)
qed

lemma members_from_extent: "members_from ls = Some ms \<Longrightarrow> m \<in> set ms \<Longrightarrow> extent (snd m) \<le> extent ls"
proof (induction "length ls" arbitrary: ls ms rule: less_induct)
  case less
  from less.prems(1) obtain k c r key v d r' where ls: "ls = k # c # r" "take_value r = Some (v, d # r')"
    and ms: "members_from r' = Some (tl ms) \<and> ms = (key, v) # tl ms \<or> ms = [(key, v)]"
    by (rule members_from_Some)
  have r: "r = v @ d # r'" using take_value_append [OF ls(2)] by simp
  show ?case
  proof (cases "m = (key, v)")
    case True
    then show ?thesis using r ls(1) by simp
  next
    case False
    with ms less.prems(2) have "members_from r' = Some (tl ms)" "m \<in> set (tl ms)"
      by (auto, metis set_ConsD)
    then have "extent (snd m) \<le> extent r'" using less.hyps [of r'] r ls(1) by simp
    then show ?thesis using r ls(1) by simp
  qed
qed

lemma members_extent: "members ls = Some ms \<Longrightarrow> m \<in> set ms \<Longrightarrow> extent (snd m) \<le> extent ls"
  by (cases ls) (auto simp: members_def dest!: members_from_extent split: if_splits)

lemma set_members_keeps:
  assumes "set_members names put ms d = Some d'" "Q d" "\<forall>m\<in>set ms. P (snd m)"
    and "\<And>f v d d'. put f v d = Some d' \<Longrightarrow> P v \<Longrightarrow> Q d \<Longrightarrow> Q d'"
  shows "Q d'"
  using assms(1-3)
proof (induction ms arbitrary: d)
  case (Cons m ms)
  obtain key v where m: "m = (key, v)" by (cases m)
  with Cons.prems obtain f d1 where "put f v d = Some d1" "set_members names put ms d1 = Some d'"
    by (auto split: option.splits)
  with Cons assms(4) m show ?case by simp
qed simp

lemma decode_keeps:
  assumes "decode names put d raw limit = Inr d'" "Q d"
    and "\<And>f v d d'. put f v d = Some d' \<Longrightarrow> extent v \<le> length raw \<Longrightarrow> Q d \<Longrightarrow> Q d'"
  shows "Q d'"
proof -
  obtain v rest where v: "take_value (lex raw) = Some (v, rest)" "decode_struct names put d v = Some d'"
    using assms(1) by (auto simp: decode_def split: if_splits option.splits prod.splits)
  have "extent v \<le> length raw"
    using take_value_append [OF v(1)] extent_lex [of raw] by simp
  then have "\<forall>m\<in>set ms. extent (snd m) \<le> length raw" if "members v = Some ms" for ms
    using members_extent [OF that] by fastforce
  then show ?thesis
    using v(2) assms(2) set_members_keeps [of names put _ d d' Q "\<lambda>v. extent v \<le> length raw", OF _ _ _ assms(3)]
    by (auto simp: decode_struct_def split: if_splits option.splits)
qed

lemma DecodeInput_payload_length:
  assumes "DecodeInput u raw = Inr i"
  shows "length (Payload i) \<le> length raw"
proof -
  have "decode input_fields (set_input u) zero_input raw MaxEventBytes = Inr i"
    using assms by (auto simp: DecodeInput_def split: sum.splits option.splits)
  then show ?thesis
  proof (rule decode_keeps)
    fix f v and d d' :: Input
    assume "set_input u f v d = Some d'" "extent v \<le> length raw" "length (Payload d) \<le> length raw"
    then show "length (Payload d') \<le> length raw"
      using length_raw_text [of v] by (auto simp: set_input_def split: if_splits)
  qed (simp add: zero_input_def)
qed

lemma DecodeInput_time:
  assumes "DecodeInput u raw = Inr i"
  shows "proper_time (OccurredAt i)"
proof -
  have "decode input_fields (set_input u) zero_input raw MaxEventBytes = Inr i"
    using assms by (auto simp: DecodeInput_def split: sum.splits option.splits)
  then show ?thesis
  proof (rule decode_keeps)
    fix f v and d d' :: Input
    assume "set_input u f v d = Some d'" "proper_time (OccurredAt d)"
    then show "proper_time (OccurredAt d')"
      by (auto simp: set_input_def json_time_def dest: parse_proper split: if_splits list.splits token.splits)
  qed (simp add: zero_input_def proper_time_def zero_time_def)
qed

lemma clock_time_UTC: "UTC (clock_time now) = clock_time now"
  by (simp add: UTC_def clock_time_def)

lemma length_quote_ascii: "byte c < 128 \<Longrightarrow> length (quote_ascii html c) \<le> 6"
  by (erule quote_ascii_cases [of c html]) simp_all

lemma length_quote: "utf8_valid s \<Longrightarrow> length (quote html s) \<le> 6 * length s + 2"
proof -
  assume "utf8_valid s"
  then have "length (quote_body html s) \<le> 6 * length s"
  proof (induction rule: utf8_runes_induct)
    case (ascii c s)
    then show ?case using length_quote_ascii [of c html] by simp
  next
    case (rune c s rr w)
    have w: "2 \<le> w" "w \<le> 4" "w \<le> length (c # s)" using rune(3) by (auto simp: rune_at_def)
    then have "length (rune_text rr (take w (c # s))) \<le> 6" by (auto simp: rune_text_def)
    with rune(4) w show ?case unfolding quote_body_rune [OF rune(1,2,3)] by simp
  qed simp
  then show ?thesis by (simp add: quote_def)
qed

lemma length_format_zone: "\<bar>off\<bar> div 3600 < 24 \<Longrightarrow> length (format_zone off) \<le> 6"
proof -
  assume less: "\<bar>off\<bar> div 3600 < 24"
  define m where "m = nat (\<bar>off\<bar> div 60)"
  have "\<bar>off\<bar> div 60 div 60 = \<bar>off\<bar> div 3600" using zdiv_zmult2_eq [of 60 "\<bar>off\<bar>" 60] by simp
  moreover have "int (m div 60) = \<bar>off\<bar> div 60 div 60"
    by (simp add: m_def zdiv_int pos_imp_zdiv_nonneg_iff)
  ultimately have "int (m div 60) < 24" using less by simp
  then have "m div 60 < 10 ^ 2" by simp
  moreover have "m mod 60 < 10 ^ 2" by (rule order_less_trans [of _ 60]) simp_all
  ultimately show ?thesis by (simp add: format_zone_def Let_def m_def [symmetric] length_pad)
qed

lemma length_format:
  assumes "format_rfc3339 t = Some b" "proper_time t"
  shows "length b \<le> 35"
proof -
  define local where "local = t_sec t + t_offset t"
  obtain y mo d where civ: "civil (local div 86400) = (y, mo, d)" by (metis prod_cases3)
  define r where "r = nat (local mod 86400)"
  obtain h mi s where hms: "clock_fields r = (h, mi, s)" by (metis prod_cases3)
  have y: "0 \<le> y" "y \<le> 9999" "\<bar>t_offset t\<bar> div 3600 < 24"
    and b: "b = pad 4 (nat y) @ CHR ''-'' # pad 2 (nat mo) @ CHR ''-'' # pad 2 (nat d) @ CHR ''T'' # pad 2 h @
        CHR '':'' # pad 2 mi @ CHR '':'' # pad 2 s @ format_nano (t_nsec t) @ format_zone (t_offset t)"
    using assms(1) civ hms
    by (auto simp: format_rfc3339_def Let_def local_def [symmetric] r_def [symmetric] clock_fields_def split: if_splits)
  have "days_in y mo \<le> 31" by (simp add: days_in_def)
  with civil_correct [OF civ] have cal: "nat mo < 10 ^ 2" "nat d < 10 ^ 2" by auto
  have "r < 86400" by (simp add: r_def)
  with clock_fields_bounds [OF _ hms] have clk: "h < 10 ^ 2" "mi < 10 ^ 2" "s < 10 ^ 2" by simp_all
  have "nat y < 10 ^ 4" using y by simp
  then have "length b = 19 + length (format_nano (t_nsec t)) + length (format_zone (t_offset t))"
    using cal clk unfolding b by (simp add: length_pad)
  moreover have "length (format_nano (t_nsec t)) \<le> 10"
    using assms(2) length_dropWhile_le [of "\<lambda>c. c = CHR ''0''" "rev (pad 9 (t_nsec t))"]
    by (simp add: format_nano_def proper_time_def length_pad)
  moreover have "length (format_zone (t_offset t)) \<le> 6"
    using length_format_zone [OF y(3)] .
  ultimately show ?thesis by linarith
qed

text \<open>
  The envelope adds at most 1734 bytes to the payload: the punctuation and the field names, the
  identifier, two instants, and two texts of at most 128 bytes that grow at most sixfold.
\<close>

lemma length_encode_json:
  assumes "uuid_codec u" "format_rfc3339 (OccurredAt e) = Some oc" "format_rfc3339 (ReceivedAt e) = Some rc"
    and "proper_time (OccurredAt e)" "proper_time (ReceivedAt e)" "validate (Input.truncate e) = None"
    and "ValidTenant (TenantID e)"
  obtains b where "encode_json u e = Some b" "length b \<le> length (Payload e) + 1734"
proof -
  have tr: "EventType (Input.truncate e) = EventType e" "Payload (Input.truncate e) = Payload e"
    by (simp_all add: Input.defs)
  have ty: "utf8_valid (EventType e)" "length (EventType e) \<le> 128" "json_valid (Payload e)"
    using assms(6) tr by (auto simp: validate_ok validText_def json_object_def)
  have te: "utf8_valid (TenantID e)" "length (TenantID e) \<le> 128"
    using assms(7) by (auto simp: ValidTenant_def validText_def)
  obtain b where b: "encode_json u e = Some b" using assms(2,3) ty(3) by (simp add: encode_json_def)
  have "quote_body False (uuid_string u (EventID e)) = uuid_string u (EventID e)"
    by (rule quote_body_plain [OF uuid_plain [OF assms(1)]])
  then have "length (quote False (uuid_string u (EventID e))) = 38"
    using assms(1) by (simp add: quote_def uuid_codec_def)
  moreover have "length oc \<le> 35" "length rc \<le> 35" using length_format assms by blast+
  moreover have "length (quote False (EventType e)) \<le> 770" "length (quote False (TenantID e)) \<le> 770"
    using length_quote [OF ty(1), of False] length_quote [OF te(1), of False] ty(2) te(2) by simp_all
  moreover note length_compact [of "Payload e"]
  ultimately have "length b \<le> length (Payload e) + 1734"
    using assms(2,3) ty(3) b by (auto simp: encode_json_def json_field_def quoted_def)
  with b show thesis by (rule that)
qed

section \<open>What an accepted payload holds\<close>

fun storable :: "token \<Rightarrow> bool" where
  "storable (TString b) \<longleftrightarrow> validText (unquote b)"
| "storable (TNumber n) \<longleftrightarrow> representableNumber n"
| "storable TBad \<longleftrightarrow> False"
| "storable _ \<longleftrightarrow> True"

lemma walk_tokens_numbers: "walk_tokens d ts \<Longrightarrow> TNumber n \<in> set ts \<Longrightarrow> representableNumber n"
  by (induction ts arbitrary: d) (auto split: token.splits if_splits)

lemma lex_token_string:
  assumes "lex_token s = Some (TString b, x, r)"
  shows "x = quote_c # b @ [quote_c] \<and> (\<exists>cs. lex_string cs = Some (b, r))"
  using assms by (cases rule: lex_token_cases) (simp_all, blast)

lemma lexed_string:
  assumes "lexed l" "lx_token l = TString b" "validUnicodeJSON (lx_text l)"
  shows "validText (unquote b)"
proof -
  from assms(1,2) obtain s r where "lex_token s = Some (TString b, lx_text l, r)" by (auto simp: lexed_def)
  then obtain cs where b: "lex_string cs = Some (b, r)" and tx: "lx_text l = quote_c # b @ [quote_c]"
    using lex_token_string by blast
  have lit: "literal b" using lex_string_again [OF b, of "[]"] by (simp add: literal_def)
  have u: "utf8_valid (b @ [quote_c])" "valid_escapes (b @ [quote_c])"
    using assms(3) tx by (simp_all add: validUnicodeJSON_def)
  from lex_string_escapes [OF u(2)] lit have "valid_escapes b" by (auto simp: literal_def)
  moreover have "utf8_valid b" using utf8_valid_split [OF u(1), of b "[quote_c]"] by simp
  ultimately show ?thesis using unquote_validText lit by blast
qed

lemma validJSONB_storable:
  assumes "validJSONB raw" "t \<in> set (map lx_token (lex raw))"
  shows "storable t"
proof -
  from assms(2) obtain l where l: "l \<in> set (lex raw)" "t = lx_token l" by auto
  have bad: "no_bad (lex raw)" using assms(1) json_valid_no_bad by (simp add: validJSONB_def)
  then have "lexed l" using l lex_lexed by (auto simp: no_bad_def)
  moreover have "validUnicodeJSON (lx_text l)" using l(1) bad lex_unicode assms(1) by (auto simp: validJSONB_def)
  ultimately have "validText (unquote b)" if "t = TString b" for b using lexed_string l(2) that by metis
  moreover have "representableNumber n" if "t = TNumber n" for n
    using walk_tokens_numbers assms that by (auto simp: validJSONB_def)
  moreover have "t \<noteq> TBad" using bad l by (auto simp: no_bad_def)
  ultimately show ?thesis by (cases t) auto
qed

section \<open>Batches\<close>

lemma decode_inputs_Inr: "decode_inputs u bs = Inr xs \<longleftrightarrow> list_all2 (\<lambda>b i. DecodeInput u b = Inr i) bs xs"
proof (induction bs arbitrary: xs)
  case (Cons b bs)
  have "decode_inputs u (b # bs) = Inr xs \<longleftrightarrow>
      (\<exists>i is. DecodeInput u b = Inr i \<and> decode_inputs u bs = Inr is \<and> xs = i # is)"
    by (auto split: sum.splits)
  then show ?case by (auto simp: Cons.IH list_all2_Cons1)
qed auto

lemma decode_inputs_Inl:
  "decode_inputs u bs = Inl err \<longleftrightarrow>
   (\<exists>k < length bs. DecodeInput u (bs ! k) = Inl err \<and> (\<forall>j < k. \<exists>i. DecodeInput u (bs ! j) = Inr i))"
proof (induction bs)
  case (Cons b bs)
  show ?case
  proof (cases "DecodeInput u b")
    case (Inl e)
    then show ?thesis by (auto simp: less_Suc_eq_0_disj)
  next
    case (Inr i)
    have "decode_inputs u (b # bs) = Inl err \<longleftrightarrow> decode_inputs u bs = Inl err"
      using Inr by (auto split: sum.splits)
    then show ?thesis using Inr by (simp only: Cons.IH length_Cons Ex_less_Suc2 All_less_Suc2) simp
  qed
qed simp

section \<open>Reading back\<close>

lemma reads_accepted:
  assumes "uuid_codec u" "DecodeInput u body = Inr inp" "Accept inp tenant (clock_time now) = Inr e"
    and "EncodeEnvelope u e = Inr raw"
  shows "DecodeEnvelope u raw = Inr (e\<lparr>Payload := compact_lex (lex (Payload e))\<rparr>) \<and>
    map lx_token (lex (compact_lex (lex (Payload e)))) = map lx_token (lex (Payload e))"
proof
  from assms(3) have v: "validate inp = None"
    and e: "e = Input.extend inp \<lparr>TenantID = tenant, ReceivedAt = clock_time now\<rparr>"
    by (auto simp: Accept_def clock_time_UTC split: option.splits if_splits)
  have "proper_time (OccurredAt e)" "proper_time (ReceivedAt e)"
    using DecodeInput_time [OF assms(2)] clock_time_proper by (simp_all add: e Input.defs)
  from envelope_roundtrip [OF assms(1,4) this]
  show "DecodeEnvelope u raw = Inr (e\<lparr>Payload := compact_lex (lex (Payload e))\<rparr>)"
    by (simp add: as_read_def e Input.defs clock_time_UTC)
  have "json_valid (Payload e)" using v by (simp add: validate_ok json_object_def e Input.defs)
  then show "map lx_token (lex (compact_lex (lex (Payload e)))) = map lx_token (lex (Payload e))"
    by (simp add: lex_compact_alone comp_def)
qed

section \<open>Properties\<close>

definition sample_text :: bytes where
  \<open>sample_text = ''{"event_id":"00000000-0000-0000-0000-000000000007","event_type":"signup",''
     @ ''"occurred_at":"2026-01-02T00:00:00Z","payload":{"n":[1.5e3, "x"]}}''\<close>

definition sample_clock :: int where
  "sample_clock = 63902908801000000005"

definition sample_accepted :: "Envelope option" where
  "sample_accepted =
     (case DecodeInput uuid_canonical sample_text of
        Inl _ \<Rightarrow> None
      | Inr i \<Rightarrow> (case Accept i ''acme'' (clock_time sample_clock) of Inl _ \<Rightarrow> None | Inr e \<Rightarrow> Some e))"

lemma sample_accepted_run:
  "(case sample_accepted of None \<Rightarrow> False
    | Some e \<Rightarrow> (case EncodeEnvelope uuid_canonical e of Inl _ \<Rightarrow> False | Inr _ \<Rightarrow> True))"
  by code_simp

lemma sample_text_accepted:
  obtains i e raw where "DecodeInput uuid_canonical sample_text = Inr i"
    "Accept i ''acme'' (clock_time sample_clock) = Inr e" "EncodeEnvelope uuid_canonical e = Inr raw"
  using sample_accepted_run by (auto simp: sample_accepted_def split: sum.splits option.splits)

text \<open>
  C14. The number check decides exactly what PostgreSQL can store: a nonzero JSON number of at
  most a gigabyte is representable if and only if its magnitude is below ten to the 131072 and
  its decimal scale is at most 16383, the limits of the type numeric.
\<close>

theorem representableNumber_is_numeric:
  assumes "lex_number s = Some (n, r)" "length n \<le> 2 ^ 30" "coefficient n \<noteq> 0"
  shows "representableNumber n \<longleftrightarrow> magnitude n < 10 ^ pg_integer_digits \<and> scale_of n \<le> pg_scale"
  using assms by (rule representableNumber_decimal)

theorem representableNumber_is_numeric_witness:
  "magnitude ''15e-1'' < 10 ^ pg_integer_digits \<and> scale_of ''15e-1'' \<le> pg_scale"
proof -
  have "lex_number ''15e-1'' = Some (''15e-1'', [])" "coefficient ''15e-1'' \<noteq> 0" "representableNumber ''15e-1''"
    by code_simp+
  with representableNumber_is_numeric [of "''15e-1''" "''15e-1''" "[]"] show ?thesis by simp
qed



text \<open>
  C17. A batch is decoded whole or not at all: it succeeds exactly when the request is a
  well-formed document with 1 to 100 events each of which decodes on its own, in order; with
  such a document the error is the one of the first event that does not decode.
\<close>

theorem DecodeBatch_all_or_nothing:
  "(DecodeBatch u raw = Inr xs \<longleftrightarrow>
     (\<exists>bs. decode [''events''] set_batch [] raw MaxRequestBytes = Inr bs \<and> 1 \<le> length bs \<and> length bs \<le> 100 \<and>
        list_all2 (\<lambda>b i. DecodeInput u b = Inr i) bs xs)) \<and>
   (decode [''events''] set_batch [] raw MaxRequestBytes = Inr bs \<and> 1 \<le> length bs \<and> length bs \<le> 100 \<longrightarrow>
     (DecodeBatch u raw = Inl err \<longleftrightarrow>
       (\<exists>k < length bs. DecodeInput u (bs ! k) = Inl err \<and> (\<forall>j < k. \<exists>i. DecodeInput u (bs ! j) = Inr i))))"
  by (auto simp: DecodeBatch_def MaxBatchEvents_def decode_inputs_Inr decode_inputs_Inl Suc_le_eq
      split: sum.splits if_splits)

theorem DecodeBatch_all_or_nothing_witness:
  "\<exists>xs. DecodeBatch uuid_canonical (''{'' @ quoted ''events'' @ '':['' @ sample_text @ '']}'') = Inr xs \<and> length xs = 1"
proof -
  let ?raw = "''{'' @ quoted ''events'' @ '':['' @ sample_text @ '']}''"
  have dec: "decode [''events''] set_batch [] ?raw MaxRequestBytes = Inr [sample_text]" by code_simp
  obtain i where "DecodeInput uuid_canonical sample_text = Inr i" by (rule sample_text_accepted)
  then have "DecodeBatch uuid_canonical ?raw = Inr [i]"
    using DecodeBatch_all_or_nothing [of uuid_canonical ?raw "[i]" "[sample_text]"] dec by auto
  then show ?thesis by auto
qed

text \<open>
  C16. The broker limit leaves room for every accepted event: whatever the API decodes and
  accepts, with instants that can be written, encodes into an envelope of at most 1734 bytes
  more than the request and therefore within \<^verbatim>\<open>MaxEnvelopeBytes\<close>.
\<close>

theorem accepted_event_fits:
  assumes "uuid_codec u" "DecodeInput u body = Inr inp" "Accept inp tenant (clock_time now) = Inr e"
    and "format_rfc3339 (OccurredAt inp) \<noteq> None" "format_rfc3339 (clock_time now) \<noteq> None"
  shows "\<exists>raw. EncodeEnvelope u e = Inr raw \<and> length raw \<le> length body + 1734 \<and> int (length raw) \<le> MaxEnvelopeBytes"
proof -
  have u: "UTC (clock_time now) = clock_time now" by (simp add: clock_time_UTC)
  from assms(3) have v: "validate inp = None" "ValidTenant tenant" "\<not> IsZero (clock_time now)"
    and e: "e = Input.extend inp \<lparr>TenantID = tenant, ReceivedAt = clock_time now\<rparr>"
    by (auto simp: Accept_def u split: option.splits if_splits)
  have tr: "Input.truncate e = inp" by (simp add: e Input.defs)
  obtain oc rc where t: "format_rfc3339 (OccurredAt inp) = Some oc" "format_rfc3339 (clock_time now) = Some rc"
    using assms(4,5) by blast
  obtain b where b: "encode_json u e = Some b" "length b \<le> length (Payload e) + 1734"
  proof (rule length_encode_json [OF assms(1)])
    show "format_rfc3339 (OccurredAt e) = Some oc" "format_rfc3339 (ReceivedAt e) = Some rc"
      using t by (simp_all add: e Input.defs)
    show "proper_time (OccurredAt e)" "proper_time (ReceivedAt e)"
      using DecodeInput_time [OF assms(2)] clock_time_proper by (simp_all add: e Input.defs)
    show "validate (Input.truncate e) = None" using v tr by simp
    show "ValidTenant (TenantID e)" using v by (simp add: e Input.defs)
  qed
  have "length (Payload e) \<le> length body"
    using DecodeInput_payload_length [OF assms(2)] by (simp add: e Input.defs)
  moreover have "int (length body) \<le> MaxEventBytes"
    using assms(2) by (auto simp: DecodeInput_def decode_def split: if_splits)
  moreover have "TenantID e = tenant" "ReceivedAt e = clock_time now" by (simp_all add: e Input.defs)
  ultimately show ?thesis
    using b v tr by (auto simp: EncodeEnvelope_def Accept_def MaxEnvelopeBytes_def)
qed

theorem accepted_event_fits_witness:
  "\<exists>e raw. sample_accepted = Some e \<and> EncodeEnvelope uuid_canonical e = Inr raw \<and> length raw \<le> length sample_text + 1734"
proof (rule sample_text_accepted)
  fix i e raw
  assume run: "DecodeInput uuid_canonical sample_text = Inr i" "Accept i ''acme'' (clock_time sample_clock) = Inr e"
    "EncodeEnvelope uuid_canonical e = Inr raw"
  then have "format_rfc3339 (OccurredAt i) \<noteq> None" "format_rfc3339 (clock_time sample_clock) \<noteq> None"
    by (auto simp: EncodeEnvelope_def encode_json_def Accept_def Input.defs clock_time_UTC
        split: sum.splits option.splits if_splits)
  with accepted_event_fits [OF uuid_canonical_codec run(1,2)] run show ?thesis by (auto simp: sample_accepted_def)
qed

text \<open>
  C13. The consumer reads the event the API accepted: decoding the broker record of an accepted
  request gives the accepted event with its payload compacted, and compacting changes no token
  of the payload.
\<close>

theorem consumer_reads_accepted:
  assumes "uuid_codec u" "DecodeInput u body = Inr inp" "Accept inp tenant (clock_time now) = Inr e"
    and "EncodeEnvelope u e = Inr raw"
  shows "DecodeEnvelope u raw = Inr (e\<lparr>Payload := compact_lex (lex (Payload e))\<rparr>) \<and>
    map lx_token (lex (compact_lex (lex (Payload e)))) = map lx_token (lex (Payload e))"
  using assms by (rule reads_accepted)

theorem consumer_reads_accepted_witness:
  "\<exists>e raw. sample_accepted = Some e \<and> EncodeEnvelope uuid_canonical e = Inr raw \<and>
     DecodeEnvelope uuid_canonical raw = Inr (e\<lparr>Payload := compact_lex (lex (Payload e))\<rparr>)"
proof (rule sample_text_accepted)
  fix i e raw
  assume run: "DecodeInput uuid_canonical sample_text = Inr i" "Accept i ''acme'' (clock_time sample_clock) = Inr e"
    "EncodeEnvelope uuid_canonical e = Inr raw"
  with consumer_reads_accepted [OF uuid_canonical_codec run] show ?thesis by (auto simp: sample_accepted_def)
qed

text \<open>
  An offset of a whole day passes every check of the API and still can never be published:
  the parser accepts it, the encoder refuses it.
\<close>

definition day_offset_text :: bytes where
  \<open>day_offset_text = ''{"event_id":"00000000-0000-0000-0000-000000000007","event_type":"a",''
     @ ''"occurred_at":"2026-01-02T00:00:00+24:00","payload":{}}''\<close>

lemma day_offset_unpublishable:
  "case DecodeInput uuid_canonical day_offset_text of Inl _ \<Rightarrow> False
   | Inr i \<Rightarrow> (case Accept i ''acme'' (clock_time sample_clock) of Inl _ \<Rightarrow> False
               | Inr e \<Rightarrow> EncodeEnvelope uuid_canonical e = Inl (PlainError ''json: error calling MarshalJSON''))"
  by code_simp

end
