(* ===== verification/Delivery.thy ===== *)
theory Delivery
  imports Reader_Safety Api Event_Contract
begin

text \<open>
  The pipeline as a whole: the API appends accepted events to the event topic and answers, the
  consumer stores them, either may crash at any moment, in any order.  The steps run the
  handlers and the reader of the other theories; the invariant and the refinement say what the
  two processes together promise.
\<close>

section \<open>State and steps\<close>

record pipeline =
  events :: "krecord list"  \<comment> \<open>the event topic\<close>
  stored :: durable  \<comment> \<open>the table, the dead letter topic and the committed offsets\<close>
  acked :: "Envelope set"  \<comment> \<open>the events of the requests answered with 202\<close>

definition accepted_by :: "uuid_pkg \<Rightarrow> bool \<Rightarrow> fctx \<Rightarrow> int \<Rightarrow> Envelope list" where
  \<comment> \<open>the events the handler publishes for a request received at \<open>now\<close>\<close>
  "accepted_by u batch c now =
     (case (decode_request u batch (c_body c), l_tenant_id c) of
        (Inr inputs, Some tenant) \<Rightarrow>
          (case accept_all inputs tenant (clock_time now) of Some es \<Rightarrow> es | None \<Rightarrow> [])
      | _ \<Rightarrow> [])"

text \<open>
  A request: the handler runs to its answer, or the process dies with some of the records
  appended and no answer.  A run of the consumer: it polls what the topic holds, and stops or dies
  in any of the durable states it passes through.
\<close>

inductive step :: "uuid_pkg \<Rightarrow> Publisher \<Rightarrow> Publisher \<Rightarrow> pipeline \<Rightarrow> pipeline \<Rightarrow> bool" for u p q where
  request:
    "kgo_contract produce \<Longrightarrow> d_log w = events s \<Longrightarrow>
     ingest u (Publish u produce p) allowance batch c w = (c', w') \<Longrightarrow>
     step u p q s (s\<lparr>events := d_log w',
       acked := acked s \<union> (if r_status c' = 202 then set (accepted_by u batch c (w_now w)) else {})\<rparr>)"
| request_dies:
    "kgo_contract produce \<Longrightarrow> d_log w = events s \<Longrightarrow> w_trace w = [] \<Longrightarrow>
     ingest u (Publish u produce p) allowance batch c w = (c', w') \<Longrightarrow> d \<in> set (w_trace w') \<Longrightarrow>
     step u p q s (s\<lparr>events := d_log d\<rparr>)"
| consume:
    "pg_contract u exec \<Longrightarrow> kgo_contract produce \<Longrightarrow> commit_contract commit \<Longrightarrow>
     fetch_contract (set (events s)) poll \<Longrightarrow> durable.truncate w = stored s \<Longrightarrow> w_trace w = [] \<Longrightarrow>
     run_loop (consumer_env u exec produce q commit poll finish tie) cfg fuel ctx stop_at w = (w', res) \<Longrightarrow>
     d \<in> set (w_trace w') \<union> {durable.truncate w'} \<Longrightarrow>
     step u p q s (s\<lparr>stored := d\<rparr>)"

definition fresh :: pipeline where
  "fresh = \<lparr>events = [], stored = \<lparr>d_table = Map.empty, d_log = [], d_committed = Map.empty\<rparr>, acked = {}\<rparr>"

inductive reachable :: "uuid_pkg \<Rightarrow> Publisher \<Rightarrow> Publisher \<Rightarrow> pipeline \<Rightarrow> bool" for u p q where
  start: "reachable u p q fresh"
| more_steps: "reachable u p q s \<Longrightarrow> step u p q s s' \<Longrightarrow> reachable u p q s'"

inductive_cases stepE: "step u p q s s'"

section \<open>The log keeps its order\<close>

lemma log_ok_prefix: "log_ok (l0 @ later) \<Longrightarrow> log_ok l0"
  by (auto simp: log_ok_def sorted_wrt_append)

lemma log_ok_above:
  assumes "log_ok (l0 @ later)" "r \<in> set l0" "n \<in> set later" "on_partition tp r" "on_partition tp n"
  shows "Offset r < Offset n"
  using assms by (cases tp) (auto simp: log_ok_def sorted_wrt_append)

lemma appended_states_log:
  "d \<in> set (appended_states w app) \<Longrightarrow> \<exists>now later. app = now @ later \<and> d_log d = d_log w @ now"
  by (auto simp: appended_states_def simp del: upt_Suc) (metis append_take_drop_id)

lemma Publish_log:
  assumes "kgo_contract produce" "log_ok (d_log w)" "Publish u produce p ctx es w = (w', err)"
  shows "\<exists>app. d_log w' = d_log w @ app \<and> log_ok (d_log w @ app) \<and>
    (w_trace w' = w_trace w @ appended_states w app \<or> w_trace w' = w_trace w)"
proof (cases "encode_all u p es")
  case (Inl e)
  with assms show ?thesis by (auto simp: Publish_def)
next
  case (Inr rs)
  with assms(3) have send: "send produce p ctx rs w = (w', err)" by (simp add: Publish_def)
  have "log_ok (d_log w @ pr_appended (produce (w_calls w) (d_log w) rs))"
    using assms(1,2) unfolding kgo_contract_def Let_def by blast
  with send_frame [OF send] show ?thesis by auto
qed

lemma ingest_log:
  assumes "kgo_contract produce" "log_ok (d_log w)"
    and "ingest u (Publish u produce p) allowance batch c w = (c', w')"
  shows "\<exists>app. d_log w' = d_log w @ app \<and> log_ok (d_log w @ app) \<and>
    (w_trace w' = w_trace w @ appended_states w app \<or> w_trace w' = w_trace w)"
  using assms Publish_log [OF assms(1,2)]
  by (auto simp: ingest_def split: sum.splits option.splits prod.splits)

lemma accept_all_list:
  "list_all2 (\<lambda>i e. Accept i tenant received = Inr e) inputs es \<Longrightarrow> accept_all inputs tenant received = Some es"
  by (induction inputs es rule: list_all2_induct) auto

section \<open>The invariant\<close>

definition compacted :: "Envelope \<Rightarrow> Envelope" where
  "compacted e = e\<lparr>Payload := compact_lex (lex (Payload e))\<rparr>"

definition pipeline_inv :: "uuid_pkg \<Rightarrow> Publisher \<Rightarrow> pipeline \<Rightarrow> bool" where
  "pipeline_inv u q s \<longleftrightarrow>
     log_ok (events s) \<and> safe u (in_quarantine q) (set (events s)) (stored s) \<and>
     (\<forall>e \<in> acked s. carries u (set (events s)) (compacted e))"

lemma carries_mono: "carries u src e \<Longrightarrow> src \<subseteq> src' \<Longrightarrow> carries u src' e"
  by (auto simp: carries_def)

lemma safe_append:
  assumes "safe u kept (set l0) d" "log_ok (l0 @ app)"
  shows "safe u kept (set (l0 @ app)) d"
  unfolding safe_def
proof (intro conjI ballI allI impI)
  fix r off assume r: "r \<in> set (l0 @ app)" "d_committed d (Topic r, Partition r) = Some off" "Offset r < off"
  obtain r0 where r0: "r0 \<in> set l0" "on_partition (Topic r, Partition r) r0" "off = Offset r0 + 1"
    using assms(1) r(2) unfolding safe_def by blast
  have "r \<notin> set app"
  proof
    assume "r \<in> set app"
    with log_ok_above [OF assms(2) r0(1) this r0(2)] r(3) r0(3) show False by (simp add: on_partition_def)
  qed
  with r assms(1) show "handled u kept d r" unfolding safe_def by auto
next
  fix tp off assume "d_committed d tp = Some off"
  with assms(1) show "\<exists>r \<in> set (l0 @ app). on_partition tp r \<and> off = Offset r + 1"
    unfolding safe_def set_append by blast
next
  show "genuine u (set (l0 @ app)) (d_table d)"
    using assms(1) carries_mono [of u "set l0" _ "set (l0 @ app)"] unfolding safe_def genuine_def by auto
qed

lemma list_all2_second: "list_all2 P xs ys \<Longrightarrow> y \<in> set ys \<Longrightarrow> \<exists>x \<in> set xs. P x y"
  by (induction xs ys rule: list_all2_induct) auto

lemma decode_request_inputs:
  "decode_request u batch raw = Inr inputs \<Longrightarrow> i \<in> set inputs \<Longrightarrow> \<exists>b. DecodeInput u b = Inr i"
  by (auto simp: decode_request_def DecodeBatch_def decode_inputs_Inr list_all2_conv_all_nth in_set_conv_nth
      split: if_splits sum.splits)

lemma acknowledged_carried:
  assumes "uuid_codec u" "kgo_contract produce"
    and "ingest u (Publish u produce p) allowance batch c w = (c', w')" "r_status c' = 202"
    and "e \<in> set (accepted_by u batch c (w_now w))"
  shows "carries u (set (d_log w')) (compacted e)"
proof -
  from broker.ingest_accepted [of "(u, produce, p)" u allowance batch c w c' w'] assms(2-4)
  obtain inputs tenant es where req: "decode_request u batch (c_body c) = Inr inputs" "l_tenant_id c = Some tenant"
    "list_all2 (\<lambda>i e. Accept i tenant (clock_time (w_now w)) = Inr e) inputs es"
    "\<forall>e \<in> set es. in_log u p (d_log w') e" by auto
  have "accept_all inputs tenant (clock_time (w_now w)) = Some es" using accept_all_list [OF req(3)] .
  with assms(5) req(1,2) have "e \<in> set es" by (simp add: accepted_by_def)
  from list_all2_second [OF req(3) this] obtain i where i: "i \<in> set inputs" "Accept i tenant (clock_time (w_now w)) = Inr e"
    by blast
  obtain b where b: "DecodeInput u b = Inr i" using decode_request_inputs [OF req(1) i(1)] by blast
  obtain raw r where raw: "EncodeEnvelope u e = Inr raw" "r \<in> set (d_log w')" "RValue r = Some raw"
    using req(4) \<open>e \<in> set es\<close> by (auto simp: in_log_def same_content_def event_record_def)
  have "DecodeEnvelope u raw = Inr (compacted e)"
    using reads_accepted [OF assms(1) b i(2) raw(1)] by (simp add: compacted_def)
  with raw(2,3) show ?thesis by (auto simp: carries_def value_of_def intro!: bexI [of _ r])
qed

lemma pipeline_inv_step:
  assumes "uuid_codec u" "pipeline_inv u q s" "step u p q s s'"
  shows "pipeline_inv u q s'"
  using assms(3)
proof (cases rule: step.cases)
  case (request produce w allowance batch c c' w')
  have ok: "log_ok (d_log w)" using assms(2) request(3) by (simp add: pipeline_inv_def)
  from ingest_log [OF request(2) ok request(4)] obtain app where app:
    "d_log w' = events s @ app" "log_ok (events s @ app)" using request(3) by auto
  have "carries u (set (d_log w')) (compacted e)" if "e \<in> acked s'" for e
  proof (cases "e \<in> acked s")
    case True
    with assms(2) app(1) show ?thesis unfolding pipeline_inv_def by (auto intro: carries_mono)
  next
    case False
    with that request(1) have "r_status c' = 202" "e \<in> set (accepted_by u batch c (w_now w))"
      by (auto split: if_splits)
    then show ?thesis by (rule acknowledged_carried [OF assms(1) request(2,4)])
  qed
  moreover have "safe u (in_quarantine q) (set (d_log w')) (stored s)"
    using safe_append [OF _ app(2), of u "in_quarantine q" "stored s"] assms(2) app(1) by (simp add: pipeline_inv_def)
  ultimately show ?thesis using request(1) app by (auto simp: pipeline_inv_def)
next
  case (request_dies produce w allowance batch c c' w' d)
  have ok: "log_ok (d_log w)" using assms(2) request_dies(3) by (simp add: pipeline_inv_def)
  from ingest_log [OF request_dies(2) ok request_dies(5)] obtain app where
    app: "log_ok (events s @ app)" and d: "d \<in> set (appended_states w app)"
    using request_dies(3,4,6) by auto
  from d obtain now later where split: "app = now @ later" "d_log d = events s @ now"
    using request_dies(3) appended_states_log by metis
  have "log_ok (events s @ now)" using app split(1) log_ok_prefix by (metis append_assoc)
  then show ?thesis
    using request_dies(1) split(2) assms(2) safe_append [of u "in_quarantine q" "events s" "stored s" now]
    by (auto simp: pipeline_inv_def intro: carries_mono)
next
  case (consume exec produce commit poll w finish tie cfg fuel ctx stop_at w' res d)
  have "safe u (in_quarantine q) (set (events s)) w"
    using assms(2) consume(6) safe_truncate by (metis pipeline_inv_def)
  from consumer_run_safe [OF consume(2-5) this consume(7,8)] consume(9) assms(2)
  show ?thesis using consume(1) by (auto simp: pipeline_inv_def)
qed

lemma fresh_inv: "pipeline_inv u q fresh"
  by (simp add: pipeline_inv_def fresh_def log_ok_def safe_def genuine_def)

lemma reachable_inv: "reachable u p q s \<Longrightarrow> uuid_codec u \<Longrightarrow> pipeline_inv u q s"
  by (induction rule: reachable.induct) (auto intro: fresh_inv pipeline_inv_step)

section \<open>What the pipeline promises\<close>

text \<open>
  The contract, without topics, offsets or crashes: events are offered, requests are answered
  only for offered events, and rows are only added, each for an offered event.
\<close>

record promise =
  offered :: "Envelope set"
  answered :: "Envelope set"
  rows :: table

inductive promise_step :: "promise \<Rightarrow> promise \<Rightarrow> bool" where
  offer:
    "compacted ` more_answered \<subseteq> offered a \<union> more_offered \<Longrightarrow>
     promise_step a (a\<lparr>offered := offered a \<union> more_offered, answered := answered a \<union> more_answered\<rparr>)"
| put:
    "rows a \<subseteq>\<^sub>m t \<Longrightarrow> (\<And>k e. t k = Some e \<Longrightarrow> e \<in> offered a \<and> key_of e = k) \<Longrightarrow>
     promise_step a (a\<lparr>rows := t\<rparr>)"

definition promise_of :: "uuid_pkg \<Rightarrow> pipeline \<Rightarrow> promise" where
  "promise_of u s =
     \<lparr>offered = {e. carries u (set (events s)) e}, answered = acked s, rows = d_table (stored s)\<rparr>"

lemma offer_step:
  assumes "pipeline_inv u q s" "pipeline_inv u q s'" "stored s' = stored s"
    and "set (events s) \<subseteq> set (events s')" "acked s \<subseteq> acked s'"
  shows "promise_step (promise_of u s) (promise_of u s')"
proof -
  have "promise_of u s' = (promise_of u s)\<lparr>offered := offered (promise_of u s) \<union> offered (promise_of u s'),
      answered := answered (promise_of u s) \<union> acked s'\<rparr>"
    using assms(3-5) carries_mono [OF _ assms(4)] by (auto simp: promise_of_def)
  moreover have "compacted ` acked s' \<subseteq> offered (promise_of u s) \<union> offered (promise_of u s')"
    using assms(2) by (auto simp: pipeline_inv_def promise_of_def)
  ultimately show ?thesis by (metis promise_step.offer)
qed

lemma step_refines:
  assumes "uuid_codec u" "pipeline_inv u q s" "step u p q s s'"
  shows "promise_step (promise_of u s) (promise_of u s')"
  using assms(3)
proof (cases rule: step.cases)
  case (request produce w allowance batch c c' w')
  have "log_ok (d_log w)" using assms(2) request(3) by (simp add: pipeline_inv_def)
  from ingest_log [OF request(2) this request(4)] request(3) have "set (events s) \<subseteq> set (d_log w')" by auto
  then show ?thesis
    using request(1) by (intro offer_step [OF assms(2) pipeline_inv_step [OF assms]]) auto
next
  case (request_dies produce w allowance batch c c' w' d)
  have "log_ok (d_log w)" using assms(2) request_dies(3) by (simp add: pipeline_inv_def)
  from ingest_log [OF request_dies(2) this request_dies(5)] obtain app where "d \<in> set (appended_states w app)"
    using request_dies(4,6) by auto
  from appended_states_log [OF this] request_dies(3) have "set (events s) \<subseteq> set (d_log d)" by auto
  then show ?thesis
    using request_dies(1) by (intro offer_step [OF assms(2) pipeline_inv_step [OF assms]]) auto
next
  case (consume exec produce commit poll w finish tie cfg fuel ctx stop_at w' res d)
  have w: "safe u (in_quarantine q) (set (events s)) w" "d_table w = d_table (stored s)"
    using assms(2) consume(6) safe_truncate truncate_simps by (metis pipeline_inv_def)+
  with consumer_run_safe [OF consume(2-5) w(1) consume(7,8)] consume(9)
  have d: "safe u (in_quarantine q) (set (events s)) d" "rows (promise_of u s) \<subseteq>\<^sub>m d_table d"
    by (auto simp: promise_of_def)
  have "promise_of u s' = (promise_of u s)\<lparr>rows := d_table d\<rparr>"
    using consume(1) by (simp add: promise_of_def)
  moreover have "promise_step (promise_of u s) ((promise_of u s)\<lparr>rows := d_table d\<rparr>)"
    using d by (intro promise_step.put) (auto simp: safe_def genuine_def promise_of_def)
  ultimately show ?thesis by simp
qed

section \<open>Properties\<close>


lemma sample_reachable:
  obtains s where "reachable uuid_canonical sample_publisher sample_publisher s" "acked s = {sample_event}"
proof (rule sample_ingest)
  fix c' w' assume run: "ingest uuid_canonical (Publish uuid_canonical (kgo_example {} {}) sample_publisher)
      second False sample_request quiet_world = (c', w')" "r_status c' = 202"
  have "accepted_by uuid_canonical False sample_request (w_now quiet_world) = [sample_event]"
    using sample_decodes sample_accepts by (simp add: accepted_by_def sample_request_def)
  moreover have "d_log quiet_world = events fresh" by (simp add: quiet_world_def fresh_def)
  note step.request [OF kgo_example_contract this run(1), of sample_publisher]
  ultimately show thesis
    using run(2) by (intro that [OF reachable.more_steps [OF reachable.start]]) (auto simp: fresh_def)
qed


text \<open>
  C12. The pipeline refines its contract: every step of the API or the consumer, crashes included,
  is a step of the contract, so every reachable state is one the contract allows.  In particular
  a row never changes or disappears and no row appears for an event that was not offered.
\<close>

theorem pipeline_refines_promise:
  assumes "uuid_codec u" "reachable u p q s"
  shows "promise_step\<^sup>*\<^sup>* (promise_of u fresh) (promise_of u s)"
  using assms(2)
proof (induction rule: reachable.induct)
  case (more_steps s s')
  from step_refines [OF assms(1) reachable_inv [OF more_steps(1) assms(1)] more_steps(2)] more_steps(3)
  show ?case by simp
qed simp

theorem pipeline_refines_promise_witness:
  "\<exists>s. acked s = {sample_event} \<and> promise_step\<^sup>*\<^sup>* (promise_of uuid_canonical fresh) (promise_of uuid_canonical s)"
proof (rule sample_reachable)
  fix s assume "reachable uuid_canonical sample_publisher sample_publisher s" "acked s = {sample_event}"
  with pipeline_refines_promise [OF uuid_canonical_codec this(1)] show ?thesis by blast
qed



end
