(* ===== verification/Go_Url.thy ===== *)
theory Go_Url
  imports Ingest_Prelude
begin

text \<open>
  Go's \<^verbatim>\<open>net/url\<close> as the configuration uses it (the library of Go 1.24, the version in
  \<^verbatim>\<open>go.mod\<close>): \<^verbatim>\<open>Parse\<close> with the scheme and the host it yields, or an error.  User, path, query
  and fragment only matter in that their escapes must be well formed.
\<close>

section \<open>Pieces\<close>

definition is_alnum :: "char \<Rightarrow> bool" where
  "is_alnum c \<longleftrightarrow> between 97 122 c \<or> between 65 90 c \<or> between 48 57 c"

definition unhex :: "char \<Rightarrow> nat" where
  "unhex c = (if between 48 57 c then byte c - 48 else if between 97 102 c then byte c - 87
              else if between 65 70 c then byte c - 55 else 0)"

definition lower :: "char \<Rightarrow> char" where
  \<comment> \<open>\<^verbatim>\<open>strings.ToLower\<close> on a byte below 128\<close>
  "lower c = (if between 65 90 c then char_of (byte c + 32) else c)"

definition cut_at :: "char \<Rightarrow> bytes \<Rightarrow> bytes \<times> bytes" where
  \<comment> \<open>\<^verbatim>\<open>strings.Cut\<close>: all of the text when there is no separator\<close>
  "cut_at sep s = (takeWhile (\<lambda>c. c \<noteq> sep) s, drop 1 (dropWhile (\<lambda>c. c \<noteq> sep) s))"

definition split_last :: "char \<Rightarrow> bytes \<Rightarrow> (bytes \<times> bytes) option" where
  \<comment> \<open>around the last separator\<close>
  "split_last sep s =
     (if sep \<in> set s
      then Some (rev (drop 1 (dropWhile (\<lambda>c. c \<noteq> sep) (rev s))), rev (takeWhile (\<lambda>c. c \<noteq> sep) (rev s)))
      else None)"

datatype encoding = EncodeHost | EncodeZone | EncodeOther

definition host_char :: "char \<Rightarrow> bool" where
  \<comment> \<open>\<^verbatim>\<open>!shouldEscape\<close> for hosts and zones\<close>
  "host_char c \<longleftrightarrow>
     is_alnum c \<or> c \<in> set ''!$&()*+,;=:[]<>-_.~'' \<or> c = CHR 0x27 \<or> c = quote_c"

fun unescape :: "encoding \<Rightarrow> bytes \<Rightarrow> bytes option" where
  "unescape mode [] = Some []"
| "unescape mode (c # s) =
     (if c = CHR ''%'' then
        (case s of a # b # r \<Rightarrow>
           let v = unhex a * 16 + unhex b in
           if \<not> is_hex a \<or> \<not> is_hex b then None
           else if mode = EncodeHost \<and> unhex a < 8 \<and> [a, b] \<noteq> ''25'' then None
           else if mode = EncodeZone \<and> [a, b] \<noteq> ''25'' \<and> v \<noteq> 32 \<and> \<not> host_char (char_of v) then None
           else map_option (Cons (char_of v)) (unescape mode r)
         | _ \<Rightarrow> None)
      else if mode \<noteq> EncodeOther \<and> byte c < 128 \<and> \<not> host_char c then None
      else map_option (Cons c) (unescape mode s))"

definition upper_hex :: "nat \<Rightarrow> char" where
  "upper_hex n = ''0123456789ABCDEF'' ! n"

definition query_escape :: "bytes \<Rightarrow> bytes" where
  \<comment> \<open>\<^verbatim>\<open>QueryEscape\<close>\<close>
  "query_escape s =
     concat (map (\<lambda>c. if is_alnum c \<or> c \<in> set ''-_.~'' then [c]
                      else if c = CHR '' '' then ''+''
                      else [CHR ''%'', upper_hex (byte c div 16), upper_hex (byte c mod 16)]) s)"

definition validOptionalPort :: "bytes \<Rightarrow> bool" where
  "validOptionalPort port =
     (case port of [] \<Rightarrow> True | c # r \<Rightarrow> c = CHR '':'' \<and> list_all is_digit r)"

fun find_zone :: "bytes \<Rightarrow> (bytes \<times> bytes) option" where
  \<comment> \<open>around the first \<^verbatim>\<open>%25\<close>, which the second part keeps\<close>
  "find_zone [] = None"
| "find_zone (c # s) =
     (if take 3 (c # s) = ''%25'' then Some ([], c # s)
      else map_option (\<lambda>(a, b). (c # a, b)) (find_zone s))"

definition parseHost :: "bytes \<Rightarrow> bytes option" where
  "parseHost host =
     (if HasPrefix host ''['' then
        (case split_last CHR '']'' host of
           None \<Rightarrow> None
         | Some (inner, port) \<Rightarrow>
             if \<not> validOptionalPort port then None
             else (case find_zone inner of
                     None \<Rightarrow> unescape EncodeHost host
                   | Some (h1, h2) \<Rightarrow>
                       (case (unescape EncodeHost h1, unescape EncodeZone h2,
                              unescape EncodeHost (CHR '']'' # port)) of
                          (Some a, Some b, Some c) \<Rightarrow> Some (a @ b @ c)
                        | _ \<Rightarrow> None)))
      else case split_last CHR '':'' host of
             Some (_, port) \<Rightarrow> if list_all is_digit port then unescape EncodeHost host else None
           | None \<Rightarrow> unescape EncodeHost host)"

definition userinfo_char :: "char \<Rightarrow> bool" where
  "userinfo_char c \<longleftrightarrow> is_alnum c \<or> c \<in> set ''-._:~!$&()*+,;=%@'' \<or> c = CHR 0x27"

definition parseAuthority :: "bytes \<Rightarrow> bytes option" where
  \<comment> \<open>the host\<close>
  "parseAuthority authority =
     (case split_last CHR ''@'' authority of
        None \<Rightarrow> parseHost authority
      | Some (userinfo, host) \<Rightarrow>
          (case parseHost host of
             None \<Rightarrow> None
           | Some h \<Rightarrow>
               if list_all userinfo_char userinfo \<and> unescape EncodeOther userinfo \<noteq> None then Some h else None))"

section \<open>Parse\<close>

record url =
  Scheme :: bytes
  Host :: bytes

definition scheme_char :: "char \<Rightarrow> bool" where
  "scheme_char c \<longleftrightarrow> is_alnum c \<or> c \<in> set ''+-.''"

definition getScheme :: "bytes \<Rightarrow> (bytes \<times> bytes) option" where
  \<comment> \<open>no scheme is the empty one with the whole text left\<close>
  "getScheme raw =
     (case dropWhile scheme_char raw of
        c # r \<Rightarrow>
          if c \<noteq> CHR '':'' then Some ([], raw)
          else (case takeWhile scheme_char raw of
                  [] \<Rightarrow> None
                | d # ds \<Rightarrow>
                    if between 97 122 d \<or> between 65 90 d then Some (d # ds, r) else Some ([], raw))
      | [] \<Rightarrow> Some ([], raw))"

definition strip_query :: "bytes \<Rightarrow> bytes" where
  "strip_query rest = fst (cut_at CHR ''?'' rest)"

definition url_parse :: "bytes \<Rightarrow> url option" where
  \<comment> \<open>without the fragment\<close>
  "url_parse raw =
     (if \<exists>c \<in> set raw. byte c < 32 \<or> byte c = 127 then None
      else if raw = ''*'' then Some \<lparr>Scheme = [], Host = []\<rparr>
      else case getScheme raw of
             None \<Rightarrow> None
           | Some (sch, rest) \<Rightarrow>
               (let scheme = map lower sch; rest = strip_query rest in
                if \<not> HasPrefix rest ''/'' \<and> scheme \<noteq> [] then Some \<lparr>Scheme = scheme, Host = []\<rparr>
                else if \<not> HasPrefix rest ''/'' \<and> CHR '':'' \<in> set (fst (cut_at CHR ''/'' rest)) then None
                else if (scheme \<noteq> [] \<or> \<not> HasPrefix rest ''///'') \<and> HasPrefix rest ''//'' then
                  (let auth = takeWhile (\<lambda>c. c \<noteq> CHR ''/'') (drop 2 rest);
                       path = dropWhile (\<lambda>c. c \<noteq> CHR ''/'') (drop 2 rest)
                   in case parseAuthority auth of
                        None \<Rightarrow> None
                      | Some h \<Rightarrow>
                          if unescape EncodeOther path = None then None
                          else Some \<lparr>Scheme = scheme, Host = h\<rparr>)
                else if unescape EncodeOther rest = None then None
                else Some \<lparr>Scheme = scheme, Host = []\<rparr>))"

definition Parse :: "bytes \<Rightarrow> url option" where
  "Parse rawURL =
     (let (raw, frag) = cut_at CHR ''#'' rawURL in
      case url_parse raw of None \<Rightarrow> None
      | Some v \<Rightarrow> if unescape EncodeOther frag = None then None else Some v)"

section \<open>Facts\<close>

lemma cut_at_first: "sep \<notin> set (fst (cut_at sep s))"
  by (auto simp: cut_at_def dest: set_takeWhileD)

lemma cut_at_split: "\<exists>later. s = fst (cut_at sep s) @ later"
  by (metis cut_at_def fst_conv takeWhile_dropWhile_id)

lemma getScheme_split: "getScheme raw = Some (sch, rest) \<Longrightarrow> sch \<noteq> [] \<Longrightarrow> raw = sch @ CHR '':'' # rest"
proof -
  assume "getScheme raw = Some (sch, rest)" "sch \<noteq> []"
  then have "takeWhile scheme_char raw = sch" "dropWhile scheme_char raw = CHR '':'' # rest"
    by (auto simp: getScheme_def split: list.splits if_splits)
  then show ?thesis using takeWhile_dropWhile_id [of scheme_char raw] by simp
qed

lemma unescape_Nil: "unescape mode s = Some [] \<Longrightarrow> s = []"
  by (cases s) (auto split: if_splits list.splits simp: Let_def)

text \<open>A URL with a scheme and a host is the scheme, two slashes and a nonempty authority.\<close>

lemma url_parse_host:
  assumes "url_parse raw = Some v" "Scheme v \<noteq> []" "Host v \<noteq> []"
  shows "\<exists>sch auth later. raw = sch @ ''://'' @ auth @ later \<and> map lower sch = Scheme v \<and>
    parseAuthority auth = Some (Host v) \<and> CHR ''/'' \<notin> set auth"
proof -
  obtain sch rest where gs: "getScheme raw = Some (sch, rest)" "map lower sch = Scheme v"
    and slashes: "HasPrefix (strip_query rest) ''//''"
    and host: "parseAuthority (takeWhile (\<lambda>c. c \<noteq> CHR ''/'') (drop 2 (strip_query rest))) = Some (Host v)"
    using assms by (auto simp: url_parse_def Let_def split: if_splits option.splits)
  let ?auth = "takeWhile (\<lambda>c. c \<noteq> CHR ''/'') (drop 2 (strip_query rest))"
  obtain q where "strip_query rest = ''//'' @ q" using slashes by (auto simp: HasPrefix_iff)
  moreover from this obtain later where "rest = ''//'' @ ?auth @ later"
    using cut_at_split [of rest "CHR ''?''"] takeWhile_dropWhile_id [of "\<lambda>c. c \<noteq> CHR ''/''" q]
    by (metis append.assoc append_Cons append_Nil drop_Cons_numeral drop0 numeral_2_eq_2 strip_query_def drop_Suc_Cons)
  moreover have "sch \<noteq> []" using gs(2) assms(2) by (metis list.map_disc_iff)
  then have "raw = sch @ CHR '':'' # rest" using getScheme_split [OF gs(1)] by simp
  ultimately have "raw = sch @ ''://'' @ ?auth @ later" by simp
  moreover have "CHR ''/'' \<notin> set ?auth" by (auto dest: set_takeWhileD)
  ultimately show ?thesis using gs(2) host by blast
qed

end
