(* ===== verification/Config_Env.thy ===== *)
theory Config_Env
  imports Api Reader Go_Url
begin

text \<open>
  Package \<^verbatim>\<open>internal/config\<close>: the API keys from a JSON object, read token by token so that a
  duplicate key is an error, and the environments of the two processes.  The environment is the
  parameter \<open>get\<close>, as in the code.
\<close>

section \<open>api\_keys.go\<close>

definition tenant_of :: "token \<Rightarrow> bytes option" where
  \<comment> \<open>decoding a value into a string variable\<close>
  "tenant_of v = (case v of TString s \<Rightarrow> Some (unquote s) | TNull \<Rightarrow> Some [] | _ \<Rightarrow> None)"

text \<open>The loop over the entries; the flag says that none was read yet, so no comma is due.\<close>

fun parse_entries ::
  "bool \<Rightarrow> (bytes \<times> bytes) list \<Rightarrow> token list \<Rightarrow> ((bytes \<times> bytes) list \<times> token list) option"
where
  "parse_entries first keys (TRBrace # r) = Some (keys, r)"
| "parse_entries True keys (TString k # TColon # v # r) =
     (if unquote k \<in> fst ` set keys then None
      else case tenant_of v of None \<Rightarrow> None
           | Some t \<Rightarrow> parse_entries False (keys @ [(unquote k, t)]) r)"
| "parse_entries False keys (TComma # TString k # TColon # v # r) =
     (if unquote k \<in> fst ` set keys then None
      else case tenant_of v of None \<Rightarrow> None
           | Some t \<Rightarrow> parse_entries False (keys @ [(unquote k, t)]) r)"
| "parse_entries first keys ts = None"

definition ParseAPIKeys :: "bytes \<Rightarrow> (bytes \<times> bytes) list option" where
  [go_defs]: "ParseAPIKeys raw =
     (case map lx_token (lex raw) of
        TLBrace # ts \<Rightarrow>
          (case parse_entries True [] ts of Some (keys, []) \<Rightarrow> Some keys | _ \<Rightarrow> None)
      | _ \<Rightarrow> None)"

section \<open>runtime.go\<close>

record APIEnv =
  ListenAddress :: bytes
  EnvBrokers :: "bytes list"
  EventTopic :: bytes
  EnvAPIKeys :: "(bytes \<times> bytes) list"
  EnvRateLimitRPS :: int
  EnvPublishTimeout :: int

definition env_value :: "(bytes \<Rightarrow> bytes) \<Rightarrow> bytes \<Rightarrow> bytes \<Rightarrow> bytes" where
  [go_defs]: "env_value get k d = (if get k = [] then d else get k)"

definition brokers :: "(bytes \<Rightarrow> bytes) \<Rightarrow> bytes list" where
  [go_defs]: "brokers get = split_on CHR '','' (env_value get ''BROKERS'' ''localhost:19092'')"

definition LoadAPIEnv :: "(bytes \<Rightarrow> bytes) \<Rightarrow> bytes + APIEnv" where
  [go_defs]: "LoadAPIEnv get =
     (let c = \<lparr>ListenAddress = env_value get ''HTTP_ADDR'' '':8080'', EnvBrokers = brokers get,
               EventTopic = env_value get ''EVENT_TOPIC'' ''ingestkit.events'', EnvAPIKeys = [],
               EnvRateLimitRPS = 1000, EnvPublishTimeout = 5 * second\<rparr>
      in case ParseAPIKeys (get ''API_KEYS'') of
           None \<Rightarrow> Inl ''API_KEYS must be a nonempty JSON key-to-tenant map''
         | Some keys \<Rightarrow>
             if keys = [] then Inl ''API_KEYS must be a nonempty JSON key-to-tenant map''
             else if \<exists>(key, tenant) \<in> set keys. key = [] \<or> length tenant < 1 \<or> length tenant > 128
             then Inl ''invalid API_KEYS mapping''
             else (let raw = get ''RATE_LIMIT_RPS'' in
                   if raw = [] then Inr (c\<lparr>EnvAPIKeys := keys\<rparr>)
                   else case Atoi raw of
                          None \<Rightarrow> Inl ''RATE_LIMIT_RPS must be positive''
                        | Some n \<Rightarrow>
                            if n < 1 then Inl ''RATE_LIMIT_RPS must be positive''
                            else Inr (c\<lparr>EnvAPIKeys := keys, EnvRateLimitRPS := n\<rparr>)))"

text \<open>How \<^verbatim>\<open>cmd/api\<close> hands the environment to the publisher and the application.\<close>

definition api_publisher_config :: "APIEnv \<Rightarrow> PublisherConfig" where
  "api_publisher_config c =
     \<lparr>Brokers = EnvBrokers c, PTopic = EventTopic c, MaxBufferedBytes = 0, MaxBufferedRecords = 0,
      PublishTimeout = EnvPublishTimeout c\<rparr>"

definition api_config :: "APIEnv \<Rightarrow> Config" where
  "api_config c =
     \<lparr>APIKeys = EnvAPIKeys c, RateLimitRPS = EnvRateLimitRPS c, ApiPublishTimeout = EnvPublishTimeout c\<rparr>"

record ConsumerEnv =
  CListenAddress :: bytes
  CBrokers :: "bytes list"
  CEventTopic :: bytes
  CDLQTopic :: bytes
  CGroupID :: bytes
  DatabaseURL :: bytes

definition LoadConsumerEnv :: "(bytes \<Rightarrow> bytes) \<Rightarrow> bytes + ConsumerEnv" where
  [go_defs]: "LoadConsumerEnv get =
     (let c = \<lparr>CListenAddress = env_value get ''METRICS_ADDR'' '':8081'', CBrokers = brokers get,
               CEventTopic = env_value get ''EVENT_TOPIC'' ''ingestkit.events'',
               CDLQTopic = env_value get ''DLQ_TOPIC'' ''ingestkit.dlq'',
               CGroupID = env_value get ''CONSUMER_GROUP'' ''ingestkit-consumer'',
               DatabaseURL = get ''DATABASE_URL''\<rparr>
      in case Parse (DatabaseURL c) of
           None \<Rightarrow> Inl ''DATABASE_URL must be a PostgreSQL URL''
         | Some v \<Rightarrow>
             if Host v = [] \<or> (Scheme v \<noteq> ''postgres'' \<and> Scheme v \<noteq> ''postgresql'')
             then Inl ''DATABASE_URL must be a PostgreSQL URL'' else Inr c)"

text \<open>How \<^verbatim>\<open>cmd/consumer\<close> hands the environment to the reader.\<close>

definition consumer_reader_config :: "ConsumerEnv \<Rightarrow> ReaderConfig" where
  "consumer_reader_config c =
     \<lparr>OnOperation = True, RBrokers = CBrokers c, RTopic = CEventTopic c, DLQTopic = CDLQTopic c,
      GroupID = CGroupID c, BatchSize = 0, AttemptTimeout = 0, RetryWindow = 0, BackoffMin = 0,
      BackoffMax = 0\<rparr>"

section \<open>Facts\<close>

text \<open>The tokens of an object whose members are strings or null.\<close>

fun entry_tokens :: "bytes \<times> token \<Rightarrow> token list" where
  "entry_tokens (k, v) = [TString k, TColon, v]"

fun rest_tokens :: "(bytes \<times> token) list \<Rightarrow> token list" where
  "rest_tokens [] = []"
| "rest_tokens (e # es) = TComma # entry_tokens e @ rest_tokens es"

fun object_tokens :: "(bytes \<times> token) list \<Rightarrow> token list" where
  "object_tokens [] = [TLBrace, TRBrace]"
| "object_tokens (e # es) = TLBrace # entry_tokens e @ rest_tokens es @ [TRBrace]"

definition entry_value :: "bytes \<times> token \<Rightarrow> bytes \<times> bytes" where
  "entry_value = (\<lambda>(k, v). (unquote k, the (tenant_of v)))"

definition entries_ok :: "(bytes \<times> token) list \<Rightarrow> bool" where
  "entries_ok es \<longleftrightarrow> (\<forall>(k, v) \<in> set es. tenant_of v \<noteq> None)"

lemma parse_rest_sound:
  "parse_entries first keys ts = Some (keys', r) \<Longrightarrow> \<not> first \<Longrightarrow> distinct (map fst keys) \<Longrightarrow>
   \<exists>es. entries_ok es \<and> ts = rest_tokens es @ TRBrace # r \<and> keys' = keys @ map entry_value es \<and>
        distinct (map fst keys')"
proof (induction first keys ts rule: parse_entries.induct)
  case (3 keys k v r0)
  from "3.prems"(1) obtain t where t: "unquote k \<notin> fst ` set keys" "tenant_of v = Some t"
    "parse_entries False (keys @ [(unquote k, t)]) r0 = Some (keys', r)"
    by (auto split: if_splits option.splits)
  have "distinct (map fst (keys @ [(unquote k, t)]))" using "3.prems"(3) t(1) by auto
  from "3.IH" [OF t(1,2,3) _ this] obtain es where es: "entries_ok es" "r0 = rest_tokens es @ TRBrace # r"
    "keys' = (keys @ [(unquote k, t)]) @ map entry_value es" "distinct (map fst keys')" by auto
  then show ?case
    using t(2) by (intro exI [of _ "(k, v) # es"]) (auto simp: entries_ok_def entry_value_def)
qed (auto simp: entries_ok_def intro: exI [of _ "[]"])

lemma parse_rest_complete:
  "entries_ok es \<Longrightarrow> distinct (map fst (keys @ map entry_value es)) \<Longrightarrow>
   parse_entries False keys (rest_tokens es @ TRBrace # r) = Some (keys @ map entry_value es, r)"
proof (induction es arbitrary: keys)
  case (Cons e es)
  obtain k v where e: "e = (k, v)" by fastforce
  with Cons.prems(1) obtain t where t: "tenant_of v = Some t" by (auto simp: entries_ok_def)
  have "parse_entries False (keys @ [(unquote k, t)]) (rest_tokens es @ TRBrace # r) =
      Some ((keys @ [(unquote k, t)]) @ map entry_value es, r)"
    using Cons.prems e t by (intro Cons.IH) (auto simp: entries_ok_def entry_value_def)
  moreover have "unquote k \<notin> fst ` set keys"
    using Cons.prems(2) e by (auto simp: entry_value_def)
  ultimately show ?case using e t by (simp add: entry_value_def)
qed simp

lemma parse_first:
  "parse_entries True [] ts = Some (keys, []) \<longleftrightarrow>
   (\<exists>es. entries_ok es \<and> TLBrace # ts = object_tokens es \<and> keys = map entry_value es \<and> distinct (map fst keys))"
  (is "?lhs \<longleftrightarrow> ?rhs")
proof
  assume ?lhs
  then consider "ts = [TRBrace]" "keys = []"
    | k v r t where "ts = TString k # TColon # v # r" "tenant_of v = Some t"
        "parse_entries False [(unquote k, t)] r = Some (keys, [])"
    by (cases rule: parse_entries.cases [of "(True, [], ts)"]) (auto split: option.splits)
  then show ?rhs
  proof cases
    case 1
    then show ?thesis by (intro exI [of _ "[]"]) (simp add: entries_ok_def)
  next
    case 2
    from parse_rest_sound [OF 2(3)] obtain es where "entries_ok es" "r = rest_tokens es @ [TRBrace]"
      "keys = [(unquote k, t)] @ map entry_value es" "distinct (map fst keys)" by auto
    with 2 show ?thesis
      by (intro exI [of _ "(k, v) # es"]) (auto simp: entries_ok_def entry_value_def)
  qed
next
  assume ?rhs
  then obtain es where es: "entries_ok es" "TLBrace # ts = object_tokens es" "keys = map entry_value es"
    "distinct (map fst keys)" by blast
  show ?lhs
  proof (cases es)
    case (Cons e es')
    obtain k v where e: "e = (k, v)" by fastforce
    with Cons es(1) obtain t where t: "tenant_of v = Some t" by (auto simp: entries_ok_def)
    have "parse_entries False [(unquote k, t)] (rest_tokens es' @ [TRBrace]) =
        Some ([(unquote k, t)] @ map entry_value es', [])"
      using es Cons e t by (intro parse_rest_complete) (auto simp: entries_ok_def entry_value_def)
    with es Cons e t show ?thesis by (simp add: entry_value_def)
  qed (use es in simp)
qed

lemma ParseAPIKeys_entries:
  "ParseAPIKeys raw = Some keys \<longleftrightarrow>
   (\<exists>es. entries_ok es \<and> map lx_token (lex raw) = object_tokens es \<and> keys = map entry_value es \<and>
      distinct (map fst keys))"
proof (cases "\<exists>ts. map lx_token (lex raw) = TLBrace # ts")
  case True
  then obtain ts where ts: "map lx_token (lex raw) = TLBrace # ts" ..
  have "ParseAPIKeys raw = Some keys \<longleftrightarrow> parse_entries True [] ts = Some (keys, [])"
    unfolding ParseAPIKeys_def ts by (auto split: option.splits list.splits)
  then show ?thesis using parse_first [of ts keys] unfolding ts by (rule trans)
next
  case False
  have "\<exists>ts. object_tokens es = TLBrace # ts" for es by (cases es rule: object_tokens.cases) auto
  with False have "map lx_token (lex raw) \<noteq> object_tokens es" for es by metis
  moreover have "ParseAPIKeys raw = None"
    using False unfolding ParseAPIKeys_def by (auto split: list.splits token.splits)
  ultimately show ?thesis by simp
qed

lemma add_keys_distinct:
  "distinct (map fst ks) \<Longrightarrow>
   add_keys ks m = (if \<forall>(k, t) \<in> set ks. k \<noteq> [] \<and> ValidTenant t then Some (m ++ map_of ks) else None)"
proof (induction ks arbitrary: m)
  case (Cons kt ks)
  obtain k t where kt: "kt = (k, t)" by fastforce
  with Cons.prems have "k \<notin> dom (map_of ks)" by (auto simp: dom_map_of_conv_image_fst)
  then have "m(k \<mapsto> t) ++ map_of ks = m ++ map_of (kt # ks)"
    by (auto simp: kt fun_eq_iff map_add_def split: option.splits)
  with Cons kt show ?case by (auto simp: AddKey_def simp del: map_of.simps)
qed simp

lemma env_value_nonempty: "d \<noteq> [] \<Longrightarrow> env_value get k d \<noteq> []"
  by (simp add: env_value_def)

lemma brokers_nonempty: "brokers get \<noteq> []"
  by (simp add: brokers_def)

lemma LoadAPIEnv_Inr:
  assumes "LoadAPIEnv get = Inr c"
  shows "ParseAPIKeys (get ''API_KEYS'') = Some (EnvAPIKeys c)" "EnvAPIKeys c \<noteq> []" "1 \<le> EnvRateLimitRPS c"
    "EnvPublishTimeout c = 5 * second" "\<forall>(k, t) \<in> set (EnvAPIKeys c). k \<noteq> [] \<and> 1 \<le> length t \<and> length t \<le> 128"
    "EnvBrokers c \<noteq> [] \<and> EventTopic c \<noteq> []"
proof -
  obtain keys where keys: "ParseAPIKeys (get ''API_KEYS'') = Some keys"
    using assms by (cases "ParseAPIKeys (get ''API_KEYS'')") (simp_all add: LoadAPIEnv_def Let_def)
  let ?base = "\<lparr>ListenAddress = env_value get ''HTTP_ADDR'' '':8080'', EnvBrokers = brokers get,
    EventTopic = env_value get ''EVENT_TOPIC'' ''ingestkit.events'', EnvAPIKeys = keys,
    EnvRateLimitRPS = 1000, EnvPublishTimeout = 5 * second\<rparr>"
  have ok: "keys \<noteq> []" "\<not> (\<exists>(key, tenant) \<in> set keys. key = [] \<or> length tenant < 1 \<or> length tenant > 128)"
    using assms unfolding LoadAPIEnv_def Let_def keys by (auto split: if_splits)
  then obtain n where n: "c = ?base\<lparr>EnvRateLimitRPS := n\<rparr>" "1 \<le> n"
    using assms unfolding LoadAPIEnv_def Let_def keys
    by (cases "get ''RATE_LIMIT_RPS'' = []"; cases "Atoi (get ''RATE_LIMIT_RPS'')") (auto split: if_splits)
  then have "EnvAPIKeys c = keys" by simp
  moreover have "\<forall>(k, t) \<in> set keys. k \<noteq> [] \<and> 1 \<le> length t \<and> length t \<le> 128"
    using ok(2) by (auto simp: not_less Suc_le_eq)
  ultimately show "ParseAPIKeys (get ''API_KEYS'') = Some (EnvAPIKeys c)" "EnvAPIKeys c \<noteq> []" "1 \<le> EnvRateLimitRPS c"
    "EnvPublishTimeout c = 5 * second" "\<forall>(k, t) \<in> set (EnvAPIKeys c). k \<noteq> [] \<and> 1 \<le> length t \<and> length t \<le> 128"
    "EnvBrokers c \<noteq> [] \<and> EventTopic c \<noteq> []"
    using keys ok(1) n brokers_nonempty [of get] by (simp_all add: env_value_nonempty)
qed

lemma app_starts_if:
  assumes "LoadAPIEnv get = Inr c"
  shows "NewApp (api_config c) False =
     (if \<forall>(k, t) \<in> set (EnvAPIKeys c). validText t
      then Inr (\<lparr>app_keys = map_of (EnvAPIKeys c), app_timeout = 5 * second\<rparr>, NewRateLimiter (EnvRateLimitRPS c))
      else Inl ''invalid API key mapping'') \<and>
     (\<exists>p. snd (NewPublisher (api_publisher_config c) None m) = Inr p)"
proof -
  note c = LoadAPIEnv_Inr [OF assms]
  from c(1) have "distinct (map fst (EnvAPIKeys c))" by (auto simp: ParseAPIKeys_entries)
  from add_keys_distinct [OF this, of NewAPIKeyConfig] c(5)
  have "add_keys (EnvAPIKeys c) NewAPIKeyConfig =
      (if \<forall>(k, t) \<in> set (EnvAPIKeys c). validText t then Some (map_of (EnvAPIKeys c)) else None)"
    by (auto simp: ValidTenant_def NewAPIKeyConfig_def)
  moreover have "0 < second" "\<not> 5 * second < millisecond" by (simp_all add: second_def millisecond_def)
  ultimately show ?thesis
    using c by (auto simp: NewApp_def api_config_def api_publisher_config_def NewPublisher_def publisherDefaults_def Let_def)
qed

lemma app_starts:
  assumes "LoadAPIEnv get = Inr c" "\<forall>(k, t) \<in> set (EnvAPIKeys c). validText t"
  shows "NewApp (api_config c) False =
    Inr (\<lparr>app_keys = map_of (EnvAPIKeys c), app_timeout = 5 * second\<rparr>, NewRateLimiter (EnvRateLimitRPS c))"
  using app_starts_if [OF assms(1)] assms(2) by simp

section \<open>Properties\<close>

text \<open>
  C29. The key table is exactly what the JSON text says: parsing succeeds if and only if the text is
  one object, nothing after it, whose members are strings (or null), and no two member names are
  equal once their escapes are decoded; the entries are then the decoded members in order.
\<close>

theorem ParseAPIKeys_exact:
  "ParseAPIKeys raw = Some keys \<longleftrightarrow>
   (\<exists>es. (\<forall>(k, v) \<in> set es. tenant_of v \<noteq> None) \<and> map lx_token (lex raw) = object_tokens es \<and>
      keys = map (\<lambda>(k, v). (unquote k, the (tenant_of v))) es \<and> distinct (map fst keys))"
  unfolding ParseAPIKeys_entries entries_ok_def entry_value_def ..

theorem ParseAPIKeys_exact_witness:
  "\<exists>es. map lx_token (lex (''{'' @ quoted ''k1'' @ '':'' @ quoted ''acme'' @ ''}'')) = object_tokens es \<and>
     [(''k1'', ''acme'')] = map (\<lambda>(k, v). (unquote k, the (tenant_of v))) es"
proof -
  have "ParseAPIKeys (''{'' @ quoted ''k1'' @ '':'' @ quoted ''acme'' @ ''}'') = Some [(''k1'', ''acme'')]" by code_simp
  from ParseAPIKeys_exact [THEN iffD1, OF this] show ?thesis by (elim exE conjE) (intro exI conjI)
qed

text \<open>
  C30. A configuration that loads starts the application, with exactly the keys of the
  environment, unless a tenant is not valid text: then, and only then, \<^verbatim>\<open>NewApp\<close> refuses it.
  The publisher it configures has a broker, a topic and a positive timeout.
\<close>

theorem api_environment_starts:
  assumes "LoadAPIEnv get = Inr c"
  shows "NewApp (api_config c) False =
     (if \<forall>(k, t) \<in> set (EnvAPIKeys c). validText t
      then Inr (\<lparr>app_keys = map_of (EnvAPIKeys c), app_timeout = 5 * second\<rparr>, NewRateLimiter (EnvRateLimitRPS c))
      else Inl ''invalid API key mapping'') \<and>
     (\<exists>p. snd (NewPublisher (api_publisher_config c) None m) = Inr p)"
  using assms by (rule app_starts_if)

theorem api_environment_starts_witness:
  "\<exists>c. LoadAPIEnv (\<lambda>k. if k = ''API_KEYS'' then ''{'' @ quoted ''k1'' @ '':'' @ quoted ''acme'' @ ''}'' else []) = Inr c \<and>
     NewApp (api_config c) False = Inr (\<lparr>app_keys = map_of [(''k1'', ''acme'')], app_timeout = 5 * second\<rparr>, NewRateLimiter 1000)"
proof -
  let ?get = "\<lambda>k. if k = ''API_KEYS'' then ''{'' @ quoted ''k1'' @ '':'' @ quoted ''acme'' @ ''}'' else []"
  have keys: "ParseAPIKeys (''{'' @ quoted ''k1'' @ '':'' @ quoted ''acme'' @ ''}'') = Some [(''k1'', ''acme'')]"
    by code_simp
  then obtain c where c: "LoadAPIEnv ?get = Inr c" "EnvAPIKeys c = [(''k1'', ''acme'')]" "EnvRateLimitRPS c = 1000"
    by (simp add: LoadAPIEnv_def)
  from api_environment_starts [OF c(1)] c show ?thesis by (auto simp: validText_def)
qed

text \<open>
  A consumer configuration that loads names a PostgreSQL database: its URL is a scheme that is
  postgres or postgresql up to case, then two slashes, then a nonempty authority.  The reader it
  configures passes the checks of \<^verbatim>\<open>NewReader\<close>, with all limits at their defaults.
\<close>

theorem consumer_environment_valid:
  assumes "LoadConsumerEnv get = Inr c"
  shows "(\<exists>sch auth later. DatabaseURL c = sch @ ''://'' @ auth @ later \<and> auth \<noteq> [] \<and> CHR ''/'' \<notin> set auth \<and>
      map lower sch \<in> {''postgres'', ''postgresql''}) \<and>
    valid_reader (readerDefaults (consumer_reader_config c)) \<and>
    (\<exists>r. snd (NewReader (consumer_reader_config c) False None None m) = Inr r)"
proof -
  obtain v where v: "Parse (DatabaseURL c) = Some v" "Host v \<noteq> []" "Scheme v \<in> {''postgres'', ''postgresql''}"
    and names: "CBrokers c \<noteq> []" "CEventTopic c \<noteq> []" "CDLQTopic c \<noteq> []" "CGroupID c \<noteq> []"
    using assms
    by (auto simp: LoadConsumerEnv_def Let_def brokers_def env_value_def split: option.splits if_splits)
  let ?raw = "fst (cut_at CHR ''#'' (DatabaseURL c))"
  have "url_parse ?raw = Some v" using v(1) by (auto simp: Parse_def split: prod.splits option.splits if_splits)
  moreover have "Scheme v \<noteq> []" using v(3) by auto
  ultimately obtain sch auth later where u: "?raw = sch @ ''://'' @ auth @ later"
    "map lower sch = Scheme v" "parseAuthority auth = Some (Host v)" "CHR ''/'' \<notin> set auth"
    using url_parse_host [OF _ _ v(2)] by metis
  obtain frag where "DatabaseURL c = ?raw @ frag" using cut_at_split by blast
  with u(1) have "DatabaseURL c = sch @ ''://'' @ auth @ (later @ frag)" by simp
  moreover have "auth \<noteq> []" using u(3) v(2) by (auto simp: parseAuthority_def parseHost_def split_last_def HasPrefix_def)
  moreover have valid: "valid_reader (readerDefaults (consumer_reader_config c))"
    using names
    by (simp add: valid_reader_def readerDefaults_def consumer_reader_config_def second_def millisecond_def)
  moreover have "\<exists>r. snd (NewReader (consumer_reader_config c) False None None m) = Inr r"
    using valid names
    by (auto simp: NewReader_def Let_def NewPublisher_def publisherDefaults_def readerDefaults_def
        consumer_reader_config_def second_def millisecond_def split: prod.splits sum.splits)
  ultimately show ?thesis using u(2,4) v(3) by metis
qed

definition sample_database :: bytes where
  "sample_database = ''postgres://u:p@db:5432/ingestkit?sslmode=disable''"

lemma sample_database_loads:
  "\<exists>c. LoadConsumerEnv (\<lambda>k. if k = ''DATABASE_URL'' then sample_database else []) = Inr c"
proof -
  have "case Parse sample_database of None \<Rightarrow> False | Some v \<Rightarrow> Scheme v = ''postgres'' \<and> Host v \<noteq> []" by code_simp
  then show ?thesis by (auto simp: LoadConsumerEnv_def split: option.splits)
qed

theorem consumer_environment_valid_witness:
  "\<exists>c. LoadConsumerEnv (\<lambda>k. if k = ''DATABASE_URL'' then sample_database else []) = Inr c \<and>
     valid_reader (readerDefaults (consumer_reader_config c))"
  using sample_database_loads consumer_environment_valid by blast

end
