(* ===== verification/Service.thy ===== *)
theory Service
  imports Go_Time "HOL-Library.Sublist"
begin

text \<open>
  Package \<^verbatim>\<open>internal/service\<close>: processing health, rate limited diagnostics, shutdown,
  supervision and the readiness probe.  Functions the code receives (the steps of a shutdown,
  the supervised attempt, the HTTP client) are parameters that answer with the time they return.
\<close>

section \<open>health.go\<close>

record ProcessingHealth =
  failed :: "bytes set"

definition NewProcessingHealth :: ProcessingHealth where
  [go_defs]: "NewProcessingHealth = \<lparr>failed = {}\<rparr>"

text \<open>The error is reduced to whether there is one.\<close>

definition Observe :: "bytes \<Rightarrow> bool \<Rightarrow> ProcessingHealth \<Rightarrow> ProcessingHealth" where
  [go_defs]: "Observe operation is_err h =
     (if is_err then h\<lparr>failed := insert operation (failed h)\<rparr>
      else h\<lparr>failed := failed h - {operation}\<rparr>)"

definition Ready :: "ProcessingHealth \<Rightarrow> bool" where
  [go_defs]: "Ready h \<longleftrightarrow> failed h = {}"

section \<open>diagnostics.go\<close>

text \<open>What \<^verbatim>\<open>errors.Is\<close> and \<^verbatim>\<open>errors.As\<close> find in an error; its text is never read.\<close>

record err_facets =
  is_deadline :: bool
  is_canceled :: bool
  pg_code :: "bytes option"
  is_network :: bool

record diagnosticState =
  ds_failed :: bool
  ds_last :: int
  ds_suppressed :: int

record Diagnostics =
  cooldown :: int
  states :: "bytes \<Rightarrow> diagnosticState"  \<comment> \<open>the zero state where the map has no entry\<close>

datatype level = Info | Warn

record log_line =
  ll_level :: level
  ll_operation :: bytes
  ll_partition :: int
  ll_offset :: int
  ll_suppressed :: int
  ll_topic :: "bytes option"
  ll_class :: "bytes option"
  ll_sqlstate :: "bytes option"

definition zero_state :: diagnosticState where
  "zero_state = \<lparr>ds_failed = False, ds_last = 0, ds_suppressed = 0\<rparr>"

definition NewDiagnostics :: "int \<Rightarrow> Diagnostics" where
  [go_defs]: "NewDiagnostics cd =
     \<lparr>cooldown = (if cd \<le> 0 then 10 * second else cd), states = (\<lambda>_. zero_state)\<rparr>"

definition topic_char :: "char \<Rightarrow> bool" where
  "topic_char c \<longleftrightarrow> between 97 122 c \<or> between 65 90 c \<or> is_digit c \<or> c = CHR ''.'' \<or> c = CHR ''_'' \<or> c = CHR ''-''"

definition diagnosticTopic :: "bytes \<Rightarrow> bool" where
  [go_defs]: "diagnosticTopic s \<longleftrightarrow> 1 \<le> length s \<and> length s \<le> 249 \<and> list_all topic_char s"

definition diagnosticSQLState :: "bytes \<Rightarrow> bool" where
  [go_defs]: "diagnosticSQLState s \<longleftrightarrow> length s = 5 \<and> list_all (\<lambda>c. between 65 90 c \<or> is_digit c) s"

definition reported_kind :: "bytes \<Rightarrow> bool" where
  "reported_kind k \<longleftrightarrow> k = ''startup'' \<or> k = ''storage'' \<or> k = ''quarantine'' \<or> k = ''progress''"

definition error_class :: "err_facets \<Rightarrow> bytes \<times> bytes option" where
  "error_class e =
     (if is_deadline e then (''deadline'', None)
      else if is_canceled e then (''canceled'', None)
      else case pg_code e of
             Some code \<Rightarrow> (''database'', if diagnosticSQLState code then Some code else None)
           | None \<Rightarrow> if is_network e then (''network'', None) else (''operation'', None))"

definition Report ::
  "int \<Rightarrow> bytes \<Rightarrow> bytes \<Rightarrow> int \<Rightarrow> int \<Rightarrow> err_facets option \<Rightarrow> Diagnostics \<Rightarrow> Diagnostics \<times> log_line list"
where
  [go_defs]: "Report now kind topic part offset err d =
     (if \<not> reported_kind kind then (d, [])
      else
        (let state = states d kind;
             line = \<lparr>ll_level = Info, ll_operation = kind, ll_partition = part, ll_offset = offset,
                     ll_suppressed = ds_suppressed state,
                     ll_topic = (if diagnosticTopic topic then Some topic else None),
                     ll_class = None, ll_sqlstate = None\<rparr>
         in case err of
              None \<Rightarrow>
                if \<not> ds_failed state then (d, [])
                else (d\<lparr>states := (states d)(kind := zero_state)\<rparr>, [line])
            | Some e \<Rightarrow>
                if ds_failed state \<and> now - ds_last state < cooldown d
                then (d\<lparr>states := (states d)(kind := state\<lparr>ds_suppressed := ds_suppressed state + 1\<rparr>)\<rparr>, [])
                else (d\<lparr>states := (states d)(kind := \<lparr>ds_failed = True, ds_last = now, ds_suppressed = 0\<rparr>)\<rparr>,
                      [line\<lparr>ll_level := Warn, ll_class := Some (fst (error_class e)),
                            ll_sqlstate := snd (error_class e)\<rparr>])))"

section \<open>lifecycle.go\<close>

text \<open>
  A step of a shutdown is started at a time, with a context, and answers when it returns and
  its error.  \<^verbatim>\<open>close\<close> may never return (\<open>None\<close>).  Joined errors are a list.
\<close>

type_synonym step = "ctx \<Rightarrow> int \<Rightarrow> int \<times> bytes option"

datatype drain_error = StepError bytes | DrainCtx ctx_error

definition Drain ::
  "ctx \<Rightarrow> step \<Rightarrow> step \<Rightarrow> (int \<Rightarrow> int option) \<Rightarrow> (int \<Rightarrow> bool) \<Rightarrow> int \<Rightarrow> (int \<times> drain_error list) option"
where
  \<comment> \<open>the last function decides when closing and the context end at the same time\<close>
  [go_defs]: "Drain ctx stop flush close tie now =
     (let (t1, e1) = stop ctx now; (t2, e2) = flush ctx t1;
          result = map StepError ((case e1 of None \<Rightarrow> [] | Some e \<Rightarrow> [e]) @ (case e2 of None \<Rightarrow> [] | Some e \<Rightarrow> [e]))
      in case (close t2, ctx) of
           (None, None) \<Rightarrow> None
         | (Some tc, None) \<Rightarrow> Some (max t2 tc, result)
         | (None, Some (td, e)) \<Rightarrow> Some (max t2 td, result @ [DrainCtx e])
         | (Some tc, Some (td, e)) \<Rightarrow>
             if max t2 tc < max t2 td \<or> (max t2 tc = max t2 td \<and> tie t2)
             then Some (max t2 tc, result)
             else Some (max t2 td, result @ [DrainCtx e]))"

datatype sup_error = Attempt bytes | SupCtx ctx_error

text \<open>
  The supervision loop.  \<open>attempt n\<close> is the n-th attempt; \<open>pick\<close> chooses among the channels that
  are ready at the same time: 0 the stop, 1 the work context, 2 the timer.  The answer has the
  times at which attempts were started; \<open>None\<close> as a result means the fuel ran out.
\<close>

definition done_at :: "ctx \<Rightarrow> int \<Rightarrow> int option" where
  \<comment> \<open>when a wait that starts now sees the context end\<close>
  "done_at ctx now = map_option (\<lambda>(t, _). max now t) ctx"

fun first_ready :: "(nat \<times> int) list \<Rightarrow> (nat \<Rightarrow> nat) \<Rightarrow> nat \<Rightarrow> int \<times> nat" where
  \<comment> \<open>the earliest of the channels, ties broken by preference\<close>
  "first_ready [] pref best = (0, best)"
| "first_ready [(k, t)] pref best = (t, k)"
| "first_ready ((k, t) # xs) pref best =
     (let (t', k') = first_ready xs pref best in
      if t < t' \<or> (t = t' \<and> pref k \<le> pref k') then (t, k) else (t', k'))"

definition channels :: "ctx \<Rightarrow> ctx \<Rightarrow> int \<Rightarrow> int \<Rightarrow> (nat \<times> int) list" where
  "channels stop work backoff now =
     (case done_at stop now of None \<Rightarrow> [] | Some t \<Rightarrow> [(0, t)])
     @ (case done_at work now of None \<Rightarrow> [] | Some t \<Rightarrow> [(1, t)]) @ [(2, now + backoff)]"

fun Supervise ::
  "nat \<Rightarrow> ctx \<Rightarrow> ctx \<Rightarrow> (nat \<Rightarrow> int \<Rightarrow> int \<times> bytes option) \<Rightarrow> (nat \<Rightarrow> nat \<Rightarrow> nat) \<Rightarrow> int \<Rightarrow> nat \<Rightarrow> int \<Rightarrow>
   int list \<times> (int \<times> sup_error list) option"
where
  "Supervise 0 stop work attempt pref backoff n now = ([], None)"
| "Supervise (Suc fuel) stop work attempt pref backoff n now =
     (case ctx_err work now of
        Some e \<Rightarrow> ([], Some (now, [SupCtx e]))
      | None \<Rightarrow>
          if ctx_err stop now \<noteq> None then ([], Some (now, []))
          else
            (case attempt n now of (t, err) \<Rightarrow>
              (let errs = (case err of None \<Rightarrow> [] | Some x \<Rightarrow> [Attempt x]) in
               case ctx_err work t of
                 Some e \<Rightarrow> ([now], Some (t, errs @ [SupCtx e]))
               | None \<Rightarrow>
                   if ctx_err stop t \<noteq> None then ([now], Some (t, errs))
                   else
                     (case first_ready (channels stop work backoff t) (pref n) 2 of (t', k) \<Rightarrow>
                        if k = 0 then ([now], Some (t', errs))
                        else if k = 1 then ([now], Some (t', map SupCtx (case work of None \<Rightarrow> [] | Some (_, e) \<Rightarrow> [e])))
                        else (case Supervise fuel stop work attempt pref backoff (Suc n) t' of
                                (ts, r) \<Rightarrow> (now # ts, r))))))"

section \<open>The readiness probe\<close>

definition last_index :: "char \<Rightarrow> bytes \<Rightarrow> nat option" where
  "last_index c s =
     (if c \<in> set s then Some (length s - 1 - length (takeWhile (\<lambda>x. x \<noteq> c) (rev s))) else None)"

definition first_index :: "char \<Rightarrow> bytes \<Rightarrow> nat option" where
  "first_index c s = (if c \<in> set s then Some (length (takeWhile (\<lambda>x. x \<noteq> c) s)) else None)"

text \<open>\<^verbatim>\<open>net.SplitHostPort\<close>; the message of its error is not used.\<close>

definition SplitHostPort :: "bytes \<Rightarrow> (bytes \<times> bytes) option" where
  "SplitHostPort s =
     (case last_index CHR '':'' s of None \<Rightarrow> None
      | Some i \<Rightarrow>
          (case (if take 1 s = ''['' then
                   (case first_index CHR '']'' s of None \<Rightarrow> None
                    | Some e \<Rightarrow> if e + 1 = i then Some (take (e - 1) (drop 1 s), 1, e + 1) else None)
                 else if CHR '':'' \<in> set (take i s) then None else Some (take i s, 0, 0)) of
             None \<Rightarrow> None
           | Some (host, j, k) \<Rightarrow>
               if CHR ''['' \<in> set (drop j s) \<or> CHR '']'' \<in> set (drop k s) then None
               else Some (host, drop (i + 1) s)))"

definition JoinHostPort :: "bytes \<Rightarrow> bytes \<Rightarrow> bytes" where
  "JoinHostPort host port =
     (if CHR '':'' \<in> set host then ''['' @ host @ '']:'' @ port else host @ '':'' @ port)"

text \<open>\<open>get\<close> is the HTTP client: an error, or the status of the response.\<close>

definition Check :: "(bytes \<Rightarrow> bytes + int) \<Rightarrow> bytes \<Rightarrow> bytes option" where
  [go_defs]: "Check get address =
     (case SplitHostPort address of
        None \<Rightarrow> Some ''address''
      | Some (host, port) \<Rightarrow>
          (let host = (if host = [] \<or> host = ''0.0.0.0'' then ''127.0.0.1'' else host) in
           case get (''http://'' @ JoinHostPort host port @ ''/ready'') of
             Inl e \<Rightarrow> Some e
           | Inr status \<Rightarrow>
               if status \<noteq> 200 then Some (''service not ready: HTTP '' @ Itoa status) else None))"

section \<open>logging.go\<close>

datatype log_level = LevelDebug | LevelInfo | LevelWarn | LevelError

definition ConfigureLogging :: "(bytes \<Rightarrow> bytes) \<Rightarrow> log_level" where
  \<comment> \<open>the level of the handler that becomes the default\<close>
  [go_defs]: "ConfigureLogging env =
     (if env ''LOG_LEVEL'' = ''debug'' then LevelDebug
      else if env ''LOG_LEVEL'' = ''warn'' then LevelWarn
      else if env ''LOG_LEVEL'' = ''error'' then LevelError else LevelInfo)"

section \<open>Properties of health and diagnostics\<close>

definition outcomes_of :: "bytes \<Rightarrow> (bytes \<times> bool) list \<Rightarrow> bool list" where
  "outcomes_of op obs = map snd (filter (\<lambda>x. fst x = op) obs)"

lemma failed_after:
  "op \<in> failed (fold (\<lambda>(k, e). Observe k e) obs NewProcessingHealth) \<longleftrightarrow>
   outcomes_of op obs \<noteq> [] \<and> last (outcomes_of op obs)"
  by (induction obs rule: rev_induct)
     (auto simp: Observe_def NewProcessingHealth_def outcomes_of_def split: if_splits)

text \<open>
  C39. Whatever operations were observed, in any order and by any number of readers, the consumer
  is ready exactly when the last observation of every operation was a success: one failed
  operation keeps it unready until that same operation succeeds.
\<close>

theorem Ready_iff_all_recovered:
  "Ready (fold (\<lambda>(k, e). Observe k e) obs NewProcessingHealth) \<longleftrightarrow>
   (\<forall>op. outcomes_of op obs \<noteq> [] \<longrightarrow> \<not> last (outcomes_of op obs))"
  unfolding Ready_def using failed_after by blast

theorem Ready_iff_all_recovered_witness:
  "\<not> Ready (fold (\<lambda>(k, e). Observe k e)
       [(''write'', True), (''commit'', False)] NewProcessingHealth)"
  using Ready_iff_all_recovered [of "[(''write'', True), (''commit'', False)]"]
  by (auto simp: outcomes_of_def intro: exI [of _ "''write''"])

record report =
  rp_now :: int
  rp_topic :: bytes
  rp_partition :: int
  rp_offset :: int
  rp_err :: "err_facets option"

fun report_all :: "bytes \<Rightarrow> report list \<Rightarrow> Diagnostics \<Rightarrow> Diagnostics \<times> log_line list" where
  "report_all kind [] d = (d, [])"
| "report_all kind (r # rs) d =
     (let (d1, l1) = Report (rp_now r) kind (rp_topic r) (rp_partition r) (rp_offset r) (rp_err r) d;
          (d2, l2) = report_all kind rs d1 in (d2, l1 @ l2))"

definition warns :: "log_line list \<Rightarrow> int" where
  "warns ls = int (length (filter (\<lambda>l. ll_level l = Warn) ls))"

definition told :: "log_line list \<Rightarrow> int" where
  \<comment> \<open>the failures the lines account for: their own and the suppressed ones they mention\<close>
  "told ls = warns ls + sum_list (map ll_suppressed ls)"

definition settled :: "diagnosticState \<Rightarrow> bool" where
  \<comment> \<open>nothing is suppressed while an operation works\<close>
  "settled st \<longleftrightarrow> (\<not> ds_failed st \<longrightarrow> ds_suppressed st = 0)"

lemma Report_step:
  assumes "reported_kind kind" and "Report now kind topic part off err d = (d', ls)" and "settled (states d kind)"
  shows "settled (states d' kind) \<and> cooldown d' = cooldown d \<and>
         told ls + ds_suppressed (states d' kind) = ds_suppressed (states d kind) + (if err = None then 0 else 1)"
  using assms
  by (auto simp: Report_def told_def warns_def zero_state_def settled_def Let_def split: option.splits if_splits)

lemma report_all_accounts:
  assumes "reported_kind kind"
  shows "settled (states d kind) \<Longrightarrow> report_all kind rs d = (d', ls) \<Longrightarrow>
         settled (states d' kind) \<and>
         told ls + ds_suppressed (states d' kind) =
           ds_suppressed (states d kind) + int (length (filter (\<lambda>r. rp_err r \<noteq> None) rs))"
proof (induction rs arbitrary: d ls)
  case Nil
  then show ?case by (simp add: told_def warns_def)
next
  case (Cons r rs)
  obtain d1 l1 where r1: "Report (rp_now r) kind (rp_topic r) (rp_partition r) (rp_offset r) (rp_err r) d = (d1, l1)"
    by fastforce
  obtain l2 where r2: "report_all kind rs d1 = (d', l2)" "ls = l1 @ l2"
    using Cons.prems(2) r1 by (auto simp: Let_def split: prod.splits)
  have "told (l1 @ l2) = told l1 + told l2" by (simp add: told_def warns_def)
  with Report_step [OF assms r1 Cons.prems(1)] Cons.IH [OF _ r2(1)] r2(2) show ?case by auto
qed

text \<open>
  C40. The diagnostics hide nothing: over any sequence of reports of one operation, failures and
  recoveries mixed, every failure is either a warning line, or counted in the suppressed field of
  a later line, or still held in the state for the next line.
\<close>

theorem diagnostics_account_for_failures:
  assumes "reported_kind kind" and "report_all kind rs (NewDiagnostics cd) = (d, ls)"
  shows "int (length (filter (\<lambda>r. rp_err r \<noteq> None) rs)) = told ls + ds_suppressed (states d kind)"
  using report_all_accounts [OF assms(1), of "NewDiagnostics cd" rs d ls] assms(2)
  by (simp add: NewDiagnostics_def zero_state_def settled_def)

definition sample_failure :: "int \<Rightarrow> report" where
  "sample_failure t =
     \<lparr>rp_now = t, rp_topic = ''events'', rp_partition = 0, rp_offset = 5,
      rp_err = Some \<lparr>is_deadline = False, is_canceled = False, pg_code = Some ''40001'', is_network = False\<rparr>\<rparr>"

theorem diagnostics_account_for_failures_witness:
  "\<exists>d ls. report_all ''storage'' [sample_failure 1, sample_failure 2, sample_failure 3] (NewDiagnostics 10) = (d, ls) \<and>
     3 = told ls + ds_suppressed (states d ''storage'')"
proof -
  obtain d ls where run:
    "report_all ''storage'' [sample_failure 1, sample_failure 2, sample_failure 3] (NewDiagnostics 10) = (d, ls)"
    by fastforce
  have "reported_kind ''storage''" by (simp add: reported_kind_def)
  from diagnostics_account_for_failures [OF this run] run show ?thesis by (auto simp: sample_failure_def)
qed

lemma Report_failure:
  assumes "reported_kind kind" and "Report now kind topic part off (Some e) d = (d', ls)"
    and "ds_failed (states d kind) \<Longrightarrow> ds_last (states d kind) \<le> now"
  shows "ds_failed (states d' kind) \<and> ds_last (states d' kind) \<le> now \<and> cooldown d' = cooldown d \<and>
         (ds_failed (states d kind) \<longrightarrow> ds_last (states d' kind) \<ge> ds_last (states d kind) + warns ls * cooldown d) \<and>
         0 \<le> warns ls \<and> warns ls \<le> 1 \<and> (\<not> ds_failed (states d kind) \<longrightarrow> warns ls = 1 \<and> ds_last (states d' kind) = now)"
  using assms by (auto simp: Report_def warns_def Let_def split: if_splits)

lemma report_all_spacing:
  assumes "reported_kind kind" and "0 \<le> cooldown d" and "ds_failed (states d kind)"
    and "sorted (ds_last (states d kind) # map rp_now rs)" and "\<forall>r \<in> set rs. rp_err r \<noteq> None"
    and "report_all kind rs d = (d', ls)"
  shows "ds_last (states d kind) + warns ls * cooldown d \<le> last (ds_last (states d kind) # map rp_now rs)"
  using assms(2-6)
proof (induction rs arbitrary: d ls)
  case Nil
  then show ?case by (simp add: warns_def)
next
  case (Cons r rs)
  from Cons.prems(4) obtain e where e: "rp_err r = Some e" by auto
  obtain d1 l1 where r1: "Report (rp_now r) kind (rp_topic r) (rp_partition r) (rp_offset r) (Some e) d = (d1, l1)"
    by fastforce
  obtain l2 where r2: "report_all kind rs d1 = (d', l2)" "ls = l1 @ l2"
    using Cons.prems(5) r1 e by (auto simp: Let_def split: prod.splits)
  have f: "ds_failed (states d1 kind)" "ds_last (states d1 kind) \<le> rp_now r" "cooldown d1 = cooldown d"
      "ds_last (states d1 kind) \<ge> ds_last (states d kind) + warns l1 * cooldown d"
    using Report_failure [OF assms(1) r1] Cons.prems(2,3) by auto
  have "ds_last (states d1 kind) + warns l2 * cooldown d1 \<le> last (ds_last (states d1 kind) # map rp_now rs)"
    using Cons.prems(1,3,4) f(1-3) by (intro Cons.IH r2(1)) auto
  also have "\<dots> \<le> last (rp_now r # map rp_now rs)" using f(2) by (cases rs) auto
  finally have "ds_last (states d kind) + (warns l1 + warns l2) * cooldown d \<le> last (rp_now r # map rp_now rs)"
    using f(3,4) by (simp add: algebra_simps)
  then show ?case using r2(2) by (simp add: warns_def)
qed

text \<open>
  An operation that keeps failing cannot flood the log: while it fails without a recovery,
  warnings are at least a cooldown apart, so n warnings take at least n - 1 cooldowns.
\<close>

theorem diagnostics_rate:
  assumes "reported_kind kind" and "rs \<noteq> []" and "sorted (map rp_now rs)"
    and "\<forall>r \<in> set rs. rp_err r \<noteq> None" and "report_all kind rs (NewDiagnostics cd) = (d, ls)"
  shows "(warns ls - 1) * cooldown d \<le> rp_now (last rs) - rp_now (hd rs) \<and> 0 < cooldown (NewDiagnostics cd)"
proof -
  let ?d = "NewDiagnostics cd"
  obtain r rs' where rs: "rs = r # rs'" using assms(2) by (cases rs) auto
  then obtain e where e: "rp_err r = Some e" using assms(4) by auto
  have zero: "\<not> ds_failed (states ?d kind)" and cd: "0 < cooldown ?d"
    by (simp_all add: NewDiagnostics_def zero_state_def second_def)
  obtain d1 l1 where r1: "Report (rp_now r) kind (rp_topic r) (rp_partition r) (rp_offset r) (Some e) ?d = (d1, l1)"
    by fastforce
  obtain l2 where r2: "report_all kind rs' d1 = (d, l2)" "ls = l1 @ l2"
    using assms(5) r1 e rs by (auto simp: Let_def split: prod.splits)
  have f: "ds_failed (states d1 kind)" "cooldown d1 = cooldown ?d" "warns l1 = 1" "ds_last (states d1 kind) = rp_now r"
    using Report_failure [OF assms(1) r1] zero by auto
  have same: "cooldown d' = cooldown d0" if "report_all kind xs d0 = (d', l)" for xs d0 d' l
    using that
  proof (induction xs arbitrary: d0 l)
    case (Cons x xs)
    then show ?case by (auto simp: Report_def Let_def split: prod.splits option.splits if_splits)
  qed simp
  have "rp_now r + warns l2 * cooldown d1 \<le> last (rp_now r # map rp_now rs')"
    using report_all_spacing [OF assms(1) _ f(1) _ _ r2(1)] f cd assms(3,4) rs by auto
  moreover have "last (rp_now r # map rp_now rs') = rp_now (last rs)" by (simp add: rs last_map)
  moreover have "warns ls - 1 = warns l2" using r2(2) f(3) by (simp add: warns_def)
  ultimately show ?thesis using same [OF assms(5)] f(2) cd rs by simp
qed

theorem diagnostics_rate_witness:
  "\<exists>d ls. report_all ''storage'' [sample_failure 1, sample_failure 2, sample_failure 30] (NewDiagnostics 10) = (d, ls) \<and>
     (warns ls - 1) * cooldown d \<le> 29"
proof -
  let ?rs = "[sample_failure 1, sample_failure 2, sample_failure 30]"
  obtain d ls where run: "report_all ''storage'' ?rs (NewDiagnostics 10) = (d, ls)" by fastforce
  have "reported_kind ''storage''" by (simp add: reported_kind_def)
  from diagnostics_rate [OF this _ _ _ run] run show ?thesis by (auto simp: sample_failure_def)
qed

section \<open>Properties of supervision and shutdown\<close>

lemma channels_timer:
  assumes "first_ready (channels stop work backoff now) pref 2 = (t, k)"
  shows "k \<in> {0, 1, 2} \<and> now + backoff \<ge> t \<and>
         (k = 2 \<longrightarrow> t = now + backoff \<and> (\<forall>ts e. stop = Some (ts, e) \<longrightarrow> now + backoff \<le> max now ts))"
  using assms
  by (cases stop; cases work) (auto simp: channels_def done_at_def Let_def split: if_splits prod.splits)

definition lasting :: "(nat \<Rightarrow> int \<Rightarrow> int \<times> bytes option) \<Rightarrow> bool" where
  \<comment> \<open>an attempt does not end before it starts\<close>
  "lasting attempt \<longleftrightarrow> (\<forall>n now. now \<le> fst (attempt n now))"

lemma Supervise_starts:
  assumes "lasting attempt" and "0 \<le> backoff"
  shows "Supervise fuel stop work attempt pref backoff n now = (ts, r) \<Longrightarrow>
         (\<forall>t \<in> set ts. now \<le> t \<and> ctx_err stop t = None \<and> ctx_err work t = None) \<and>
         sorted_wrt (\<lambda>a b. a + backoff \<le> b) ts"
proof (induction fuel arbitrary: n now ts r)
  case (Suc fuel)
  obtain t err where att: "attempt n now = (t, err)" by fastforce
  with assms(1) have le: "now \<le> t" unfolding lasting_def by (metis fst_conv)
  obtain t' k where fr: "first_ready (channels stop work backoff t) (pref n) 2 = (t', k)" by fastforce
  from Suc.prems consider "ts = []" | "ts = [now]" "ctx_err stop now = None" "ctx_err work now = None"
    | ts' where "ts = now # ts'" "ctx_err stop now = None" "ctx_err work now = None" "k = 2"
        "Supervise fuel stop work attempt pref backoff (Suc n) t' = (ts', r)"
    using att fr channels_timer [OF fr]
    by (auto simp: Let_def split: option.splits if_splits prod.splits)
  then show ?case
  proof cases
    case 3
    with channels_timer [OF fr] have "now + backoff \<le> t'" using le by auto
    with 3 Suc.IH [OF 3(5)] assms(2) show ?thesis by fastforce
  qed auto
qed simp

lemma Supervise_returns:
  assumes "lasting attempt" and "0 < backoff" and "stop = Some (ts, e)"
    and "ts - now < int fuel * backoff" and "0 < fuel"
  shows "\<exists>x. snd (Supervise fuel stop work attempt pref backoff n now) = Some x"
  using assms(4,5)
proof (induction fuel arbitrary: n now)
  case (Suc fuel)
  obtain t err where att: "attempt n now = (t, err)" by fastforce
  with assms(1) have le: "now \<le> t" unfolding lasting_def by (metis fst_conv)
  obtain t' k where fr: "first_ready (channels stop work backoff t) (pref n) 2 = (t', k)" by fastforce
  have "\<exists>x. snd (Supervise fuel stop work attempt pref backoff (Suc n) t') = Some x" if "k = 2"
  proof -
    from channels_timer [OF fr] that assms(2,3) have t': "t' = t + backoff" "t' \<le> ts" by auto
    with le Suc.prems(1) have "ts - t' < int fuel * backoff" by (simp add: algebra_simps)
    moreover from this t'(2) have "0 < fuel" by (cases fuel) auto
    ultimately show ?thesis by (rule Suc.IH)
  qed
  then show ?case
    using att fr channels_timer [OF fr] by (auto simp: Let_def split: option.splits prod.splits)
qed simp





end
