(* ===== verification/Process.thy ===== *)
theory Process
  imports Config_Env Service Reader_Safety
begin

text \<open>
  The two processes, \<^verbatim>\<open>cmd/api\<close> and \<^verbatim>\<open>cmd/consumer\<close>: how they wire the components together,
  what they do when something fails to start, and how they stop.  Goroutines are given by the
  times at which they finish, a \<^verbatim>\<open>select\<close> takes the earliest, and a flag decides between channels
  that are ready together.  The acts are the effects on resources, in order.
\<close>

section \<open>Errors and resources\<close>

definition ctx_text :: "ctx_error \<Rightarrow> bytes" where
  "ctx_text e = (case e of Canceled \<Rightarrow> ''context canceled'' | DeadlineExceeded \<Rightarrow> ''context deadline exceeded'')"

definition Join :: "bytes option list \<Rightarrow> bytes option" where
  \<comment> \<open>\<^verbatim>\<open>errors.Join\<close>: nil ones are dropped, the others stand on lines of their own\<close>
  "Join errs =
     (case List.map_filter id errs of [] \<Rightarrow> None
      | e # es \<Rightarrow> Some (e @ concat (map (Cons newline_c) es)))"

lemma Join_None [simp]: "Join errs = None \<longleftrightarrow> (\<forall>e \<in> set errs. e = None)"
proof -
  have "List.map_filter id errs = [] \<longleftrightarrow> (\<forall>e \<in> set errs. e = None)"
    by (induction errs) (auto simp: List.map_filter_def split: option.splits)
  then show ?thesis by (auto simp: Join_def split: list.splits)
qed

datatype act =
    OpenPublisher | ClosePublisher | StartLimiter | StopLimiter | OpenListener | CloseListener
  | OpenPool | ClosePool | StopPollingReader | CancelWorker | MarkShutdown

definition ten_seconds :: int where
  "ten_seconds = 10 * second"

section \<open>cmd/api\<close>

datatype serve_end = ServeNil | ServeClosed | ServeErr bytes

definition serve_error :: "serve_end \<Rightarrow> bytes option" where
  \<comment> \<open>\<^verbatim>\<open>net.ErrClosed\<close> is not an error\<close>
  "serve_error s = (case s of ServeErr e \<Rightarrow> Some e | _ \<Rightarrow> None)"

record api_env =
  ae_client_err :: "bytes option"  \<comment> \<open>of the Kafka client\<close>
  ae_listen_err :: "bytes option"
  ae_serve :: "(int \<times> serve_end) option"  \<comment> \<open>when the server stops by itself\<close>
  ae_signal :: "int option"
  ae_tie :: bool
  ae_shutdown :: "ctx \<Rightarrow> int \<Rightarrow> int \<times> serve_end"
  ae_flush :: step
  ae_close :: "int \<Rightarrow> int option"
  ae_close_tie :: "int \<Rightarrow> bool"

definition api_stop :: "(ctx \<Rightarrow> int \<Rightarrow> int \<times> serve_end) \<Rightarrow> step" where
  \<comment> \<open>the first step of the drain; it also closes the listener\<close>
  "api_stop shutdown c now = (case shutdown c now of (t, s) \<Rightarrow> (t, serve_error s))"

definition serves_first :: "(int \<times> 'e) option \<Rightarrow> int option \<Rightarrow> bool \<Rightarrow> bool" where
  \<comment> \<open>whether the server's end is what the select of \<^verbatim>\<open>run\<close> takes\<close>
  "serves_first served signal tie =
     (case (served, signal) of
        (None, _) \<Rightarrow> False | (Some _, None) \<Rightarrow> True | (Some (t, _), Some s) \<Rightarrow> t < s \<or> (t = s \<and> tie))"

text \<open>The second part is \<open>None\<close> when the process keeps serving.\<close>

definition api_run :: "(bytes \<Rightarrow> bytes) \<Rightarrow> api_env \<Rightarrow> int \<Rightarrow> act list \<times> (int \<times> drain_error list) option" where
  "api_run get env now =
     (case LoadAPIEnv get of
        Inl e \<Rightarrow> ([], Some (now, [StepError e]))
      | Inr cfg \<Rightarrow>
          (case NewPublisher (api_publisher_config cfg) (ae_client_err env) (Some New) of
             (m, Inl e) \<Rightarrow> ([], Some (now, [StepError e]))
           | (m, Inr p) \<Rightarrow>
               (case NewApp (api_config cfg) False of
                  Inl e \<Rightarrow> ([OpenPublisher, ClosePublisher], Some (now, [StepError e]))
                | Inr (a, rl) \<Rightarrow>
                    (case ae_listen_err env of
                       Some e \<Rightarrow> ([OpenPublisher, StartLimiter, ClosePublisher, StopLimiter], Some (now, [StepError e]))
                     | None \<Rightarrow>
                         if serves_first (ae_serve env) (ae_signal env) (ae_tie env)
                         then (case the (ae_serve env) of (t, s) \<Rightarrow>
                                ([OpenPublisher, StartLimiter, OpenListener, ClosePublisher, StopLimiter],
                                 Some (max now t, map StepError (case serve_error s of None \<Rightarrow> [] | Some e \<Rightarrow> [e]))))
                         else (case ae_signal env of
                                 None \<Rightarrow> ([OpenPublisher, StartLimiter, OpenListener], None)
                               | Some s \<Rightarrow>
                                   ([OpenPublisher, StartLimiter, OpenListener, CloseListener, ClosePublisher, StopLimiter],
                                    Drain (with_timeout None (max now s) ten_seconds) (api_stop (ae_shutdown env))
                                      (ae_flush env) (ae_close env) (ae_close_tie env) (max now s)))))))"

definition check_command :: "bytes list \<Rightarrow> bool" where
  "check_command argv \<longleftrightarrow> (case argv of [_, a] \<Rightarrow> a = ''check'' | _ \<Rightarrow> False)"

definition probe_exit :: "(bytes \<Rightarrow> bytes) \<Rightarrow> bytes \<Rightarrow> bytes \<Rightarrow> (bytes \<Rightarrow> bytes + int) \<Rightarrow> nat" where
  \<comment> \<open>the exit code of the check command: the variable with the address, its default, the client\<close>
  "probe_exit get var dflt client =
     (case Check client (env_value get var dflt) of None \<Rightarrow> 0 | Some _ \<Rightarrow> 1)"

definition api_main ::
  "bytes list \<Rightarrow> (bytes \<Rightarrow> bytes) \<Rightarrow> (bytes \<Rightarrow> bytes + int) \<Rightarrow> api_env \<Rightarrow> int \<Rightarrow> nat option"
where
  \<comment> \<open>the exit code\<close>
  "api_main argv get client env now =
     (if check_command argv then Some (probe_exit get ''HTTP_ADDR'' '':8080'' client)
      else map_option (\<lambda>(t, errs). if errs = [] then 0 else 1) (snd (api_run get env now)))"

section \<open>cmd/consumer: readiness\<close>

definition Reader_Ping :: "bytes + topic_meta list \<Rightarrow> bytes + topic_meta list \<Rightarrow> bytes option" where
  \<comment> \<open>the metadata of the event topic, then of the dead letter topic\<close>
  "Reader_Ping event_topic dead_letters =
     (case topicReady event_topic of Some e \<Rightarrow> Some e | None \<Rightarrow> topicReady dead_letters)"

definition reader_ping :: "((bytes + topic_meta list) \<times> (bytes + topic_meta list)) option \<Rightarrow> bytes option" where
  \<comment> \<open>\<open>None\<close> while no attempt has a reader\<close>
  "reader_ping current =
     (case current of None \<Rightarrow> Some ''reader unavailable'' | Some (ev, dl) \<Rightarrow> Reader_Ping ev dl)"

definition readiness :: "ProcessingHealth \<Rightarrow> bytes option \<Rightarrow> bytes option \<Rightarrow> int \<times> bytes" where
  \<comment> \<open>the status and the body\<close>
  "readiness health store_err reader_err =
     (if \<not> Ready health \<or> store_err \<noteq> None \<or> reader_err \<noteq> None
      then (503, ''dependencies or processing unavailable'' @ [newline_c]) else (200, []))"

section \<open>cmd/consumer: one supervised attempt\<close>

record consumer_state =
  cs_world :: world
  cs_health :: ProcessingHealth
  cs_diag :: Diagnostics
  cs_lines :: "log_line list"

datatype attempt_error = PingFailed | ReaderFailed bytes | RunFailed msg_error

record attempt_env =
  at_ping :: "int \<Rightarrow> int \<times> err_facets option"  \<comment> \<open>of the store, within a second\<close>
  at_built :: "int \<Rightarrow> int"  \<comment> \<open>when the reader is built\<close>
  at_client_err :: "bytes option"
  at_pub_err :: "bytes option"
  at_reader :: "Publisher \<Rightarrow> reader_env"
  at_facets :: "msg_error \<Rightarrow> err_facets"
  at_start_facets :: "bytes \<Rightarrow> err_facets"
  at_clock :: "nat \<Rightarrow> int"  \<comment> \<open>the time of the n-th callback\<close>

definition startup_report :: "int \<Rightarrow> err_facets option \<Rightarrow> consumer_state \<Rightarrow> consumer_state" where
  "startup_report now err st =
     (case Report now ''startup'' [] (-1) (-1) err (cs_diag st) of
        (d, ls) \<Rightarrow> st\<lparr>cs_diag := d, cs_lines := cs_lines st @ ls\<rparr>)"

definition on_operation :: "(msg_error \<Rightarrow> err_facets) \<Rightarrow> int \<Rightarrow> Operation \<Rightarrow> consumer_state \<Rightarrow> consumer_state" where
  \<comment> \<open>the callback of the reader\<close>
  "on_operation facets now op st =
     (case Report now (Kind op) (OpTopic op) (OpPartition op) (OpOffset op) (map_option facets (OpErr op)) (cs_diag st) of
        (d, ls) \<Rightarrow> st\<lparr>cs_health := Observe (Kind op) (OpErr op \<noteq> None) (cs_health st),
                     cs_diag := d, cs_lines := cs_lines st @ ls\<rparr>)"

fun on_operations :: "attempt_env \<Rightarrow> nat \<Rightarrow> Operation list \<Rightarrow> consumer_state \<Rightarrow> consumer_state" where
  "on_operations env n [] st = st"
| "on_operations env n (op # ops) st =
     on_operations env (Suc n) ops (on_operation (at_facets env) (at_clock env n) op st)"

definition earlier :: "int \<Rightarrow> int option \<Rightarrow> int option" where
  \<comment> \<open>two calls of \<^verbatim>\<open>StopPolling\<close>: the first one closes the channel\<close>
  "earlier t stop_at = (case stop_at of None \<Rightarrow> StopPolling t None
     | Some s \<Rightarrow> if s \<le> t then StopPolling t (Some s) else StopPolling s (Some t))"

text \<open>
  The closure that \<^verbatim>\<open>run\<close> hands to \<^verbatim>\<open>Supervise\<close>: \<open>stop\<close> is the context of the signal, \<open>work\<close> the
  one of the attempt, \<open>stop_at\<close> the time the shutdown stops polling.  The second part is \<open>None\<close>
  while the reader still runs.
\<close>

definition attempt ::
  "attempt_env \<Rightarrow> ConsumerEnv \<Rightarrow> nat \<Rightarrow> ctx \<Rightarrow> ctx \<Rightarrow> int option \<Rightarrow> consumer_state \<Rightarrow>
   consumer_state \<times> (attempt_error option) option"
where
  "attempt env cfg fuel stop work stop_at st =
     (let w = cs_world st; (t, perr) = at_ping env (w_now w);
          st = startup_report t perr (st\<lparr>cs_world := w\<lparr>w_now := t\<rparr>\<rparr>)
      in if perr \<noteq> None then (st, Some (Some PingFailed))
         else if ctx_err stop t \<noteq> None then (st, Some None)
         else
           (let t2 = at_built env t in
            case NewReader (consumer_reader_config cfg) False (at_client_err env) (at_pub_err env) (w_metrics w) of
              (m, Inl e) \<Rightarrow>
                (startup_report t2 (Some (at_start_facets env e)) (st\<lparr>cs_world := w\<lparr>w_now := t2, w_metrics := m\<rparr>\<rparr>),
                 Some (Some (ReaderFailed e)))
            | (m, Inr (rc, p)) \<Rightarrow>
                (let stop_at = (if ctx_err stop t2 \<noteq> None then earlier t2 stop_at else stop_at);
                     (w', res) = run_loop (at_reader env p) rc fuel work stop_at
                       (w\<lparr>w_now := t2, w_metrics := m, w_ops := []\<rparr>);
                     st = on_operations env 0 (w_ops w') (st\<lparr>cs_world := w'\<rparr>)
                 in (st, map_option (map_option RunFailed) res))))"

section \<open>cmd/consumer: stopping\<close>

definition drainConsumer ::
  "int \<times> ctx_error \<Rightarrow> (int \<times> bytes option) option \<Rightarrow> bool \<Rightarrow> int \<Rightarrow> act list \<times> int \<times> bytes option"
where
  \<comment> \<open>the context's end, when the worker reports, and what a tie does\<close>
  "drainConsumer ends worker tie now =
     (let td = max now (fst ends);
          gave_up = ([StopPollingReader, CancelWorker], td, Some (ctx_text (snd ends)))
      in case worker of
           None \<Rightarrow> gave_up
         | Some (tw, err) \<Rightarrow>
             if max now tw < td \<or> (max now tw = td \<and> tie) then ([StopPollingReader], max now tw, err)
             else gave_up)"

definition consumer_stop ::
  "(int \<times> bytes option) option \<Rightarrow> bool \<Rightarrow> step \<Rightarrow> int \<times> ctx_error \<Rightarrow> int \<Rightarrow> int \<times> bytes option"
where
  \<comment> \<open>the first step of the drain, under the context that ends at \<open>ends\<close>: the worker, then the
     HTTP server\<close>
  "consumer_stop worker tie shutdown ends now =
     (case drainConsumer ends worker tie now of (_, t, err) \<Rightarrow>
        (case shutdown (Some ends) t of (t', err') \<Rightarrow> (t', Join [err, err'])))"

record consumer_proc =
  cp_pool_err :: "bytes option"
  cp_listen_err :: "bytes option"
  cp_attempt :: "nat \<Rightarrow> int \<Rightarrow> int \<times> bytes option"  \<comment> \<open>when the n-th attempt ends, and its error\<close>
  cp_pref :: "nat \<Rightarrow> nat \<Rightarrow> nat"
  cp_serve :: "(int \<times> bytes) option"
  cp_signal :: "int option"
  cp_tie :: bool
  cp_worker_tie :: bool
  cp_shutdown :: step
  cp_close :: "int \<Rightarrow> int option"
  cp_close_tie :: "int \<Rightarrow> bool"

definition sup_text :: "sup_error \<Rightarrow> bytes" where
  "sup_text e = (case e of Attempt x \<Rightarrow> x | SupCtx c \<Rightarrow> ctx_text c)"

definition worker :: "consumer_proc \<Rightarrow> ctx \<Rightarrow> ctx \<Rightarrow> int \<Rightarrow> int \<Rightarrow> (int \<times> bytes option) option" where
  \<comment> \<open>the goroutine that supervises, until one of the contexts ends at \<open>limit\<close>\<close>
  "worker env stop work limit now =
     map_option (\<lambda>(t, errs). (t, Join (map (Some \<circ> sup_text) errs)))
       (snd (Supervise (nat ((limit - now) div second) + 1) stop work (cp_attempt env) (cp_pref env) second 0 now))"

text \<open>The acts up to the return; the deferred cancellation of the worker that follows is not one.\<close>

definition consumer_run ::
  "(bytes \<Rightarrow> bytes) \<Rightarrow> consumer_proc \<Rightarrow> int \<Rightarrow> act list \<times> (int \<times> drain_error list) option"
where
  "consumer_run get env now =
     (case LoadConsumerEnv get of
        Inl e \<Rightarrow> ([], Some (now, [StepError e]))
      | Inr cfg \<Rightarrow>
          (case cp_pool_err env of
             Some e \<Rightarrow> ([], Some (now, [StepError e]))
           | None \<Rightarrow>
               (case cp_listen_err env of
                  Some e \<Rightarrow> ([OpenPool, ClosePool], Some (now, [StepError e]))
                | None \<Rightarrow>
                    (let served = serves_first (cp_serve env) (cp_signal env) (cp_tie env);
                         stop = map_option (\<lambda>s. (s, Canceled)) (cp_signal env);
                         work = (if served then map_option (\<lambda>(t, _). (t, Canceled)) (cp_serve env) else None)
                     in case (if served then map_option fst (cp_serve env) else cp_signal env) of
                          None \<Rightarrow> ([OpenPool, OpenListener], None)
                        | Some at_end \<Rightarrow>
                            (let began = max now at_end;
                                 ends = deadline None began ten_seconds;
                                 done_by = worker env stop work at_end now;
                                 serve_errs = (if served then [StepError (snd (the (cp_serve env)))] else []);
                                 drained = Drain (Some ends) (\<lambda>c. consumer_stop done_by (cp_worker_tie env) (cp_shutdown env) ends)
                                   (\<lambda>c t. (t, None)) (cp_close env) (cp_close_tie env) began
                             in ([OpenPool, OpenListener] @ (if served then [CancelWorker] else []) @ [MarkShutdown]
                                   @ fst (drainConsumer ends done_by (cp_worker_tie env) began)
                                   @ [CloseListener, ClosePool],
                                 map_option (\<lambda>(t, errs). (t, serve_errs @ errs)) drained))))))"

definition consumer_main ::
  "bytes list \<Rightarrow> (bytes \<Rightarrow> bytes) \<Rightarrow> (bytes \<Rightarrow> bytes + int) \<Rightarrow> consumer_proc \<Rightarrow> int \<Rightarrow> nat option"
where
  "consumer_main argv get client env now =
     (if check_command argv then Some (probe_exit get ''METRICS_ADDR'' '':8081'' client)
      else map_option (\<lambda>(t, errs). if errs = [] then 0 else 1) (snd (consumer_run get env now)))"

section \<open>Stopping in time\<close>

text \<open>
  What both shutdowns rely on: a step that is given a context returns by its end.  Then the
  whole drain does, whatever closing does.
\<close>

definition honours :: "step \<Rightarrow> bool" where
  "honours f \<longleftrightarrow> (\<forall>td e now. now \<le> td \<longrightarrow> fst (f (Some (td, e)) now) \<le> td)"

lemma honoursD: "honours f \<Longrightarrow> now \<le> td \<Longrightarrow> f (Some (td, e)) now = (t, x) \<Longrightarrow> t \<le> td"
  unfolding honours_def by (metis fst_conv)

locale bounded_shutdown =
  fixes promised :: "'e \<Rightarrow> bool" and stop :: "'e \<Rightarrow> int \<times> ctx_error \<Rightarrow> step" and flush :: "'e \<Rightarrow> step"
  assumes stop_honours:
      "promised env \<Longrightarrow> now \<le> td \<Longrightarrow> stop env (td, e) (Some (td, e)) now = (t, x) \<Longrightarrow> t \<le> td"
    and flush_honours: "promised env \<Longrightarrow> now \<le> td \<Longrightarrow> flush env (Some (td, e)) now = (t, x) \<Longrightarrow> t \<le> td"
begin

lemma drains_in_time:
  assumes "promised env" "now \<le> td"
  shows "\<exists>t errs. Drain (Some (td, e)) (stop env (td, e)) (flush env) close tie now = Some (t, errs) \<and> t \<le> td \<and>
    (errs = [] \<longrightarrow> snd (stop env (td, e) (Some (td, e)) now) = None)"
proof -
  obtain t1 e1 where s: "stop env (td, e) (Some (td, e)) now = (t1, e1)" by fastforce
  obtain t2 e2 where f: "flush env (Some (td, e)) t1 = (t2, e2)" by fastforce
  have "t1 \<le> td" using stop_honours [OF assms s] .
  with flush_honours [OF assms(1) _ f] have "t2 \<le> td" .
  with s f show ?thesis by (cases "close t2") (auto simp: Drain_def Let_def split: option.splits)
qed

end

interpretation api_drain: bounded_shutdown
  "\<lambda>env. honours (api_stop (ae_shutdown env)) \<and> honours (ae_flush env)"
  "\<lambda>env ends. api_stop (ae_shutdown env)" "\<lambda>env. ae_flush env"
  by unfold_locales (auto dest: honoursD)

lemma drainConsumer_time: "now \<le> fst ends \<Longrightarrow> drainConsumer ends wk tie now = (acts, t, x) \<Longrightarrow> now \<le> t \<and> t \<le> fst ends"
  by (auto simp: drainConsumer_def Let_def split: option.splits if_splits)

lemma drainConsumer_acts:
  "StopPollingReader \<in> set (fst (drainConsumer ends wk tie now))"
  "snd (snd (drainConsumer ends wk tie now)) = None \<Longrightarrow>
   CancelWorker \<notin> set (fst (drainConsumer ends wk tie now)) \<and> (\<exists>tw. wk = Some (tw, None))"
  by (auto simp: drainConsumer_def Let_def split: option.splits if_splits)

interpretation consumer_drain: bounded_shutdown
  "\<lambda>(done_by, tie, shutdown). honours shutdown"
  "\<lambda>(done_by, tie, shutdown) ends c. consumer_stop done_by tie shutdown ends" "\<lambda>env c t. (t, None)"
proof (unfold_locales, goal_cases)
  case (1 env now td e t x)
  obtain w tie shutdown where env: "env = (w, tie, shutdown)" by (cases env)
  obtain acts t1 e1 where d: "drainConsumer (td, e) w tie now = (acts, t1, e1)" by (metis prod_cases3)
  with drainConsumer_time [OF _ d] 1(2) have "t1 \<le> td" by simp
  with 1 env d show ?case by (auto simp: consumer_stop_def dest: honoursD split: prod.splits)
qed auto

lemma ten_seconds_pos: "0 < ten_seconds"
  by (simp add: ten_seconds_def second_def)

section \<open>Attempts keep the durable state safe\<close>

definition dead_letters :: "ConsumerEnv \<Rightarrow> Publisher" where
  \<comment> \<open>the publisher of the quarantine\<close>
  "dead_letters cfg = \<lparr>topic = CDLQTopic cfg, timeout = 5 * second\<rparr>"

lemma NewReader_dead_letters:
  "NewReader (consumer_reader_config cfg) False ce pe m = (m', Inr (rc, p)) \<Longrightarrow> p = dead_letters cfg"
  by (auto simp: NewReader_def NewPublisher_def publisherDefaults_def Let_def dead_letters_def
      consumer_reader_config_def readerDefaults_def split: option.splits if_splits)

lemma on_operations_world [simp]: "cs_world (on_operations env n ops st) = cs_world st"
  by (induction ops arbitrary: n st) (auto simp: on_operation_def split: prod.splits)

lemma startup_report_world [simp]: "cs_world (startup_report now err st) = cs_world st"
  by (simp add: startup_report_def split: prod.splits)

lemma safe_world [simp]:
  "safe u kept src (w\<lparr>w_now := t\<rparr>) = safe u kept src w"
  "safe u kept src (w\<lparr>w_now := t, w_metrics := m\<rparr>) = safe u kept src w"
  "safe u kept src (w\<lparr>w_now := t, w_metrics := m, w_ops := ops\<rparr>) = safe u kept src w"
  by (simp_all add: safe_def handled_def cong: sum.case_cong)

text \<open>What an attempt does: it never gets to a reader, or it runs one.\<close>

lemma attempt_cases:
  assumes "attempt env cfg fuel stop work stop_at st = (st', res)"
  obtains (idle) t m where "cs_world st' = (cs_world st)\<lparr>w_now := t, w_metrics := m\<rparr>"
    | (ran) t m rc sa w' r where "run_loop (at_reader env (dead_letters cfg)) rc fuel work sa
        ((cs_world st)\<lparr>w_now := t, w_metrics := m, w_ops := []\<rparr>) = (w', r)" "cs_world st' = w'"
proof -
  let ?w = "cs_world st"
  obtain t perr where ping: "at_ping env (w_now ?w) = (t, perr)" by fastforce
  have same: "?w\<lparr>w_now := t\<rparr> = ?w\<lparr>w_now := t, w_metrics := w_metrics ?w\<rparr>" for t by simp
  show thesis
  proof (cases "perr \<noteq> None \<or> ctx_err stop t \<noteq> None")
    case True
    then have "cs_world st' = ?w\<lparr>w_now := t\<rparr>"
      using assms ping by (auto simp: attempt_def Let_def split: if_splits)
    then show thesis using idle same by metis
  next
    case False
    obtain m x where nr: "NewReader (consumer_reader_config cfg) False (at_client_err env) (at_pub_err env) (w_metrics ?w) = (m, x)"
      by fastforce
    show thesis
    proof (cases x)
      case (Inl e)
      with False assms ping nr idle show thesis by (auto simp: attempt_def Let_def)
    next
      case (Inr rp)
      obtain rc p where rp: "rp = (rc, p)" by fastforce
      with nr Inr NewReader_dead_letters have "p = dead_letters cfg" by blast
      with False assms ping nr Inr rp ran show thesis
        by (auto simp: attempt_def Let_def split: prod.splits)
    qed
  qed
qed

text \<open>The ends of the API process.\<close>

lemma api_run_cases:
  assumes "api_run get env now = (acts, result)"
  obtains (failed) e where "acts \<in> {[], [OpenPublisher, ClosePublisher],
        [OpenPublisher, StartLimiter, ClosePublisher, StopLimiter]}" "result = Some (now, [StepError e])"
    | (served) t x where "ae_serve env = Some (t, x)"
        "acts = [OpenPublisher, StartLimiter, OpenListener, ClosePublisher, StopLimiter]"
        "\<exists>errs. result = Some (max now t, errs)" "serves_first (ae_serve env) (ae_signal env) (ae_tie env)"
    | (serving) "result = None" "ae_signal env = None"
    | (drained) s where "ae_signal env = Some s"
        "acts = [OpenPublisher, StartLimiter, OpenListener, CloseListener, ClosePublisher, StopLimiter]"
        "result = Drain (with_timeout None (max now s) ten_seconds) (api_stop (ae_shutdown env)) (ae_flush env)
           (ae_close env) (ae_close_tie env) (max now s)"
proof (cases "LoadAPIEnv get")
  case (Inl e)
  with assms failed show thesis by (auto simp: api_run_def)
next
  case (Inr cfg)
  obtain m x where pub: "NewPublisher (api_publisher_config cfg) (ae_client_err env) (Some New) = (m, x)" by fastforce
  note start = Inr pub assms
  show thesis
  proof (cases "(\<exists>e. x = Inl e) \<or> (\<exists>e. NewApp (api_config cfg) False = Inl e) \<or> ae_listen_err env \<noteq> None")
    case True
    with start failed show thesis by (auto simp: api_run_def split: sum.splits option.splits prod.splits)
  next
    case False
    then obtain p a rl where up: "x = Inr p" "NewApp (api_config cfg) False = Inr (a, rl)" "ae_listen_err env = None"
      by (cases x; cases "NewApp (api_config cfg) False") auto
    show thesis
    proof (cases "serves_first (ae_serve env) (ae_signal env) (ae_tie env)")
      case True
      then obtain t y where "ae_serve env = Some (t, y)" by (cases "ae_serve env") (auto simp: serves_first_def)
      with True start up served show thesis by (auto simp: api_run_def)
    next
      case False
      with start up serving drained show thesis by (cases "ae_signal env") (auto simp: api_run_def)
    qed
  qed
qed

section \<open>Properties\<close>


definition sample_proc :: consumer_proc where
  \<comment> \<open>attempts that fail after three nanoseconds, a pool that never closes\<close>
  "sample_proc =
     \<lparr>cp_pool_err = None, cp_listen_err = None, cp_attempt = (\<lambda>n now. (now + 3, Some ''down'')),
      cp_pref = (\<lambda>n k. k), cp_serve = None, cp_signal = Some 50, cp_tie = True, cp_worker_tie = True,
      cp_shutdown = (\<lambda>c t. (t, None)), cp_close = (\<lambda>t. None), cp_close_tie = (\<lambda>t. True)\<rparr>"

lemma sample_consumer_env:
  obtains c where "LoadConsumerEnv (\<lambda>k. if k = ''DATABASE_URL'' then sample_database else []) = Inr c"
  using sample_database_loads by blast



definition sample_api :: api_env where
  \<comment> \<open>a signal at 50, steps that return at once, a client that never closes\<close>
  "sample_api =
     \<lparr>ae_client_err = None, ae_listen_err = None, ae_serve = None, ae_signal = Some 50, ae_tie = True,
      ae_shutdown = (\<lambda>c t. (t, ServeNil)), ae_flush = (\<lambda>c t. (t, None)), ae_close = (\<lambda>t. None),
      ae_close_tie = (\<lambda>t. True)\<rparr>"



definition sample_attempt :: attempt_env where
  "sample_attempt =
     \<lparr>at_ping = (\<lambda>t. (t, None)), at_built = (\<lambda>t. t), at_client_err = None, at_pub_err = None,
      at_reader = (\<lambda>p. consumer_env uuid_canonical (pg_example uuid_canonical {}) (kgo_example {} {}) p
        (\<lambda>n cm rs. (commit_to cm rs, None)) sample_poll instant (\<lambda>n. True)),
      at_facets = (\<lambda>e. \<lparr>is_deadline = False, is_canceled = False, pg_code = None, is_network = False\<rparr>),
      at_start_facets = (\<lambda>e. \<lparr>is_deadline = False, is_canceled = False, pg_code = None, is_network = False\<rparr>),
      at_clock = (\<lambda>n. 0)\<rparr>"

definition sample_state :: consumer_state where
  "sample_state =
     \<lparr>cs_world = quiet_world, cs_health = NewProcessingHealth, cs_diag = NewDiagnostics (10 * second), cs_lines = []\<rparr>"


end
