(* ===== verification/Deployment_Config.thy ===== *)
theory Deployment_Config
  imports Config_Env Event_Codec Go_Text "HOL-Library.Char_ord" "HOL-Library.List_Lexorder"
begin

text \<open>
  \<^verbatim>\<open>internal/runenv/deployment_config.go\<close>: the generated configuration of a deployment, read from
  a private file of assignments, and how its keys reach the API process as JSON.
\<close>

section \<open>The checks\<close>

record DeploymentConfig =
  Domain :: bytes
  DAPIKeys :: "(bytes \<times> bytes) list"
  AdminPassword :: bytes
  WriterPassword :: bytes

definition deploymentSecret :: "bytes \<Rightarrow> bool" where
  "deploymentSecret s \<longleftrightarrow> length s = 64 \<and> list_all is_hex s"

definition hostnameLabel :: "bytes \<Rightarrow> bool" where
  "hostnameLabel s \<longleftrightarrow>
     s \<noteq> [] \<and> length s \<le> 63 \<and> is_alnum (hd s) \<and> is_alnum (last s) \<and>
     list_all (\<lambda>c. is_alnum c \<or> c = CHR ''-'') s"

definition validDeploymentDomain :: "bytes \<Rightarrow> bool" where
  "validDeploymentDomain domain =
     (if length domain = 0 \<or> length domain > 253 \<or> (domain \<noteq> ''localhost'' \<and> CHR ''.'' \<notin> set domain)
      then False
      else list_all hostnameLabel (split_on CHR ''.'' domain))"

section \<open>Reading the file\<close>

text \<open>What opening and reading the path finds; the permission bits are the last nine.\<close>

record os_file =
  f_stat_ok :: bool
  f_regular :: bool
  f_perm :: int
  f_content :: bytes
  f_read_err :: bool  \<comment> \<open>an error after the content\<close>

fun read_assignments :: "bytes list \<Rightarrow> (bytes \<rightharpoonup> bytes) \<Rightarrow> bytes + (bytes \<rightharpoonup> bytes)" where
  "read_assignments [] values = Inr values"
| "read_assignments (l # ls) values =
     (let line = TrimSpace l in
      if line = [] \<or> HasPrefix line ''#'' then read_assignments ls values
      else case Cut line CHR ''='' of
             None \<Rightarrow> Inl ''invalid deployment configuration assignment''
           | Some (k, v) \<Rightarrow>
               (let key = TrimSpace k in
                if key = [] then Inl ''invalid deployment configuration assignment''
                else if values key \<noteq> None then Inl ''duplicate deployment configuration assignment''
                else read_assignments ls (values(key \<mapsto> TrimSpace v))))"

definition lookup_value :: "(bytes \<rightharpoonup> bytes) \<Rightarrow> bytes \<Rightarrow> bytes" where
  "lookup_value values k = (case values k of None \<Rightarrow> [] | Some v \<Rightarrow> v)"

definition check_values :: "(bytes \<rightharpoonup> bytes) \<Rightarrow> bytes + DeploymentConfig" where
  "check_values values =
     (let admin = lookup_value values ''POSTGRES_ADMIN_PASSWORD'';
          writer = lookup_value values ''POSTGRES_WRITER_PASSWORD''
      in if \<not> validDeploymentDomain (lookup_value values ''DOMAIN'') then Inl ''invalid or missing DOMAIN hostname''
         else if \<not> deploymentSecret admin
         then Inl ''invalid or missing POSTGRES_ADMIN_PASSWORD; use a generated 64-hex secret''
         else if \<not> deploymentSecret writer
         then Inl ''invalid or missing POSTGRES_WRITER_PASSWORD; use a generated 64-hex secret''
         else case ParseAPIKeys (lookup_value values ''API_KEYS'') of
                None \<Rightarrow> Inl ''invalid or missing API_KEYS mapping''
              | Some keys \<Rightarrow>
                  if keys = [] then Inl ''invalid or missing API_KEYS mapping''
                  else if \<exists>(key, tenant) \<in> set keys. \<not> deploymentSecret key \<or> \<not> ValidTenant tenant
                  then Inl ''invalid API_KEYS key or tenant''
                  else Inr \<lparr>Domain = lookup_value values ''DOMAIN'', DAPIKeys = keys, AdminPassword = admin,
                            WriterPassword = writer\<rparr>)"

definition ReadDeploymentConfig :: "os_file option \<Rightarrow> bytes + DeploymentConfig" where
  \<comment> \<open>\<open>None\<close> when the file cannot be opened\<close>
  "ReadDeploymentConfig file =
     (case file of
        None \<Rightarrow> Inl ''cannot open deployment configuration''
      | Some f \<Rightarrow>
          if \<not> f_stat_ok f \<or> \<not> f_regular f \<or> f_perm f mod 64 \<noteq> 0
          then Inl ''deployment configuration must be a private regular file (0600)''
          else (let (lines, too_long) = scan_lines 65536 (f_content f) in
                case read_assignments lines Map.empty of
                  Inl e \<Rightarrow> Inl e
                | Inr values \<Rightarrow>
                    if too_long \<or> f_read_err f then Inl ''cannot read deployment configuration''
                    else check_values values))"

section \<open>The keys as JSON\<close>

text \<open>\<^verbatim>\<open>json.Marshal\<close> of a map of strings: sorted by key, with HTML escaping.\<close>

fun marshal_entries :: "(bytes \<times> bytes) list \<Rightarrow> bytes" where
  "marshal_entries [] = []"
| "marshal_entries [(k, t)] = quote True k @ '':'' @ quote True t"
| "marshal_entries ((k, t) # kts) = quote True k @ '':'' @ quote True t @ '','' @ marshal_entries kts"

definition marshal_keys :: "(bytes \<times> bytes) list \<Rightarrow> bytes" where
  "marshal_keys keys = ''{'' @ marshal_entries (sort_key fst keys) @ ''}''"

definition deployment_env :: "DeploymentConfig \<Rightarrow> bytes list" where
  \<comment> \<open>what the docker command gets on top of its environment\<close>
  "deployment_env cfg =
     [''DOMAIN='' @ Domain cfg, ''API_KEYS='' @ marshal_keys (DAPIKeys cfg),
      ''POSTGRES_ADMIN_PASSWORD='' @ AdminPassword cfg, ''POSTGRES_WRITER_PASSWORD='' @ WriterPassword cfg]"

section \<open>Facts\<close>

lemma lex_quote_html: "utf8_valid s \<Longrightarrow> lex (quote html s @ r) = lit_lex (quote_body html s) # lex r"
  using lex_literal [OF lex_string_quote_body, of s html r] by (simp add: quote_def)

definition text_entry :: "bytes \<times> bytes \<Rightarrow> bool" where
  "text_entry = (\<lambda>(k, t). utf8_valid k \<and> utf8_valid t)"

definition entry_lex :: "bytes \<times> bytes \<Rightarrow> bytes \<times> token" where
  "entry_lex = (\<lambda>(k, t). (quote_body True k, TString (quote_body True t)))"

lemma entry_lex_value: "text_entry kt \<Longrightarrow> entry_value (entry_lex kt) = kt"
  by (auto simp: text_entry_def entry_lex_def entry_value_def tenant_of_def unquote_quote_body)

lemma lex_entries:
  "list_all text_entry kts \<Longrightarrow> kts \<noteq> [] \<Longrightarrow>
   map lx_token (lex (marshal_entries kts @ ''}'')) =
     entry_tokens (entry_lex (hd kts)) @ rest_tokens (map entry_lex (tl kts)) @ [TRBrace]"
proof (induction kts rule: marshal_entries.induct)
  case (2 k t)
  then show ?case by (simp add: text_entry_def entry_lex_def lex_quote_html lex_punct)
next
  case (3 k t kt kts)
  then show ?case by (simp add: text_entry_def entry_lex_def lex_quote_html lex_punct)
qed simp

lemma ParseAPIKeys_marshal:
  assumes "list_all text_entry keys" "keys \<noteq> []" "distinct (map fst keys)"
  shows "ParseAPIKeys (marshal_keys keys) = Some (sort_key fst keys)"
proof -
  let ?s = "sort_key fst keys"
  have ok: "list_all text_entry ?s" "?s \<noteq> []" using assms(1,2) by (simp_all add: list_all_iff)
    (metis length_0_conv length_sort)
  have dist: "distinct (map fst ?s)" using assms(3) by (simp add: distinct_map)
  have "map lx_token (lex (marshal_keys keys)) = object_tokens (map entry_lex ?s)"
    using lex_entries [OF ok] ok(2) by (cases ?s) (simp_all add: marshal_keys_def lex_punct)
  moreover have "map entry_value (map entry_lex ?s) = ?s"
    using ok(1) entry_lex_value by (auto simp: list_all_iff intro: map_idI)
  ultimately show ?thesis
    using dist unfolding ParseAPIKeys_entries by (intro exI [of _ "map entry_lex ?s"]) (auto simp: entries_ok_def entry_lex_def tenant_of_def)
qed

lemma ParseAPIKeys_distinct: "ParseAPIKeys raw = Some keys \<Longrightarrow> distinct (map fst keys)"
  unfolding ParseAPIKeys_entries by (elim exE conjE) simp

lemma hex_text: "list_all is_hex s \<Longrightarrow> validText s"
proof -
  have "is_hex c \<Longrightarrow> byte c < 128 \<and> c \<noteq> CHR 0x00" for c by (auto simp: is_hex_def between_def)
  then show "list_all is_hex s \<Longrightarrow> validText s"
    by (auto simp: validText_def list_all_iff intro: utf8_valid_ascii)
qed

lemma ReadDeploymentConfig_Inr:
  assumes "ReadDeploymentConfig file = Inr cfg"
  shows "\<exists>f. file = Some f \<and> f_regular f \<and> f_perm f mod 64 = 0" "validDeploymentDomain (Domain cfg)"
    "deploymentSecret (AdminPassword cfg)" "deploymentSecret (WriterPassword cfg)"
    "DAPIKeys cfg \<noteq> []" "distinct (map fst (DAPIKeys cfg))"
    "\<forall>(k, t) \<in> set (DAPIKeys cfg). deploymentSecret k \<and> ValidTenant t"
proof -
  from assms obtain f vs where f: "file = Some f" "f_regular f" "f_perm f mod 64 = 0"
    and v: "check_values vs = Inr cfg"
    by (auto simp: ReadDeploymentConfig_def split: option.splits if_splits prod.splits sum.splits)
  define dom admin writer where "dom = lookup_value vs ''DOMAIN''"
    and "admin = lookup_value vs ''POSTGRES_ADMIN_PASSWORD''" and "writer = lookup_value vs ''POSTGRES_WRITER_PASSWORD''"
  note body = v [unfolded check_values_def Let_def, folded dom_def admin_def writer_def]
  have ok: "validDeploymentDomain dom" "deploymentSecret admin" "deploymentSecret writer"
    using body by (meson Inl_Inr_False)+
  note body = body [simplified ok not_True_eq_False if_False]
  obtain keys where keys: "ParseAPIKeys (lookup_value vs ''API_KEYS'') = Some keys"
    using body by (cases "ParseAPIKeys (lookup_value vs ''API_KEYS'')") simp_all
  note body = body [unfolded keys option.case]
  have ks: "keys \<noteq> []" "\<not> (\<exists>(key, tenant) \<in> set keys. \<not> deploymentSecret key \<or> \<not> ValidTenant tenant)"
    using body by (meson Inl_Inr_False)+
  have c: "cfg = \<lparr>Domain = dom, DAPIKeys = keys, AdminPassword = admin, WriterPassword = writer\<rparr>"
    using body ks by simp
  show "\<exists>f. file = Some f \<and> f_regular f \<and> f_perm f mod 64 = 0"
    by (intro exI [of _ f] conjI) (rule f)+
  show "distinct (map fst (DAPIKeys cfg))" using ParseAPIKeys_distinct [OF keys] c by simp
  show "\<forall>(k, t) \<in> set (DAPIKeys cfg). deploymentSecret k \<and> ValidTenant t" using ks(2) c by auto
  show "validDeploymentDomain (Domain cfg)" "deploymentSecret (AdminPassword cfg)"
    "deploymentSecret (WriterPassword cfg)" "DAPIKeys cfg \<noteq> []"
    using c ok ks(1) by simp_all
qed

section \<open>Properties\<close>

text \<open>
  C28. A deployment configuration that is accepted came from a private regular file, names a host
  whose labels are well formed, has two secrets of 64 hexadecimal digits, and maps at least one
  key, all different and all such secrets, to valid tenants.
\<close>

theorem deployment_config_valid:
  assumes "ReadDeploymentConfig file = Inr cfg"
  shows "(\<exists>f. file = Some f \<and> f_regular f \<and> f_perm f mod 64 = 0) \<and>
    1 \<le> length (Domain cfg) \<and> length (Domain cfg) \<le> 253 \<and> list_all hostnameLabel (split_on CHR ''.'' (Domain cfg)) \<and>
    deploymentSecret (AdminPassword cfg) \<and> deploymentSecret (WriterPassword cfg) \<and>
    DAPIKeys cfg \<noteq> [] \<and> distinct (map fst (DAPIKeys cfg)) \<and>
    (\<forall>(k, t) \<in> set (DAPIKeys cfg). deploymentSecret k \<and> ValidTenant t)"
  using ReadDeploymentConfig_Inr [OF assms]
  by (auto simp: validDeploymentDomain_def Suc_le_eq split: if_splits)

definition sample_secret :: bytes where
  "sample_secret = replicate 64 CHR ''a''"

definition sample_file :: os_file where
  "sample_file =
     \<lparr>f_stat_ok = True, f_regular = True, f_perm = 384,
      f_content = ''# generated'' @ [newline_c] @ ''DOMAIN=localhost'' @ [newline_c]
        @ ''POSTGRES_ADMIN_PASSWORD='' @ sample_secret @ [newline_c]
        @ ''POSTGRES_WRITER_PASSWORD='' @ sample_secret @ [newline_c]
        @ ''API_KEYS={'' @ quoted sample_secret @ '':'' @ quoted ''default'' @ ''}'' @ [newline_c],
      f_read_err = False\<rparr>"

lemma sample_file_run: "case ReadDeploymentConfig (Some sample_file) of Inl _ \<Rightarrow> False | Inr _ \<Rightarrow> True"
  by code_simp

lemma sample_file_reads: obtains cfg where "ReadDeploymentConfig (Some sample_file) = Inr cfg"
  using sample_file_run by (auto split: sum.splits)

theorem deployment_config_valid_witness:
  "\<exists>cfg. ReadDeploymentConfig (Some sample_file) = Inr cfg \<and> deploymentSecret (AdminPassword cfg)"
proof (rule sample_file_reads)
  fix cfg assume "ReadDeploymentConfig (Some sample_file) = Inr cfg"
  with deployment_config_valid [OF this] show ?thesis by blast
qed



end
