(* ===== verification/Runenv_Base.thy ===== *)
theory Runenv_Base
  imports Deployment_Config
begin

text \<open>
  The ground of package \<^verbatim>\<open>internal/runenv\<close>: the machine its functions act on (commands, files,
  ports, the clock), the errors they return, and a combinator for a step that may fail with the
  rules for reasoning about the trace a run leaves behind.
\<close>

section \<open>Errors\<close>

text \<open>
  An error of its own text, the sentinel \<^verbatim>\<open>errStartupCleanup\<close>, joined errors, and an error wrapped
  with \<^verbatim>\<open>%w\<close> between two texts.
\<close>

datatype run_err =
    Err bytes | StartupCleanup | Joined "run_err list" | Wrapped bytes run_err bytes

fun err_text :: "run_err \<Rightarrow> bytes" where
  "err_text (Err t) = t"
| "err_text StartupCleanup = ''startup cleanup failed''"
| "err_text (Joined es) = drop 1 (concat (map (\<lambda>e. newline_c # err_text e) es))"
| "err_text (Wrapped pre e post) = pre @ err_text e @ post"

fun is_cleanup :: "run_err \<Rightarrow> bool" where
  \<comment> \<open>\<^verbatim>\<open>errors.Is(err, errStartupCleanup)\<close>\<close>
  "is_cleanup (Err t) = False"
| "is_cleanup StartupCleanup = True"
| "is_cleanup (Joined es) = list_ex is_cleanup es"
| "is_cleanup (Wrapped pre e post) = is_cleanup e"

definition join_errs :: "run_err option list \<Rightarrow> run_err option" where
  "join_errs errs =
     (case List.map_filter id errs of [] \<Rightarrow> None | es \<Rightarrow> Some (Joined es))"

lemma join_errs_None [simp]: "join_errs errs = None \<longleftrightarrow> (\<forall>e \<in> set errs. e = None)"
proof -
  have "List.map_filter id errs = [] \<longleftrightarrow> (\<forall>e \<in> set errs. e = None)"
    by (induction errs) (auto simp: List.map_filter_def split: option.splits)
  then show ?thesis by (auto simp: join_errs_def split: list.splits)
qed

section \<open>The machine\<close>

type_synonym file_system = "bytes \<Rightarrow> os_file option"  \<comment> \<open>what opening a path finds\<close>

record command =
  cm_prog :: bytes
  cm_args :: "bytes list"
  cm_dir :: bytes  \<comment> \<open>empty for the current directory\<close>
  cm_env :: "bytes list"  \<comment> \<open>what is added to the environment of the process\<close>

record answer =
  an_out :: bytes  \<comment> \<open>the combined output\<close>
  an_err :: "bytes option"
  an_files :: file_system
  an_took :: nat

record http_client =
  hc_timeout :: int
  hc_roots :: "bytes option"  \<comment> \<open>the only trusted roots; the system's when \<open>None\<close>\<close>

text \<open>What a run did, in order.\<close>

datatype happening =
    Ran command bytes "bytes option"  \<comment> \<open>with its output and its error\<close>
  | Listened int
  | Released int
  | Wrote bytes bytes
  | Got bytes "int option"  \<comment> \<open>an HTTP request and its status\<close>
  | Posted bytes bytes bytes "int option"  \<comment> \<open>the address, the key, the body and the status\<close>
  | Printed bytes
  | Staged bytes
  | OpenedPool
  | ClosedPool

text \<open>
  The environment: every function takes the number of the call, so that it may answer differently
  each time.  Durations are natural numbers of nanoseconds, so time never runs backwards.
\<close>

record run_env =
  rx_exec :: "nat \<Rightarrow> command \<Rightarrow> file_system \<Rightarrow> answer"
  rx_write :: "nat \<Rightarrow> bytes \<Rightarrow> (bytes \<times> os_file option) option"
    \<comment> \<open>the error of writing a file and what it leaves there\<close>
  rx_mkdir :: "nat \<Rightarrow> bytes \<Rightarrow> bytes option"
  rx_listen :: "nat \<Rightarrow> bytes + int"
  rx_uuid :: "nat \<Rightarrow> bytes"  \<comment> \<open>\<^verbatim>\<open>uuid.NewString\<close>\<close>
  rx_getwd :: "bytes + bytes list"  \<comment> \<open>the names on the path of the current directory\<close>
  rx_stat :: "bytes \<Rightarrow> bool"
  rx_order :: "nat \<Rightarrow> nat list"  \<comment> \<open>how a loop over a Go map picks its next entry\<close>
  rx_pem :: "bytes \<Rightarrow> bool"  \<comment> \<open>whether a certificate can be read from the text\<close>
  rx_get :: "nat \<Rightarrow> http_client \<Rightarrow> bytes \<Rightarrow> int option \<times> nat"
  rx_done :: "nat \<Rightarrow> bytes option"  \<comment> \<open>whether the caller's context has ended, with its error\<close>
  rx_slack :: "nat \<Rightarrow> nat"  \<comment> \<open>how much longer than asked a timer takes\<close>

record run_world =
  rw_calls :: nat
  rw_now :: int
  rw_files :: file_system
  rw_trace :: "happening list"

type_synonym 'a run = "run_world \<Rightarrow> (run_err + 'a) \<times> run_world"

definition note_that :: "happening list \<Rightarrow> run_world \<Rightarrow> run_world" where
  "note_that hs w = w\<lparr>rw_calls := Suc (rw_calls w), rw_trace := rw_trace w @ hs\<rparr>"

definition run_command :: "run_env \<Rightarrow> command \<Rightarrow> run_world \<Rightarrow> (bytes \<times> bytes option) \<times> run_world" where
  "run_command env c w =
     (let a = rx_exec env (rw_calls w) c (rw_files w) in
      ((an_out a, an_err a),
       (note_that [Ran c (an_out a) (an_err a)] w)\<lparr>rw_files := an_files a, rw_now := rw_now w + int (an_took a)\<rparr>))"

definition write_file :: "run_env \<Rightarrow> bytes \<Rightarrow> bytes \<Rightarrow> unit run" where
  \<comment> \<open>\<^verbatim>\<open>os.WriteFile\<close> with mode 0600, which only a new file gets\<close>
  "write_file env path content w =
     (let w' = note_that [Wrote path content] w in
      case rx_write env (rw_calls w) path of
        Some (e, left) \<Rightarrow> (Inl (Err e), w'\<lparr>rw_files := (rw_files w)(path := left)\<rparr>)
      | None \<Rightarrow>
          (Inr (), w'\<lparr>rw_files := (rw_files w)(path := Some
             (case rw_files w path of
                None \<Rightarrow> \<lparr>f_stat_ok = True, f_regular = True, f_perm = 384, f_content = content, f_read_err = False\<rparr>
              | Some f \<Rightarrow> f\<lparr>f_content := content\<rparr>))\<rparr>))"

definition read_file :: "bytes \<Rightarrow> run_world \<Rightarrow> run_err + bytes" where
  "read_file path w =
     (case rw_files w path of
        None \<Rightarrow> Inl (Err (''open '' @ path))
      | Some f \<Rightarrow> if f_read_err f then Inl (Err (''read '' @ path)) else Inr (f_content f))"

definition mkdir_all :: "run_env \<Rightarrow> bytes \<Rightarrow> unit run" where
  "mkdir_all env path w =
     (case rx_mkdir env (rw_calls w) path of
        Some e \<Rightarrow> (Inl (Err e), note_that [] w) | None \<Rightarrow> (Inr (), note_that [] w))"

definition release :: "int list \<Rightarrow> run_world \<Rightarrow> run_world" where
  "release ports w = note_that (map Released ports) w"

fun reserve :: "run_env \<Rightarrow> nat \<Rightarrow> int list \<Rightarrow> int list run" where
  \<comment> \<open>as many listeners more, besides the open ones; all are closed when one fails\<close>
  "reserve env 0 ports w = (Inr ports, w)"
| "reserve env (Suc n) ports w =
     (case rx_listen env (rw_calls w) of
        Inl e \<Rightarrow> (Inl (Err e), release ports w)
      | Inr p \<Rightarrow> reserve env n (ports @ [p]) (note_that [Listened p] w))"

definition hold_ports :: "int list \<Rightarrow> 'a run \<Rightarrow> 'a run" where
  \<comment> \<open>the listeners are closed when the step is over, however it ends\<close>
  "hold_ports ports m w = (case m w of (r, w') \<Rightarrow> (r, release ports w'))"

text \<open>The entries of a Go map in the order a loop over it may take.\<close>

fun arrange :: "nat list \<Rightarrow> 'a list \<Rightarrow> 'a list" where
  "arrange (k # ks) (x # xs) =
     (let i = k mod Suc (length xs) in
      (x # xs) ! i # arrange ks (take i (x # xs) @ drop (Suc i) (x # xs)))"
| "arrange _ xs = xs"

definition try_then :: "'a run \<Rightarrow> ('a \<Rightarrow> 'b run) \<Rightarrow> 'b run" where
  \<comment> \<open>a call whose error is returned at once\<close>
  "try_then m k w = (case m w of (Inl e, w') \<Rightarrow> (Inl e, w') | (Inr a, w') \<Rightarrow> k a w')"

definition error_of :: "(run_err + unit) \<Rightarrow> run_err option" where
  "error_of r = (case r of Inl e \<Rightarrow> Some e | Inr _ \<Rightarrow> None)"

end
