(* ===== verification/Runenv_Stack.thy ===== *)
theory Runenv_Stack
  imports Runenv_Base
begin

text \<open>
  \<^verbatim>\<open>internal/runenv/compose.go\<close> and \<^verbatim>\<open>internal/runenv/deployment.go\<close>: isolated Compose projects
  that are started, used, stopped and destroyed, each marked with a token of its own, and every
  command that touches running resources guarded by a check of that mark.
\<close>

section \<open>Names\<close>

record Options =
  Purpose :: bytes
  OutputDirectory :: bytes
  Profile :: bytes
  ExposeDependencies :: bool

record Stack =
  APIURL :: bytes
  APIProbeURL :: bytes
  ConsumerURL :: bytes
  DatabaseURL :: bytes
  Brokers :: bytes
  Project :: bytes
  Directory :: bytes
  s_root :: bytes
  s_token :: bytes
  s_identity :: bytes
  s_env :: "bytes list"
  s_owned :: bool
  s_profile :: bytes
  s_caPath :: bytes
  s_exposeDependencies :: bool

definition capitals :: bytes where
  "capitals = ''ABCDEFGHIJKLMNOPQRSTUVWXYZ''"

definition smalls :: bytes where
  "smalls = ''abcdefghijklmnopqrstuvwxyz''"

fun slug :: "bytes \<Rightarrow> bytes" where
  \<comment> \<open>lower case, without everything but letters, digits and dashes; the Kelvin sign and the
      dotted capital I are the only other characters whose lower case is a letter of ASCII\<close>
  "slug [] = []"
| "slug (c # cs) =
     (case map_of (zip capitals smalls) c of
        Some l \<Rightarrow> l # slug cs
      | None \<Rightarrow>
          if c \<in> set smalls \<or> c \<in> set ''0123456789-'' then c # slug cs
          else if take 3 (c # cs) = [CHR 0xE2, CHR 0x84, CHR 0xAA] then CHR ''k'' # slug (drop 2 cs)
          else if take 2 (c # cs) = [CHR 0xC4, CHR 0xB0] then CHR ''i'' # slug (drop 1 cs)
          else slug cs)"

definition projectName :: "bytes \<Rightarrow> bytes \<Rightarrow> bytes" where
  "projectName uuid purpose = ''ingestkit-'' @ take 20 (slug purpose) @ ''-'' @ take 8 uuid"

definition apiAddress :: "bytes \<Rightarrow> bytes" where
  "apiAddress port = ''http://'' @ TrimSpace port"

definition dir_path :: "bytes list \<Rightarrow> bytes" where
  "dir_path names = (if names = [] then ''/'' else slashed names)"

fun root_above :: "run_env \<Rightarrow> bytes list \<Rightarrow> run_err + bytes" where
  \<comment> \<open>the names of the directory, the last one first\<close>
  "root_above env up =
     (let p = dir_path (rev up) in
      if rx_stat env (path_join [p, ''go.mod'']) \<and> rx_stat env (path_join [p, ''docker-compose.yml''])
      then Inr p
      else case up of [] \<Rightarrow> Inl (Err ''run inside the IngestKit checkout'') | _ # up' \<Rightarrow> root_above env up')"

definition Root :: "run_env \<Rightarrow> run_err + bytes" where
  "Root env = (case rx_getwd env of Inl e \<Rightarrow> Inl (Err e) | Inr names \<Rightarrow> root_above env (rev names))"

definition path_abs :: "run_env \<Rightarrow> bytes \<Rightarrow> run_err + bytes" where
  \<comment> \<open>\<^verbatim>\<open>filepath.Abs\<close>\<close>
  "path_abs env p =
     (if HasPrefix p ''/'' then Inr (path_clean p)
      else case rx_getwd env of Inl e \<Rightarrow> Inl (Err e) | Inr names \<Rightarrow> Inr (path_join [dir_path names, p]))"

section \<open>Commands\<close>

definition composeArgs :: "Stack \<Rightarrow> bytes list \<Rightarrow> bytes list" where
  "composeArgs s args =
     (if s_profile s = ''selfhost''
      then [''compose'', ''--project-directory'', path_join [s_root s, ''deploy''], ''-p'', Project s,
            ''-f'', path_join [s_root s, ''deploy/compose.yml''],
            ''-f'', path_join [s_root s, ''tests/fixtures/deployment/local.yml'']]
           @ (if s_exposeDependencies s
              then [''-f'', path_join [s_root s, ''tests/fixtures/deployment/probes.yml'']] else [])
      else [''compose'', ''--project-directory'', s_root s, ''-p'', Project s,
            ''-f'', path_join [s_root s, ''docker-compose.yml'']])
     @ (if Directory s \<noteq> [] then [''--env-file'', path_join [Directory s, ''run.env'']] else [])
     @ args"

definition run_env_path :: "Stack \<Rightarrow> bytes" where
  "run_env_path s = path_join [Directory s, ''run.env'']"

definition tail_of :: "bytes \<Rightarrow> bytes" where
  "tail_of out = (if int (length out) > 5000 then drop (nat (int (length out) - 5000)) out else out)"

definition docker_run :: "run_env \<Rightarrow> Stack \<Rightarrow> bytes list \<Rightarrow> bytes list \<Rightarrow> bytes run" where
  "docker_run env s extra args w =
     (case run_command env \<lparr>cm_prog = ''docker'', cm_args = args, cm_dir = s_root s, cm_env = s_env s @ extra\<rparr> w of
        ((out, None), w') \<Rightarrow> (Inr out, w')
      | ((out, Some e), w') \<Rightarrow>
          (Inl (Wrapped ''docker command failed: '' (Err e) (newline_c # tail_of out)), w'))"

definition docker :: "run_env \<Rightarrow> Stack \<Rightarrow> bytes list \<Rightarrow> bytes run" where
  "docker env s args w =
     (if s_profile s = ''selfhost''
      then case ReadDeploymentConfig (rw_files w (run_env_path s)) of
             Inl e \<Rightarrow> (Inl (Err e), w)
           | Inr cfg \<Rightarrow> docker_run env s (deployment_env cfg) args w
      else docker_run env s [] args w)"

definition Compose :: "run_env \<Rightarrow> Stack \<Rightarrow> bytes list \<Rightarrow> bytes run" where
  "Compose env s args w =
     (if \<not> s_owned s \<or> Project s \<noteq> s_identity s then (Inl (Err ''stack ownership identity mismatch''), w)
      else docker env s (composeArgs s args) w)"

section \<open>Ownership\<close>

definition container_label :: bytes where
  \<open>container_label = ''{{index .Config.Labels "io.ingestkit.run"}}''\<close>

definition volume_label :: bytes where
  \<open>volume_label = ''{{index .Labels "io.ingestkit.run"}}''\<close>

fun inspect_all :: "run_env \<Rightarrow> Stack \<Rightarrow> bytes list \<Rightarrow> bytes \<Rightarrow> bytes list \<Rightarrow> unit run" where
  "inspect_all env s inspect mismatch [] w = (Inr (), w)"
| "inspect_all env s inspect mismatch (x # xs) w =
     (case docker env s (inspect @ [x]) w of
        (Inl e, w') \<Rightarrow> (Inl e, w')
      | (Inr out, w') \<Rightarrow>
          if TrimSpace out \<noteq> s_token s then (Inl (Err mismatch), w')
          else inspect_all env s inspect mismatch xs w')"

definition verifyOwner :: "run_env \<Rightarrow> Stack \<Rightarrow> unit run" where
  "verifyOwner env s w =
     (if \<not> s_owned s \<or> s_token s = [] \<or> \<not> HasPrefix (Project s) ''ingestkit-''
      then (Inl (Err ''refusing unowned resource operation''), w)
      else try_then (Compose env s [''ps'', ''-a'', ''-q'']) (\<lambda>ids.
           try_then (inspect_all env s [''inspect'', ''--format'', container_label]
                       ''container ownership label mismatch'' (Fields ids)) (\<lambda>_.
           try_then (docker env s [''volume'', ''ls'', ''--filter'', ''label=com.docker.compose.project='' @ Project s,
                       ''--format'', ''{{.Name}}'']) (\<lambda>volumes.
           inspect_all env s [''volume'', ''inspect'', ''--format'', volume_label]
             ''volume ownership label mismatch'' (Fields volumes)))) w)"

definition guarded :: "run_env \<Rightarrow> Stack \<Rightarrow> bytes list \<Rightarrow> unit run" where
  \<comment> \<open>the owner verified, then the command; its output is dropped\<close>
  "guarded env s args w =
     try_then (verifyOwner env s) (\<lambda>_. try_then (Compose env s args) (\<lambda>_ w. (Inr (), w))) w"

definition Stop :: "run_env \<Rightarrow> Stack \<Rightarrow> unit run" where
  "Stop env s w = guarded env s [''stop''] w"

definition Destroy :: "run_env \<Rightarrow> Stack \<Rightarrow> unit run" where
  "Destroy env s w = guarded env s [''down'', ''-v'', ''--remove-orphans''] w"

definition SetServiceRunning :: "run_env \<Rightarrow> Stack \<Rightarrow> bytes \<Rightarrow> bool \<Rightarrow> unit run" where
  "SetServiceRunning env s name running w =
     (if name \<notin> {''api'', ''consumer'', ''postgres'', ''redpanda''} then (Inl (Err ''unsupported service control''), w)
      else guarded env s [if running then ''start'' else ''stop'', name] w)"

definition KillConsumer :: "run_env \<Rightarrow> Stack \<Rightarrow> unit run" where
  "KillConsumer env s w = guarded env s [''kill'', ''-s'', ''KILL'', ''consumer''] w"

fun collect :: "run_env \<Rightarrow> Stack \<Rightarrow> bytes \<Rightarrow> (bytes \<times> bytes list) list \<Rightarrow> unit run" where
  "collect env s directory [] w = (Inr (), w)"
| "collect env s directory ((name, args) # rest) w =
     try_then (Compose env s args) (\<lambda>out.
     try_then (write_file env (path_join [directory, name]) out) (\<lambda>_. collect env s directory rest)) w"

definition evidence :: "(bytes \<times> bytes list) list" where
  "evidence = [(''containers.txt'', [''ps'', ''-a'']), (''services.log'', [''logs'', ''--no-color'', ''--tail'', ''100'']),
     (''images.txt'', [''images''])]"

definition CollectEvidence :: "run_env \<Rightarrow> Stack \<Rightarrow> bytes \<Rightarrow> unit run" where
  "CollectEvidence env s directory w =
     (if \<not> s_owned s then (Inl (Err ''unowned stack''), w)
      else try_then (mkdir_all env directory)
             (\<lambda>_ w. collect env s directory (arrange (rx_order env (rw_calls w)) evidence) w) w)"

section \<open>The self-hosted deployment\<close>

definition APIKey :: "run_env \<Rightarrow> Stack \<Rightarrow> run_world \<Rightarrow> bytes" where
  "APIKey env s w =
     (if s_profile s \<noteq> ''selfhost'' then ''local-demo-key''
      else case ReadDeploymentConfig (rw_files w (run_env_path s)) of
             Inl _ \<Rightarrow> []
           | Inr cfg \<Rightarrow>
               (case find (\<lambda>(key, tenant). tenant = ''default'') (arrange (rx_order env (rw_calls w)) (DAPIKeys cfg)) of
                  None \<Rightarrow> [] | Some (key, _) \<Rightarrow> key))"

definition HTTPClient :: "run_env \<Rightarrow> Stack \<Rightarrow> run_world \<Rightarrow> run_err + http_client" where
  "HTTPClient env s w =
     (if s_profile s \<noteq> ''selfhost'' then Inr \<lparr>hc_timeout = 8 * second, hc_roots = None\<rparr>
      else case read_file (s_caPath s) w of
             Inl _ \<Rightarrow> Inl (Err ''cannot read deployment CA'')
           | Inr raw \<Rightarrow>
               if \<not> rx_pem env raw then Inl (Err ''invalid deployment CA'')
               else Inr \<lparr>hc_timeout = 8 * second, hc_roots = Some raw\<rparr>)"

definition deployment_vars :: "Stack \<Rightarrow> int list \<Rightarrow> bytes list" where
  "deployment_vars s ports =
     [''API_PROBE_PORT='' @ Itoa (ports ! 5), ''INGESTKIT_HTTP_PORT='' @ Itoa (ports ! 0),
      ''INGESTKIT_HTTPS_PORT='' @ Itoa (ports ! 1), ''POSTGRES_PORT='' @ Itoa (ports ! 2),
      ''METRICS_PORT='' @ Itoa (ports ! 3), ''INGESTKIT_BROKER_PORT='' @ Itoa (ports ! 4),
      ''INGESTKIT_REPO_ROOT='' @ s_root s, ''INGESTKIT_RUN_ID='' @ s_token s, ''RATE_LIMIT_RPS=10000'',
      ''LOG_LEVEL=info'', ''RETENTION_MS=604800000'', ''CONSUMER_GROUP=ingestkit-consumer'']"

definition env_lines :: "bytes list \<Rightarrow> bytes" where
  \<comment> \<open>\<^verbatim>\<open>strings.Join(env, "\n") + "\n"\<close>\<close>
  "env_lines vars = drop 1 (concat (map (Cons newline_c) vars)) @ [newline_c]"

definition expose :: "run_world \<Rightarrow> Stack \<Rightarrow> int list \<Rightarrow> run_err + Stack" where
  \<comment> \<open>the addresses of the dependencies\<close>
  "expose w s ports =
     (case ReadDeploymentConfig (rw_files w (run_env_path s)) of
        Inl e \<Rightarrow> Inl (Err e)
      | Inr cfg \<Rightarrow>
          Inr (s\<lparr>APIProbeURL := ''http://127.0.0.1:'' @ Itoa (ports ! 5),
                 DatabaseURL := ''postgres://ingestkit_admin:'' @ query_escape (AdminPassword cfg) @ ''@127.0.0.1:''
                   @ Itoa (ports ! 2) @ ''/ingestkit?sslmode=disable'',
                 ConsumerURL := ''http://127.0.0.1:'' @ Itoa (ports ! 3),
                 Brokers := ''127.0.0.1:'' @ Itoa (ports ! 4)\<rparr>))"

definition configure_deployment :: "run_env \<Rightarrow> Stack \<Rightarrow> bytes run" where
  \<comment> \<open>what the script writes\<close>
  "configure_deployment env s w =
     (case run_command env \<lparr>cm_prog = ''sh'',
          cm_args = [path_join [s_root s, ''deploy/configure.sh''], ''localhost'', Directory s], cm_dir = [], cm_env = []\<rparr> w of
        ((out, Some e), w') \<Rightarrow> (Inl (Wrapped ''configure owned deployment: '' (Err e) ('': '' @ out)), w')
      | ((out, None), w') \<Rightarrow> (read_file (path_join [Directory s, ''.env'']) w', w'))"

definition write_deployment :: "run_env \<Rightarrow> Options \<Rightarrow> Stack \<Rightarrow> bytes \<Rightarrow> int list \<Rightarrow> Stack run" where
  \<comment> \<open>with the ports reserved: the configuration and the variables together in one file\<close>
  "write_deployment env opts s cfg ports w =
     (let s = s\<lparr>s_env := deployment_vars s ports\<rparr> in
      try_then (write_file env (run_env_path s) (cfg @ env_lines (s_env s))) (\<lambda>_ w.
        let s = s\<lparr>APIURL := ''https://localhost:'' @ Itoa (ports ! 1), s_caPath := path_join [Directory s, ''root.crt'']\<rparr> in
        (if ExposeDependencies opts then expose w s ports else Inr s, w)) w)"

definition prepareDeployment :: "run_env \<Rightarrow> Stack \<Rightarrow> Options \<Rightarrow> Stack run" where
  "prepareDeployment env s0 opts w =
     (let s = s0\<lparr>s_profile := ''selfhost'', s_exposeDependencies := ExposeDependencies opts\<rparr> in
      try_then (configure_deployment env s) (\<lambda>cfg.
      try_then (reserve env 6 []) (\<lambda>ports. hold_ports ports (write_deployment env opts s cfg ports))) w)"

definition probe :: "run_env \<Rightarrow> Stack \<Rightarrow> bool run" where
  \<comment> \<open>one look at the deployment: its root certificate fetched, its health asked\<close>
  "probe env s w =
     (case Compose env s [''cp'', ''gateway:/data/caddy/pki/authorities/local/root.crt'', s_caPath s] w of
        (Inl _, w') \<Rightarrow> (Inr False, w')
      | (Inr _, w') \<Rightarrow>
          (case HTTPClient env s w' of
             Inl e \<Rightarrow> (Inl e, w')
           | Inr client \<Rightarrow>
               (case rx_get env (rw_calls w') client (APIURL s @ ''/health'') of
                  (status, took) \<Rightarrow>
                    (Inr (status = Some 200),
                     (note_that [Got (APIURL s @ ''/health'') status] w')\<lparr>rw_now := rw_now w' + int took\<rparr>))))"

definition pause :: "run_env \<Rightarrow> int \<Rightarrow> run_world \<Rightarrow> run_world" where
  "pause env ns w = (note_that [] w)\<lparr>rw_now := rw_now w + ns + int (rx_slack env (rw_calls w))\<rparr>"

lemma note_that_simps [simp]:
  "rw_now (note_that hs w) = rw_now w" "rw_files (note_that hs w) = rw_files w"
  "rw_trace (note_that hs w) = rw_trace w @ hs"
  by (simp_all add: note_that_def)

lemma docker_run_time: "rw_now w \<le> rw_now (snd (docker_run env s extra args w))"
  by (auto simp: docker_run_def run_command_def Let_def split: option.splits)

lemma Compose_time: "rw_now w \<le> rw_now (snd (Compose env s args w))"
  by (auto simp: Compose_def docker_def docker_run_time split: sum.splits)

lemma probe_time: "probe env s w = (r, w') \<Longrightarrow> rw_now w \<le> rw_now w'"
  using Compose_time [of w env s "[''cp'', ''gateway:/data/caddy/pki/authorities/local/root.crt'', s_caPath s]"]
  by (auto simp: probe_def split: prod.splits sum.splits)

function await_health :: "run_env \<Rightarrow> Stack \<Rightarrow> int \<Rightarrow> unit run" where
  "await_health env s due w =
     (case probe env s w of
        (Inl e, w') \<Rightarrow> (Inl e, w')
      | (Inr True, w') \<Rightarrow> (Inr (), w')
      | (Inr False, w') \<Rightarrow>
          if rw_now w' > due then (Inl (Err ''local TLS deployment did not become healthy''), w')
          else case rx_done env (rw_calls w') of
                 Some e \<Rightarrow> (Inl (Err e), w')
               | None \<Rightarrow> await_health env s due (pause env (100 * millisecond) w'))"
  by pat_completeness auto
termination
  by (relation "measure (\<lambda>(env, s, due, w). nat (due + 1 - rw_now w))")
    (auto simp: pause_def millisecond_def dest!: probe_time [OF sym])

declare await_health.simps [simp del]

definition startDeployment :: "run_env \<Rightarrow> Stack \<Rightarrow> unit run" where
  "startDeployment env s w =
     try_then (Compose env s [''up'', ''-d'', ''--build'', ''--wait'', ''--wait-timeout'', ''100''])
       (\<lambda>_ w. await_health env s (rw_now w + 15 * second) w) w"

section \<open>Starting\<close>

definition development_vars :: "bytes \<Rightarrow> int list \<Rightarrow> bytes list" where
  \<open>development_vars token ports =
     [''INGESTKIT_BROKER_PORT='' @ Itoa (ports ! 0), ''API_PORT='' @ Itoa (ports ! 1),
      ''METRICS_PORT='' @ Itoa (ports ! 2), ''POSTGRES_PORT='' @ Itoa (ports ! 3),
      ''POSTGRES_DB=ingestkit_test'', ''POSTGRES_PASSWORD=local-test-only'',
      ''API_KEYS={"local-demo-key":"demo","local-second-key":"second"}'', ''INGESTKIT_RUN_ID='' @ token]\<close>

definition services :: "(bytes \<times> bytes) list" where
  "services = [(''api'', ''8080''), (''consumer'', ''8081''), (''postgres'', ''5432'')]"

fun find_endpoints :: "run_env \<Rightarrow> Stack \<Rightarrow> (bytes \<times> bytes) list \<Rightarrow> (bytes \<Rightarrow> bytes) \<Rightarrow> (bytes \<Rightarrow> bytes) run" where
  "find_endpoints env s [] endpoints w = (Inr endpoints, w)"
| "find_endpoints env s ((service, port) # rest) endpoints w =
     try_then (Compose env s [''port'', service, port])
       (\<lambda>out. find_endpoints env s rest (endpoints(service := TrimSpace out))) w"

definition indented :: "(bytes \<times> bytes) list \<Rightarrow> bytes" where
  \<comment> \<open>\<^verbatim>\<open>json.MarshalIndent\<close> of a map from names to JSON values, in the order of the names\<close>
  "indented fs =
     (if fs = [] then ''{}''
      else ''{'' @ drop 1 (concat (map (\<lambda>(k, v). '','' @ [newline_c] @ ''  '' @ quote True k @ '': '' @ v) fs))
           @ [newline_c] @ ''}'')"

definition stack_json :: "Stack \<Rightarrow> bytes" where
  "stack_json s =
     indented [(''api_url'', quote True (APIURL s)), (''broker'', quote True (Brokers s)),
       (''consumer_url'', quote True (ConsumerURL s)), (''project'', quote True (Project s))]"

definition launched :: "run_env \<Rightarrow> int list \<Rightarrow> Stack \<Rightarrow> (bytes \<Rightarrow> bytes) \<Rightarrow> Stack run" where
  "launched env ports s endpoints w =
     (let s = s\<lparr>APIURL := apiAddress (endpoints ''api''), ConsumerURL := apiAddress (endpoints ''consumer''),
                 DatabaseURL := ''postgres://ingestkit:local-test-only@'' @ endpoints ''postgres''
                   @ ''/ingestkit_test?sslmode=disable'',
                 Brokers := ''127.0.0.1:'' @ Itoa (ports ! 0)\<rparr> in
      try_then (write_file env (path_join [Directory s, ''stack.json'']) (stack_json s)) (\<lambda>_ w. (Inr s, w)) w)"

definition launch :: "run_env \<Rightarrow> int list \<Rightarrow> Stack \<Rightarrow> Stack run" where
  \<comment> \<open>the development profile from the point on where resources may exist\<close>
  "launch env ports s w =
     try_then (Compose env s [''up'', ''-d'', ''--build'', ''--wait'', ''--wait-timeout'', ''90'']) (\<lambda>_.
     try_then (\<lambda>w. find_endpoints env s (arrange (rx_order env (rw_calls w)) services) (\<lambda>_. []) w)
       (launched env ports s)) w"

definition abandon :: "run_env \<Rightarrow> Stack \<Rightarrow> run_err \<Rightarrow> Stack run" where
  \<comment> \<open>the deferred cleanup of a start that failed when resources may exist\<close>
  "abandon env s err w =
     (case CollectEvidence env s (Directory s) w of
        (ev, w1) \<Rightarrow>
          (case Destroy env s w1 of
             (destroyed, w2) \<Rightarrow>
               let destroy_err = (case destroyed of Inl e \<Rightarrow> join_errs [Some StartupCleanup, Some e] | Inr _ \<Rightarrow> None) in
               (Inl (Wrapped (''start '' @ Project s @ '' failed; evidence '' @ Directory s @ '': '')
                       (the (join_errs [Some err, error_of ev, destroy_err])) []), w2)))"

definition or_abandon :: "run_env \<Rightarrow> Stack \<Rightarrow> Stack run \<Rightarrow> Stack run" where
  "or_abandon env s m w = (case m w of (Inl e, w') \<Rightarrow> abandon env s e w' | (Inr r, w') \<Rightarrow> (Inr r, w'))"

definition new_stack :: "run_env \<Rightarrow> bytes \<Rightarrow> Options \<Rightarrow> run_world \<Rightarrow> Stack" where
  "new_stack env checkout opts w =
     (let project = projectName (rx_uuid env (rw_calls w)) (Purpose opts) in
      \<lparr>APIURL = [], APIProbeURL = [], ConsumerURL = [], DatabaseURL = [], Brokers = [], Project = project,
       Directory = (if OutputDirectory opts = [] then path_join [checkout, ''tmp'', ''runs'', project] else OutputDirectory opts),
       s_root = checkout, s_token = rx_uuid env (Suc (rw_calls w)), s_identity = project, s_env = [], s_owned = True,
       s_profile = [], s_caPath = [], s_exposeDependencies = False\<rparr>)"

definition start_selfhost :: "run_env \<Rightarrow> Options \<Rightarrow> Stack \<Rightarrow> Stack run" where
  "start_selfhost env opts s w =
     try_then (prepareDeployment env s opts) (\<lambda>s.
     or_abandon env s (try_then (startDeployment env s) (\<lambda>_ w. (Inr s, w)))) w"

definition development_on :: "run_env \<Rightarrow> Stack \<Rightarrow> int list \<Rightarrow> Stack run" where
  \<comment> \<open>the variables written while the ports are held, then the launch\<close>
  "development_on env s ports w =
     (let s = s\<lparr>s_env := development_vars (s_token s) ports\<rparr> in
      try_then (hold_ports ports (write_file env (run_env_path s) (env_lines (s_env s)))) (\<lambda>_.
      or_abandon env s (launch env ports s)) w)"

definition start_development :: "run_env \<Rightarrow> Stack \<Rightarrow> Stack run" where
  "start_development env s w = try_then (reserve env 4 []) (development_on env s) w"

definition startAttempt :: "run_env \<Rightarrow> bytes \<Rightarrow> Options \<Rightarrow> Stack run" where
  "startAttempt env checkout opts w =
     (let s = new_stack env checkout opts w in
      case path_abs env (Directory s) of
        Inl e \<Rightarrow> (Inl e, w)
      | Inr dir \<Rightarrow>
          (let s = s\<lparr>Directory := dir\<rparr> in
           try_then (mkdir_all env dir) (\<lambda>_.
             if Profile opts = ''selfhost'' then start_selfhost env opts s else start_development env s)
             (note_that [] (note_that [] w))))"

fun start_loop :: "run_env \<Rightarrow> bytes \<Rightarrow> Options \<Rightarrow> nat \<Rightarrow> run_err \<Rightarrow> Stack run" where
  "start_loop env checkout opts 0 last_err w = (Inl last_err, w)"
| "start_loop env checkout opts (Suc n) last_err w =
     (case startAttempt env checkout opts w of
        (Inr s, w') \<Rightarrow> (Inr s, w')
      | (Inl e, w') \<Rightarrow>
          if \<not> Contains (err_text e) ''address already in use'' \<or> is_cleanup e then (Inl e, w')
          else start_loop env checkout opts n e w')"

definition Start :: "run_env \<Rightarrow> Options \<Rightarrow> Stack run" where
  "Start env opts w =
     (if Profile opts \<notin> {[], ''development'', ''selfhost''} then (Inl (Err ''unsupported deployment profile''), w)
      else if ExposeDependencies opts \<and> Profile opts \<noteq> ''selfhost''
      then (Inl (Err ''dependency probes require selfhost profile''), w)
      else case Root env of
             Inl e \<Rightarrow> (Inl e, w)
           | Inr checkout \<Rightarrow> start_loop env checkout opts 3 (Err []) w)"

end
