(* ===== verification/Runenv_Safety.thy ===== *)
theory Runenv_Safety
  imports Runenv_Stack
begin

text \<open>
  What the commands of a run may do: which of them only read, what a check of the owner looks
  like in the trace, and which projects a trace leaves running.  The reasoning about traces is
  done once, in a locale of relations that every reading step keeps.
\<close>

section \<open>Reading a trace\<close>

definition compose_options :: "bytes set" where
  "compose_options = {''--project-directory'', ''-p'', ''-f'', ''--env-file''}"

fun compose_flags :: "bytes list \<Rightarrow> (bytes \<times> bytes) list \<times> bytes list" where
  "compose_flags (k # v # rest) =
     (if k \<in> compose_options then (case compose_flags rest of (fs, r) \<Rightarrow> ((k, v) # fs, r)) else ([], k # v # rest))"
| "compose_flags xs = ([], xs)"

definition compose_call :: "command \<Rightarrow> (bytes option \<times> bytes list) option" where
  \<comment> \<open>the project a Compose command is about, and what it asks\<close>
  "compose_call c =
     (if cm_prog c = ''docker'' \<and> take 1 (cm_args c) = [''compose'']
      then (case compose_flags (tl (cm_args c)) of (fs, r) \<Rightarrow> Some (map_of fs ''-p'', r)) else None)"

definition reading_args :: "bytes list \<Rightarrow> bool" where
  "reading_args args \<longleftrightarrow> take 1 args \<in> {[''ps''], [''logs''], [''images''], [''port''], [''cp''], [''exec'']}"

definition reading :: "command \<Rightarrow> bool" where
  "reading c \<longleftrightarrow>
     cm_prog c \<noteq> ''docker'' \<or>
     (case compose_call c of
        Some (_, args) \<Rightarrow> reading_args args
      | None \<Rightarrow> take 1 (cm_args c) = [''inspect''] \<or> take 2 (cm_args c) \<in> {[''volume'', ''ls''], [''volume'', ''inspect'']})"

definition quiet :: "happening \<Rightarrow> bool" where
  "quiet h \<longleftrightarrow> (case h of Ran c _ _ \<Rightarrow> reading c | _ \<Rightarrow> True)"

definition inspected :: "bytes list \<Rightarrow> bytes \<Rightarrow> happening \<Rightarrow> bytes \<Rightarrow> bool" where
  "inspected ask token h x \<longleftrightarrow>
     (\<exists>c out. h = Ran c out None \<and> cm_prog c = ''docker'' \<and> cm_args c = ask @ [x] \<and> TrimSpace out = token)"

definition audit :: "bytes \<Rightarrow> bytes \<Rightarrow> happening list \<Rightarrow> bool" where
  \<comment> \<open>every container and every volume of the project was asked for its mark and answered the token\<close>
  "audit project token au \<longleftrightarrow>
     (\<exists>c ids cs d vols vs.
        au = Ran c ids None # cs @ Ran d vols None # vs \<and>
        compose_call c = Some (Some project, [''ps'', ''-a'', ''-q'']) \<and>
        list_all2 (inspected [''inspect'', ''--format'', container_label] token) cs (Fields ids) \<and>
        cm_prog d = ''docker'' \<and>
        cm_args d = [''volume'', ''ls'', ''--filter'', ''label=com.docker.compose.project='' @ project,
          ''--format'', ''{{.Name}}''] \<and>
        list_all2 (inspected [''volume'', ''inspect'', ''--format'', volume_label] token) vs (Fields vols))"

definition run_id :: "bytes \<Rightarrow> bytes" where
  "run_id token = ''INGESTKIT_RUN_ID='' @ token"

inductive careful :: "happening list \<Rightarrow> bool" where
  \<comment> \<open>everything that is not reading or starting a project up directly follows an audit of that
      project, against the run's mark that the command itself carries\<close>
  nothing: "careful []"
| reads: "careful tr \<Longrightarrow> quiet h \<Longrightarrow> careful (tr @ [h])"
| launches: "careful tr \<Longrightarrow> compose_call c = Some (Some project, ''up'' # rest) \<Longrightarrow>
    run_id token \<in> set (cm_env c) \<Longrightarrow> careful (tr @ [Ran c out err])"
| audited: "careful tr \<Longrightarrow> audit project token au \<Longrightarrow> compose_call c = Some (Some project, args) \<Longrightarrow>
    run_id token \<in> set (cm_env c) \<Longrightarrow> careful (tr @ au @ [Ran c out err])"

definition note_run :: "happening \<Rightarrow> bytes set \<Rightarrow> bytes set" where
  "note_run h up =
     (case h of
        Ran c out err \<Rightarrow>
          (case compose_call c of
             Some (Some project, args) \<Rightarrow>
               if take 1 args = [''up''] then insert project up
               else if take 1 args = [''down''] \<and> err = None then up - {project}
               else up
           | _ \<Rightarrow> up)
      | _ \<Rightarrow> up)"

fun running :: "happening list \<Rightarrow> bytes set \<Rightarrow> bytes set" where
  \<comment> \<open>the projects that may have resources after the trace\<close>
  "running [] up = up"
| "running (h # hs) up = running hs (note_run h up)"

lemma running_append [simp]: "running (xs @ ys) up = running ys (running xs up)"
  by (induction xs arbitrary: up) auto

lemma note_run_quiet: "quiet h \<Longrightarrow> note_run h up = up"
  by (auto simp: quiet_def note_run_def reading_def reading_args_def compose_call_def
      split: happening.splits option.splits prod.splits if_splits)

lemma running_quiet: "list_all quiet hs \<Longrightarrow> running hs up = up"
  by (induction hs) (simp_all add: note_run_quiet)

lemma careful_append: "careful ys \<Longrightarrow> careful xs \<Longrightarrow> careful (xs @ ys)"
proof (induction rule: careful.induct)
  case (reads tr h) then show ?case using careful.reads [of "xs @ tr" h] by simp
next
  case (launches tr c project rest token out err)
  then show ?case using careful.launches [of "xs @ tr" c project rest token out err] by simp
next
  case (audited tr project token au c args out err)
  then show ?case using careful.audited [of "xs @ tr" project token au c args out err] by simp
qed simp

lemma careful_quiet: "list_all quiet hs \<Longrightarrow> careful hs"
  by (induction hs rule: rev_induct) (auto intro: careful.intros)

lemma compose_flags_end: "args \<noteq> [] \<Longrightarrow> hd args \<notin> compose_options \<Longrightarrow> compose_flags args = ([], args)"
  by (cases args rule: compose_flags.cases) auto

definition plain_args :: "bytes list \<Rightarrow> bool" where
  "plain_args args \<longleftrightarrow> args \<noteq> [] \<and> hd args \<notin> compose_options"

lemma plain_verbs [simp]:
  "plain_args (''up'' # args)" "plain_args (''down'' # args)" "plain_args (''stop'' # args)"
  "plain_args (''start'' # args)" "plain_args (''kill'' # args)"
  by (simp_all add: plain_args_def compose_options_def)

lemma compose_call_composeArgs:
  assumes "plain_args args" "cm_prog c = ''docker''" "cm_args c = composeArgs s args"
  shows "compose_call c = Some (Some (Project s), args)"
  using compose_flags_end [of args] assms by (simp add: plain_args_def compose_call_def composeArgs_def compose_options_def)

lemma reading_verbs [simp]:
  "reading_args (''ps'' # args)" "reading_args (''logs'' # args)" "reading_args (''images'' # args)"
  "reading_args (''port'' # args)" "reading_args (''cp'' # args)" "reading_args (''exec'' # args)"
  by (simp_all add: reading_args_def)

lemma reading_plain: "reading_args args \<Longrightarrow> plain_args args"
  by (cases args) (auto simp: reading_args_def plain_args_def compose_options_def)

section \<open>What a command adds\<close>

lemma docker_trace:
  assumes "docker env s args w = (r, w')"
  obtains (none) e where "r = Inl e" "rw_trace w' = rw_trace w"
  | (ran) c out err where "rw_trace w' = rw_trace w @ [Ran c out err]" "cm_prog c = ''docker''" "cm_args c = args"
      "set (s_env s) \<subseteq> set (cm_env c)" "r = Inr out \<and> err = None \<or> (\<exists>e. r = Inl e) \<and> err \<noteq> None"
proof -
  have run: thesis if "docker_run env s extra args w = (r, w')" for extra
    using that by (auto simp: docker_run_def run_command_def Let_def split: option.splits intro!: ran)
  show thesis
  proof (cases "s_profile s = ''selfhost''")
    case True
    then show thesis using assms run none by (auto simp: docker_def split: sum.splits)
  next
    case False
    then show thesis using assms run by (simp add: docker_def)
  qed
qed

lemma Compose_trace:
  assumes "Compose env s args w = (r, w')" "plain_args args"
  obtains (none) e where "r = Inl e" "rw_trace w' = rw_trace w"
  | (ran) c out err where "rw_trace w' = rw_trace w @ [Ran c out err]"
      "compose_call c = Some (Some (Project s), args)" "set (s_env s) \<subseteq> set (cm_env c)"
      "r = Inr out \<and> err = None \<or> (\<exists>e. r = Inl e) \<and> err \<noteq> None"
proof (cases "\<not> s_owned s \<or> Project s \<noteq> s_identity s")
  case True
  then show thesis using assms(1) none by (auto simp: Compose_def)
next
  case False
  then have "docker env s (composeArgs s args) w = (r, w')" using assms(1) by (simp add: Compose_def)
  then show thesis
    by (cases rule: docker_trace) (use none ran compose_call_composeArgs [OF assms(2)] in blast)+
qed

lemma set_arrange: "set (arrange ks xs) = set xs"
proof (induction ks xs rule: arrange.induct)
  case (1 k ks x xs)
  let ?i = "k mod Suc (length xs)"
  have "set (x # xs) = insert ((x # xs) ! ?i) (set (take ?i (x # xs) @ drop (Suc ?i) (x # xs)))"
    using id_take_nth_drop [of ?i "x # xs"] by (metis length_Cons list.set(2) mod_less_divisor set_append Un_insert_right zero_less_Suc)
  then show ?case using 1 by (simp add: Let_def del: take_Suc_Cons drop_Suc_Cons)
qed auto

section \<open>Relations that reading keeps\<close>

locale run_relation =
  fixes R :: "run_world \<Rightarrow> run_world \<Rightarrow> bool"
  assumes rel_trans: "R u v \<Longrightarrow> R v w \<Longrightarrow> R u w"
    and rel_quiet: "rw_trace w' = rw_trace w @ hs \<Longrightarrow> list_all quiet hs \<Longrightarrow> R w w'"
begin

lemma rel_refl: "R w w"
  by (rule rel_quiet [of _ _ "[]"]) simp_all

lemma rel_try:
  assumes "\<And>r w'. m w = (r, w') \<Longrightarrow> R w w'" "\<And>a w' r w''. m w = (Inr a, w') \<Longrightarrow> k a w' = (r, w'') \<Longrightarrow> R w' w''"
    and "try_then m k w = (r, w'')"
  shows "R w w''"
proof (cases "m w")
  case (Pair x w')
  then show ?thesis using assms rel_trans by (cases x) (auto simp: try_then_def)
qed

lemma rel_docker:
  assumes "docker env s args w = (r, w')" "\<And>c. cm_prog c = ''docker'' \<Longrightarrow> cm_args c = args \<Longrightarrow> reading c"
  shows "R w w'"
  using assms(1)
proof (cases rule: docker_trace)
  case (none e)
  then show ?thesis by (intro rel_quiet [of _ _ "[]"]) simp_all
next
  case (ran c out err)
  then show ?thesis using assms(2) by (intro rel_quiet [of _ _ "[Ran c out err]"]) (simp_all add: quiet_def)
qed

lemma rel_Compose:
  assumes "Compose env s args w = (r, w')" "reading_args args"
  shows "R w w'"
  using assms(1) reading_plain [OF assms(2)]
proof (cases rule: Compose_trace)
  case (none e)
  then show ?thesis by (intro rel_quiet [of _ _ "[]"]) simp_all
next
  case (ran c out err)
  then show ?thesis using assms(2) by (intro rel_quiet [of _ _ "[Ran c out err]"]) (simp_all add: quiet_def reading_def)
qed

lemma rel_note: "list_all quiet hs \<Longrightarrow> R w (note_that hs w)"
  by (rule rel_quiet [of _ _ hs]) simp_all

lemma rel_write: "write_file env p content w = (r, w') \<Longrightarrow> R w w'"
  by (rule rel_quiet [of _ _ "[Wrote p content]"])
    (auto simp: write_file_def quiet_def Let_def split: option.splits prod.splits)

lemma rel_mkdir: "mkdir_all env p w = (r, w') \<Longrightarrow> R w w'"
  by (rule rel_quiet [of _ _ "[]"]) (auto simp: mkdir_all_def split: option.splits)

lemma rel_release: "R w (release ports w)"
  unfolding release_def by (rule rel_note) (simp add: list_all_iff quiet_def)

lemma rel_reserve: "reserve env n ports w = (r, w') \<Longrightarrow> R w w'"
proof (induction env n ports w rule: reserve.induct)
  case (2 env n ports w)
  have "R w (note_that [Listened p] w)" for p by (rule rel_note) (simp add: quiet_def)
  then show ?case using 2 rel_release by (auto split: sum.splits intro: rel_trans)
qed (simp add: rel_refl)

lemma rel_collect: "collect env s dir entries w = (r, w') \<Longrightarrow> \<forall>e \<in> set entries. reading_args (snd e) \<Longrightarrow> R w w'"
proof (induction env s dir entries w arbitrary: r w' rule: collect.induct)
  case (2 env s dir name args rest w)
  have read: "reading_args args" "\<forall>e \<in> set rest. reading_args (snd e)" using "2.prems"(2) by simp_all
  show ?case
    using "2.prems"(1) unfolding collect.simps
  proof (rule rel_try [rotated 2])
    fix out u r v
    assume "try_then (write_file env (path_join [dir, name]) out) (\<lambda>_. collect env s dir rest) u = (r, v)"
    then show "R u v" by (rule rel_try [rotated 2]) (use rel_write "2.IH" read(2) in blast)+
  qed (use rel_Compose read(1) in blast)
qed (simp add: rel_refl)

lemma rel_evidence: "CollectEvidence env s dir w = (r, w') \<Longrightarrow> R w w'"
proof -
  have "\<forall>e \<in> set (arrange ks evidence). reading_args (snd e)" for ks
    unfolding set_arrange by (simp add: evidence_def)
  then show "CollectEvidence env s dir w = (r, w') \<Longrightarrow> R w w'"
    unfolding CollectEvidence_def
    by (auto simp: rel_refl split: if_splits elim!: rel_try [rotated 2] intro: rel_mkdir rel_collect)
qed

lemma rel_endpoints: "find_endpoints env s entries acc w = (r, w') \<Longrightarrow> R w w'"
proof (induction env s entries acc w arbitrary: r w' rule: find_endpoints.induct)
  case (2 env s service port rest acc w)
  from "2.prems" show ?case
    unfolding find_endpoints.simps by (rule rel_try [rotated 2]) (erule rel_Compose, simp, erule "2.IH")
qed (simp add: rel_refl)

lemma rel_probe:
  assumes "probe env s w = (r, w')"
  shows "R w w'"
proof -
  obtain x v where run: "Compose env s [''cp'', ''gateway:/data/caddy/pki/authorities/local/root.crt'', s_caPath s] w = (x, v)"
    by (metis surj_pair)
  then have step: "R w v" by (rule rel_Compose) simp
  have "R v w'"
  proof (rule rel_quiet)
    show "rw_trace w' = rw_trace v @ drop (length (rw_trace v)) (rw_trace w')"
      "list_all quiet (drop (length (rw_trace v)) (rw_trace w'))"
      using assms run by (auto simp: probe_def quiet_def split: sum.splits prod.splits)
  qed
  with step show ?thesis by (rule rel_trans)
qed

lemma rel_await: "await_health env s due w = (r, w') \<Longrightarrow> R w w'"
proof (induction env s due w rule: await_health.induct)
  case (1 env s due w)
  obtain x v where run: "probe env s w = (x, v)" by (metis surj_pair)
  have step: "R w v" using run by (rule rel_probe)
  have "R v (pause env (100 * millisecond) v)" unfolding pause_def by (rule rel_quiet [of _ _ "[]"]) simp_all
  note later = rel_trans [OF rel_trans [OF step this]]
  show ?case
  proof (cases "x = Inr False \<and> rw_now v \<le> due \<and> rx_done env (rw_calls v) = None")
    case True
    then have "await_health env s due (pause env (100 * millisecond) v) = (r, w')"
      using "1.prems" run by (simp add: await_health.simps [of env s due w])
    then show ?thesis using "1.IH" [OF run [symmetric]] True later by auto
  next
    case False
    then have "w' = v"
      using "1.prems" run
      by (auto simp: await_health.simps [of env s due w] split: sum.splits bool.splits if_splits option.splits)
    with step show ?thesis by simp
  qed
qed

lemma rel_configure: "configure_deployment env s w = (r, w') \<Longrightarrow> R w w'"
  by (rule rel_quiet [of _ _ "drop (length (rw_trace w)) (rw_trace w')"])
    (auto simp: configure_deployment_def run_command_def Let_def quiet_def reading_def split: option.splits)

lemma rel_hold: "(\<And>r w'. m w = (r, w') \<Longrightarrow> R w w') \<Longrightarrow> hold_ports ports m w = (r, w') \<Longrightarrow> R w w'"
  using rel_release by (auto simp: hold_ports_def split: prod.splits intro: rel_trans)

lemma rel_prepare: "prepareDeployment env s opts w = (r, w') \<Longrightarrow> R w w'"
  unfolding prepareDeployment_def write_deployment_def Let_def
  by (auto elim!: rel_try [rotated 2] rel_hold [rotated] intro: rel_configure rel_reserve rel_write rel_refl)

end

section \<open>Guarded commands\<close>

lemma reading_inspect:
  "cm_args c = ''inspect'' # args \<Longrightarrow> reading c" "cm_args c = ''volume'' # ''ls'' # args \<Longrightarrow> reading c"
  "cm_args c = ''volume'' # ''inspect'' # args \<Longrightarrow> reading c"
  by (simp_all add: reading_def compose_call_def)

definition adds :: "'a run \<Rightarrow> run_world \<Rightarrow> ('a \<Rightarrow> happening list \<Rightarrow> bool) \<Rightarrow> bool" where
  \<comment> \<open>a step that only reads, and what its result says of what it added\<close>
  "adds m w P \<longleftrightarrow>
     (\<exists>hs. rw_trace (snd (m w)) = rw_trace w @ hs \<and> list_all quiet hs \<and> (\<forall>a. fst (m w) = Inr a \<longrightarrow> P a hs))"

lemma adds_try:
  assumes "adds m w P" "\<And>a hs w'. P a hs \<Longrightarrow> adds (k a) w' (\<lambda>b hs'. Q b (hs @ hs'))"
  shows "adds (try_then m k) w Q"
proof -
  obtain hs where hs: "rw_trace (snd (m w)) = rw_trace w @ hs" "list_all quiet hs" "\<forall>a. fst (m w) = Inr a \<longrightarrow> P a hs"
    using assms(1) unfolding adds_def by blast
  show ?thesis
  proof (cases "fst (m w)")
    case (Inl e)
    then show ?thesis using hs unfolding adds_def
      by (intro exI [of _ hs]) (auto simp: try_then_def split: prod.splits)
  next
    case (Inr a)
    then obtain v where run: "m w = (Inr a, v)" by (metis prod.collapse)
    obtain hs' where "rw_trace (snd (k a v)) = rw_trace v @ hs'" "list_all quiet hs'"
      "\<forall>b. fst (k a v) = Inr b \<longrightarrow> Q b (hs @ hs')"
      using assms(2) [of a hs v] hs(3) Inr unfolding adds_def by blast
    then show ?thesis using hs run unfolding adds_def by (intro exI [of _ "hs @ hs'"]) (auto simp: try_then_def)
  qed
qed

lemma adds_weaken: "adds m w P \<Longrightarrow> (\<And>a hs. P a hs \<Longrightarrow> Q a hs) \<Longrightarrow> adds m w Q"
  unfolding adds_def by blast

lemma adds_docker:
  assumes "\<And>c. cm_args c = args \<Longrightarrow> reading c"
  shows "adds (docker env s args) w (\<lambda>out hs. \<exists>c. hs = [Ran c out None] \<and> cm_prog c = ''docker'' \<and> cm_args c = args)"
proof -
  obtain r w' where run: "docker env s args w = (r, w')" by (metis surj_pair)
  then show ?thesis
  proof (cases rule: docker_trace)
    case (none e)
    then show ?thesis using run unfolding adds_def by (intro exI [of _ "[]"]) simp
  next
    case (ran c out err)
    then show ?thesis using run assms unfolding adds_def by (intro exI [of _ "[Ran c out err]"]) (auto simp: quiet_def)
  qed
qed

lemma adds_Compose:
  assumes "reading_args args"
  shows "adds (Compose env s args) w (\<lambda>out hs. \<exists>c. hs = [Ran c out None] \<and> compose_call c = Some (Some (Project s), args))"
proof -
  obtain r w' where run: "Compose env s args w = (r, w')" by (metis surj_pair)
  then show ?thesis using reading_plain [OF assms]
  proof (cases rule: Compose_trace)
    case (none e)
    then show ?thesis using run unfolding adds_def by (intro exI [of _ "[]"]) simp
  next
    case (ran c out err)
    then show ?thesis using run assms unfolding adds_def
      by (intro exI [of _ "[Ran c out err]"]) (auto simp: quiet_def reading_def)
  qed
qed

lemma inspectedI:
  "cm_prog c = ''docker'' \<Longrightarrow> cm_args c = ask @ [x] \<Longrightarrow> TrimSpace out = token \<Longrightarrow> inspected ask token (Ran c out None) x"
  by (simp add: inspected_def)

lemma adds_inspect:
  assumes "\<And>c x. cm_args c = ask @ [x] \<Longrightarrow> reading c"
  shows "adds (inspect_all env s ask mismatch xs) w (\<lambda>_ hs. list_all2 (inspected ask (s_token s)) hs xs)"
proof (induction xs arbitrary: w)
  case Nil
  then show ?case by (simp add: adds_def)
next
  case (Cons x xs)
  have "inspect_all env s ask mismatch (x # xs) =
      try_then (docker env s (ask @ [x])) (\<lambda>out. if TrimSpace out \<noteq> s_token s then (\<lambda>w. (Inl (Err mismatch), w))
        else inspect_all env s ask mismatch xs)"
    by (rule ext) (simp add: try_then_def split: prod.splits sum.splits)
  moreover have "adds (try_then (docker env s (ask @ [x])) (\<lambda>out. if TrimSpace out \<noteq> s_token s then (\<lambda>w. (Inl (Err mismatch), w))
        else inspect_all env s ask mismatch xs)) w (\<lambda>_ hs. list_all2 (inspected ask (s_token s)) hs (x # xs))"
  proof (rule adds_try [OF adds_docker])
    show "reading c" if "cm_args c = ask @ [x]" for c using assms that .
    fix out hs w'
    assume "\<exists>c. hs = [Ran c out None] \<and> cm_prog c = ''docker'' \<and> cm_args c = ask @ [x]"
    then show "adds (if TrimSpace out \<noteq> s_token s then \<lambda>w. (Inl (Err mismatch), w) else inspect_all env s ask mismatch xs)
        w' (\<lambda>_ hs'. list_all2 (inspected ask (s_token s)) (hs @ hs') (x # xs))"
      using Cons.IH [of w'] by (auto simp: adds_def intro: inspectedI)
  qed
  ultimately show ?case by simp
qed

lemma auditI:
  assumes "compose_call c = Some (Some project, [''ps'', ''-a'', ''-q''])"
    and "list_all2 (inspected [''inspect'', ''--format'', container_label] token) cs (Fields ids)"
    and "cm_prog d = ''docker''"
    and "cm_args d = [''volume'', ''ls'', ''--filter'', ''label=com.docker.compose.project='' @ project, ''--format'', ''{{.Name}}'']"
    and "list_all2 (inspected [''volume'', ''inspect'', ''--format'', volume_label] token) vs (Fields vols)"
  shows "audit project token ([Ran c ids None] @ cs @ [Ran d vols None] @ vs)"
  unfolding audit_def
  by (rule exI [of _ c], rule exI [of _ ids], rule exI [of _ cs], rule exI [of _ d], rule exI [of _ vols], rule exI [of _ vs],
      intro conjI assms) simp

lemma adds_verifyOwner: "adds (verifyOwner env s) w (\<lambda>_. audit (Project s) (s_token s))"
proof (cases "\<not> s_owned s \<or> s_token s = [] \<or> \<not> HasPrefix (Project s) ''ingestkit-''")
  case True
  then show ?thesis by (auto simp: verifyOwner_def adds_def)
next
  case False
  let ?rest = "\<lambda>ids. try_then (inspect_all env s [''inspect'', ''--format'', container_label]
        ''container ownership label mismatch'' (Fields ids)) (\<lambda>_.
      try_then (docker env s [''volume'', ''ls'', ''--filter'', ''label=com.docker.compose.project='' @ Project s,
                  ''--format'', ''{{.Name}}'']) (\<lambda>volumes.
      inspect_all env s [''volume'', ''inspect'', ''--format'', volume_label]
        ''volume ownership label mismatch'' (Fields volumes)))"
  have "adds (try_then (Compose env s [''ps'', ''-a'', ''-q'']) ?rest) w (\<lambda>_. audit (Project s) (s_token s))"
    by (rule adds_try [OF adds_Compose], simp, rule adds_try [OF adds_inspect],
        simp add: reading_inspect, rule adds_try [OF adds_docker], simp add: reading_inspect,
        rule adds_weaken [OF adds_inspect], simp add: reading_inspect, elim exE conjE, hypsubst, rule auditI)
  then show ?thesis using False by (simp add: verifyOwner_def adds_def)
qed

lemma guarded_trace:
  assumes "guarded env s args w = (r, w')" "plain_args args"
  obtains (refused) au e where "rw_trace w' = rw_trace w @ au" "list_all quiet au" "r = Inl e"
  | (ran) au c out err where "rw_trace w' = rw_trace w @ au @ [Ran c out err]" "list_all quiet au"
      "audit (Project s) (s_token s) au" "compose_call c = Some (Some (Project s), args)"
      "set (s_env s) \<subseteq> set (cm_env c)" "r = Inr () \<longleftrightarrow> err = None"
proof -
  obtain x v where owner: "verifyOwner env s w = (x, v)" by (metis surj_pair)
  obtain au where au: "rw_trace v = rw_trace w @ au" "list_all quiet au" "x = Inr () \<longrightarrow> audit (Project s) (s_token s) au"
    using adds_verifyOwner [of env s w] owner unfolding adds_def by auto
  show thesis
  proof (cases x)
    case (Inl e)
    then show thesis using refused au owner assms(1) by (auto simp: guarded_def try_then_def)
  next
    case (Inr u)
    obtain y t where cmd: "Compose env s args v = (y, t)" by (metis surj_pair)
    have res: "w' = t" "r = (case y of Inl e \<Rightarrow> Inl e | Inr _ \<Rightarrow> Inr ())"
      using assms(1) owner Inr cmd by (auto simp: guarded_def try_then_def split: sum.splits)
    from cmd assms(2) show thesis
    proof (cases rule: Compose_trace)
      case (none e)
      then show thesis using refused [of au e] au res by simp
    next
      case (ran c out err)
      show thesis
        by (rule that(2) [of au c out err]) (use ran au res Inr in auto)
    qed
  qed
qed

section \<open>Relations that starting and guarded commands keep\<close>

locale launching = run_relation R for R :: "run_world \<Rightarrow> run_world \<Rightarrow> bool" +
  fixes mine :: "Stack \<Rightarrow> bool"
  assumes rel_up: "mine s \<Longrightarrow> Compose env s (''up'' # args) w = (r, w') \<Longrightarrow> R w w'"
    and rel_guarded: "mine s \<Longrightarrow> plain_args args \<Longrightarrow> guarded env s args w = (q, w') \<Longrightarrow> R w w'"
begin

lemma rel_launch: "mine s \<Longrightarrow> launch env ports s w = (r, w') \<Longrightarrow> R w w'"
  unfolding launch_def
  by (auto simp: launched_def Let_def elim!: rel_try [rotated 2] intro: rel_up rel_endpoints rel_write rel_refl)

lemma rel_startDeployment: "mine s \<Longrightarrow> startDeployment env s w = (r, w') \<Longrightarrow> R w w'"
  unfolding startDeployment_def by (auto elim!: rel_try [rotated 2] intro: rel_up rel_await)

lemma rel_operations:
  assumes "mine s"
  shows "Stop env s w = (r, w') \<Longrightarrow> R w w'" "Destroy env s w = (r, w') \<Longrightarrow> R w w'"
    "SetServiceRunning env s name up w = (r, w') \<Longrightarrow> R w w'" "KillConsumer env s w = (r, w') \<Longrightarrow> R w w'"
proof -
  assume run: "SetServiceRunning env s name up w = (r, w')"
  show "R w w'"
  proof (cases "name \<in> {''api'', ''consumer'', ''postgres'', ''redpanda''}")
    case True
    then have "guarded env s [if up then ''start'' else ''stop'', name] w = (r, w')"
      using run unfolding SetServiceRunning_def by argo
    then show ?thesis by (rule rel_guarded [OF assms, rotated]) (cases up, simp_all)
  next
    case False
    then have "w' = w" using run unfolding SetServiceRunning_def by (metis prod.inject)
    then show ?thesis using rel_refl by simp
  qed
qed (unfold Stop_def Destroy_def KillConsumer_def, (erule rel_guarded [OF assms, rotated], simp)+)

lemma rel_or_abandon:
  assumes "mine s" "\<And>x v. m w = (x, v) \<Longrightarrow> R w v" "or_abandon env s m w = (r, w')"
  shows "R w w'"
proof (cases "m w")
  case (Pair x v)
  obtain y1 v1 where ev: "CollectEvidence env s (Directory s) v = (y1, v1)" by (metis surj_pair)
  obtain y2 v2 where dest: "Destroy env s v1 = (y2, v2)" by (metis surj_pair)
  have "R w v" "R v v1" "R v1 v2"
    using assms(2) Pair rel_evidence [OF ev] rel_operations(2) [OF assms(1) dest] by simp_all
  then have "R w v" "R w v2" using rel_trans by blast+
  then show ?thesis
    using assms(3) Pair ev dest by (cases x) (auto simp: or_abandon_def abandon_def Let_def)
qed

end

definition cautious :: "run_world \<Rightarrow> run_world \<Rightarrow> bool" where
  "cautious w w' \<longleftrightarrow> (\<exists>tr. rw_trace w' = rw_trace w @ tr \<and> careful tr)"

definition marked :: "Stack \<Rightarrow> bool" where
  "marked s \<longleftrightarrow> run_id (s_token s) \<in> set (s_env s)"

interpretation caution: launching cautious marked
proof
  show "cautious u w" if "cautious u v" "cautious v w" for u v w
    using that careful_append unfolding cautious_def by (metis append_assoc)
  show "cautious w w'" if "rw_trace w' = rw_trace w @ hs" "list_all quiet hs" for w w' hs
    using that careful_quiet unfolding cautious_def by blast
  show "cautious w w'" if "marked s" "Compose env s (''up'' # args) w = (r, w')" for s env args w w' and r :: "run_err + bytes"
  proof -
    have "plain_args (''up'' # args)" by simp
    with that(2) show ?thesis
    proof (cases rule: Compose_trace)
      case (none e)
      then show ?thesis unfolding cautious_def by (auto intro: careful.intros)
    next
      case (ran c out err)
      then show ?thesis
        using that(1) careful.launches [OF careful.nothing ran(2)] unfolding cautious_def marked_def by auto
    qed
  qed
  show "cautious w w'" if "marked s" "plain_args args" "guarded env s args w = (r, w')" for s env args w w' r
    using that(3,2)
  proof (cases rule: guarded_trace)
    case (refused au e)
    then show ?thesis using careful_quiet unfolding cautious_def by blast
  next
    case (ran au c out err)
    then show ?thesis
      using that(1) careful.audited [OF careful.nothing ran(3,4)] unfolding cautious_def marked_def by auto
  qed
qed

definition leaves :: "bytes \<Rightarrow> run_world \<Rightarrow> run_world \<Rightarrow> bool" where
  "leaves project w w' \<longleftrightarrow> running (rw_trace w') {} \<subseteq> insert project (running (rw_trace w) {})"

lemma note_run_own: "compose_call c = Some (Some project, args) \<Longrightarrow> note_run (Ran c out err) up \<subseteq> insert project up"
  by (auto simp: note_run_def)

interpretation tidy: launching "leaves project" "\<lambda>s. Project s = project" for project
proof
  show "leaves project u w" if "leaves project u v" "leaves project v w" for u v w
    using that unfolding leaves_def by blast
  show "leaves project w w'" if "rw_trace w' = rw_trace w @ hs" "list_all quiet hs" for w w' hs
    using that running_quiet unfolding leaves_def by auto
  show "leaves project w w'" if "Project s = project" "Compose env s (''up'' # args) w = (r, w')"
    for s env args w w' and r :: "run_err + bytes"
  proof -
    have "plain_args (''up'' # args)" by simp
    with that(2) show ?thesis
      by (cases rule: Compose_trace) (use that(1) note_run_own in \<open>auto simp: leaves_def\<close>)
  qed
  show "leaves project w w'" if "Project s = project" "plain_args args" "guarded env s args w = (r, w')" for s env args w w' r
    using that(3,2)
    by (cases rule: guarded_trace) (use that(1) note_run_own running_quiet in \<open>auto simp: leaves_def\<close>)
qed

section \<open>Starting a stack\<close>

definition quietly :: "run_world \<Rightarrow> run_world \<Rightarrow> bool" where
  "quietly w w' \<longleftrightarrow> (\<exists>hs. rw_trace w' = rw_trace w @ hs \<and> list_all quiet hs)"

interpretation quietness: run_relation quietly
  by unfold_locales (auto simp: quietly_def)

definition stack_of :: "run_env \<Rightarrow> Options \<Rightarrow> run_world \<Rightarrow> Stack \<Rightarrow> bool" where
  \<comment> \<open>the identity a stack is born with, and its mark among the variables of its commands\<close>
  "stack_of env opts w s \<longleftrightarrow>
     Project s = projectName (rx_uuid env (rw_calls w)) (Purpose opts) \<and> s_token s = rx_uuid env (Suc (rw_calls w)) \<and>
     s_identity s = Project s \<and> s_owned s \<and> marked s"

lemma stack_of_new [simp]:
  "Project (new_stack env checkout opts w) = projectName (rx_uuid env (rw_calls w)) (Purpose opts)"
  "s_token (new_stack env checkout opts w) = rx_uuid env (Suc (rw_calls w))"
  "s_identity (new_stack env checkout opts w) = projectName (rx_uuid env (rw_calls w)) (Purpose opts)"
  "s_owned (new_stack env checkout opts w)"
  by (simp_all add: new_stack_def Let_def)

lemma try_then_Inr: "try_then m k w = (Inr b, w'') \<Longrightarrow> \<exists>a w'. m w = (Inr a, w') \<and> k a w' = (Inr b, w'')"
  by (auto simp: try_then_def split: prod.splits sum.splits)

lemma try_then_cases:
  assumes "try_then m k w = (r, w'')"
  obtains (failed) e where "m w = (Inl e, w'')" "r = Inl e"
  | (went_on) a w' where "m w = (Inr a, w')" "k a w' = (r, w'')"
  using assms by (auto simp: try_then_def split: prod.splits sum.splits)

lemma vars_marked: "run_id (s_token s) \<in> set (deployment_vars s ports)" "run_id token \<in> set (development_vars token ports)"
  by (simp_all add: run_id_def deployment_vars_def development_vars_def)

lemma expose_stack:
  assumes "expose w s ports = Inr s'"
  shows "Project s' = Project s" "s_token s' = s_token s" "s_identity s' = s_identity s" "s_owned s' = s_owned s"
    "s_env s' = s_env s"
  using assms by (auto simp: expose_def split: sum.splits)

lemma prepareDeployment_stack:
  assumes "prepareDeployment env s opts w = (Inr s', w')"
  shows "Project s' = Project s \<and> s_token s' = s_token s \<and> s_identity s' = s_identity s \<and> s_owned s' = s_owned s \<and> marked s'"
proof -
  let ?s = "s\<lparr>s_profile := ''selfhost'', s_exposeDependencies := ExposeDependencies opts\<rparr>"
  obtain ports u v where
    "(if ExposeDependencies opts then expose u (?s\<lparr>s_env := deployment_vars ?s ports, APIURL := v,
        s_caPath := path_join [Directory ?s, ''root.crt'']\<rparr>) ports
      else Inr (?s\<lparr>s_env := deployment_vars ?s ports, APIURL := v, s_caPath := path_join [Directory ?s, ''root.crt'']\<rparr>)) = Inr s'"
    using assms unfolding prepareDeployment_def Let_def
    by (fastforce dest!: try_then_Inr simp: hold_ports_def write_deployment_def Let_def split: prod.splits)
  moreover have "run_id (s_token s) \<in> set (deployment_vars ?s ports)" using vars_marked(1) [of ?s] by simp
  ultimately show ?thesis by (auto simp: marked_def expose_stack split: if_splits)
qed

lemma launch_stack:
  assumes "launch env ports s w = (Inr s', w')"
  shows "Project s' = Project s" "s_token s' = s_token s" "s_identity s' = s_identity s" "s_owned s' = s_owned s"
    "s_env s' = s_env s"
  using assms by (auto simp: launch_def launched_def Let_def dest!: try_then_Inr)

definition bring_up :: "run_env \<Rightarrow> Stack \<Rightarrow> Stack run \<Rightarrow> bool" where
  "bring_up env s m \<longleftrightarrow> (\<exists>ports. m = launch env ports s) \<or> m = try_then (startDeployment env s) (\<lambda>_ w. (Inr s, w))"

definition born :: "run_env \<Rightarrow> Stack \<Rightarrow> Stack \<Rightarrow> bool" where
  "born env s0 s \<longleftrightarrow>
     Project s = Project s0 \<and> s_token s = s_token s0 \<and> s_identity s = s_identity s0 \<and> s_owned s = s_owned s0 \<and> marked s"

lemma start_profile_cases:
  assumes "start_selfhost env opts s0 w = (r, w') \<or> start_development env s0 w = (r, w')"
  obtains (early) e where "r = Inl e" "quietly w w'"
  | (late) s m w1 where "quietly w w1" "or_abandon env s m w1 = (r, w')" "born env s0 s" "bring_up env s m"
  using assms
proof (elim disjE)
  assume "start_selfhost env opts s0 w = (r, w')"
  then show thesis unfolding start_selfhost_def
  proof (cases rule: try_then_cases)
    case (failed e)
    then show thesis using early quietness.rel_prepare by blast
  next
    case (went_on s w1)
    have "born env s0 s" using prepareDeployment_stack [OF went_on(1)] by (simp add: born_def)
    then show thesis using late went_on(2) quietness.rel_prepare [OF went_on(1)] by (simp add: bring_up_def)
  qed
next
  assume "start_development env s0 w = (r, w')"
  then show thesis unfolding start_development_def Let_def
  proof (cases rule: try_then_cases)
    case (failed e)
    then show thesis using early quietness.rel_reserve by blast
  next
    case (went_on ports w1)
    note q1 = quietness.rel_reserve [OF went_on(1)]
    let ?s = "s0\<lparr>s_env := development_vars (s_token s0) ports\<rparr>"
    have held: "quietly w1 v" if "hold_ports ports (write_file env p c) w1 = (x, v)" for p c x v
      using that by (rule quietness.rel_hold [rotated]) (rule quietness.rel_write)
    from went_on(2) show thesis unfolding development_on_def Let_def
    proof (cases rule: try_then_cases)
      case (failed e)
      then show thesis using early quietness.rel_trans [OF q1 held] by blast
    next
      case (went_on x w2)
      have "born env s0 ?s" using vars_marked(2) by (simp add: born_def marked_def)
      then show thesis
        using late went_on(2) quietness.rel_trans [OF q1 held [OF went_on(1)]] by (auto simp: bring_up_def)
    qed
  qed
qed

lemma startAttempt_cases:
  assumes "startAttempt env checkout opts w = (r, w')"
  obtains (early) e where "r = Inl e" "quietly w w'"
  | (late) s m w1 where "quietly w w1" "or_abandon env s m w1 = (r, w')" "stack_of env opts w s" "bring_up env s m"
proof (cases "path_abs env (Directory (new_stack env checkout opts w))")
  case (Inl e)
  then show thesis using assms early quietness.rel_refl by (auto simp: startAttempt_def)
next
  case (Inr dir)
  let ?s = "(new_stack env checkout opts w)\<lparr>Directory := dir\<rparr>"
  have q0: "quietly w (note_that [] (note_that [] w))" by (simp add: quietly_def)
  have "try_then (mkdir_all env dir) (\<lambda>_. if Profile opts = ''selfhost'' then start_selfhost env opts ?s
      else start_development env ?s) (note_that [] (note_that [] w)) = (r, w')"
    using assms Inr by (simp add: startAttempt_def Let_def)
  then show thesis
  proof (cases rule: try_then_cases)
    case (failed e)
    then show thesis using early quietness.rel_trans [OF q0 quietness.rel_mkdir] by blast
  next
    case (went_on x w1)
    note q1 = quietness.rel_trans [OF q0 quietness.rel_mkdir [OF went_on(1)]]
    from went_on(2) have "start_selfhost env opts ?s w1 = (r, w') \<or> start_development env ?s w1 = (r, w')"
      by (simp split: if_splits)
    then show thesis
    proof (cases rule: start_profile_cases)
      case (early e)
      then show thesis using that(1) quietness.rel_trans [OF q1] by blast
    next
      case (late s m w2)
      have "stack_of env opts w s" using late(3) by (simp add: stack_of_def born_def)
      then show thesis using that(2) late quietness.rel_trans [OF q1 late(1)] by blast
    qed
  qed
qed

lemma bring_up_stack:
  assumes "bring_up env s m" "m w = (Inr s', w')"
  shows "Project s' = Project s \<and> s_token s' = s_token s \<and> s_identity s' = s_identity s \<and> s_owned s' = s_owned s \<and>
    s_env s' = s_env s"
  using assms unfolding bring_up_def by (auto dest!: try_then_Inr dest: launch_stack)

context launching
begin

lemma rel_bring_up: "mine s \<Longrightarrow> bring_up env s m \<Longrightarrow> m w = (r, w') \<Longrightarrow> R w w'"
  unfolding bring_up_def by (auto elim!: rel_try [rotated 2] intro: rel_launch rel_startDeployment rel_refl)

end

lemma Destroy_running:
  assumes "Destroy env s w = (Inr (), w')"
  shows "running (rw_trace w') {} = running (rw_trace w) {} - {Project s}"
proof -
  have plain: "plain_args [''down'', ''-v'', ''--remove-orphans'']" by simp
  from assms show ?thesis unfolding Destroy_def using plain
  proof (cases rule: guarded_trace)
    case (ran au c out err)
    then show ?thesis by (simp add: running_quiet note_run_def)
  qed simp
qed

lemma abandon_result:
  assumes "abandon env s err w = (r, w')"
  shows "\<exists>e. r = Inl e \<and> (is_cleanup e \<or> running (rw_trace w') {} = running (rw_trace w) {} - {Project s})"
proof -
  obtain x v where ev: "CollectEvidence env s (Directory s) w = (x, v)" by (metis surj_pair)
  obtain y v' where dest: "Destroy env s v = (y, v')" by (metis surj_pair)
  have same: "running (rw_trace v) {} = running (rw_trace w) {}"
    using quietness.rel_evidence [OF ev] running_quiet by (auto simp: quietly_def)
  show ?thesis
  proof (cases y)
    case (Inl e)
    then show ?thesis using assms ev dest
      by (auto simp: abandon_def Let_def join_errs_def List.map_filter_def error_of_def split: option.splits sum.splits)
  next
    case (Inr u)
    then show ?thesis using assms ev dest Destroy_running [of env s v v'] same by (auto simp: abandon_def)
  qed
qed

lemma startAttempt_leaves:
  assumes "startAttempt env checkout opts w = (r, w')"
  shows "case r of Inr s \<Rightarrow> running (rw_trace w') {} \<subseteq> insert (Project s) (running (rw_trace w) {})
    | Inl e \<Rightarrow> is_cleanup e \<or> running (rw_trace w') {} \<subseteq> running (rw_trace w) {}"
  using assms
proof (cases rule: startAttempt_cases)
  case (early e)
  then show ?thesis using running_quiet by (auto simp: quietly_def)
next
  case (late s m w1)
  have same: "running (rw_trace w1) {} = running (rw_trace w) {}"
    using late(1) running_quiet by (auto simp: quietly_def)
  obtain x v where run: "m w1 = (x, v)" by (metis surj_pair)
  then have up: "leaves (Project s) w1 v" by (rule tidy.rel_bring_up [OF refl late(4)])
  show ?thesis
  proof (cases x)
    case (Inl e)
    then have "abandon env s e v = (r, w')" using late(2) run by (simp add: or_abandon_def)
    from abandon_result [OF this] show ?thesis using up same by (auto simp: leaves_def)
  next
    case (Inr s')
    then show ?thesis using late(2) run up same bring_up_stack [OF late(4)] by (auto simp: or_abandon_def leaves_def)
  qed
qed

lemma start_loop_leaves:
  assumes "start_loop env checkout opts n last_err w = (r, w')"
  shows "case r of Inr s \<Rightarrow> running (rw_trace w') {} \<subseteq> insert (Project s) (running (rw_trace w) {})
    | Inl e \<Rightarrow> is_cleanup e \<or> running (rw_trace w') {} \<subseteq> running (rw_trace w) {}"
  using assms
proof (induction env checkout opts n last_err w rule: start_loop.induct)
  case (2 env checkout opts n last_err w)
  obtain x v where run: "startAttempt env checkout opts w = (x, v)" by (metis surj_pair)
  note attempt = startAttempt_leaves [OF run]
  show ?case
  proof (cases x)
    case (Inr s)
    then show ?thesis using attempt "2.prems" run by auto
  next
    case (Inl e)
    show ?thesis
    proof (cases "\<not> Contains (err_text e) ''address already in use'' \<or> is_cleanup e")
      case True
      then show ?thesis using attempt "2.prems" run Inl by auto
    next
      case False
      then have "start_loop env checkout opts n e v = (r, w')" using "2.prems" run Inl by simp
      from "2.IH" [OF run [symmetric] Inl False this] show ?thesis using attempt Inl False by (auto split: sum.splits)
    qed
  qed
qed auto

lemma or_abandon_Inr: "or_abandon env s m w = (Inr s', w') \<Longrightarrow> m w = (Inr s', w')"
  using abandon_result by (fastforce simp: or_abandon_def split: prod.splits sum.splits)

lemma startAttempt_stack:
  assumes "startAttempt env checkout opts w = (r, w')"
  shows "cautious w w' \<and> (\<forall>s. r = Inr s \<longrightarrow> stack_of env opts w s)"
  using assms
proof (cases rule: startAttempt_cases)
  case (early e)
  then show ?thesis using careful_quiet by (auto simp: quietly_def cautious_def)
next
  case (late s m w1)
  have "cautious w w1" using late(1) careful_quiet by (auto simp: quietly_def cautious_def)
  moreover have "marked s" using late(3) by (simp add: stack_of_def)
  then have "cautious w1 w'" using caution.rel_or_abandon caution.rel_bring_up late(2,4) by metis
  moreover have "stack_of env opts w s'" if res: "r = Inr s'" for s'
  proof -
    have "m w1 = (Inr s', w')" using late(2) res by (intro or_abandon_Inr) simp
    from bring_up_stack [OF late(4) this] show ?thesis using late(3) by (auto simp: stack_of_def marked_def)
  qed
  ultimately show ?thesis using caution.rel_trans by blast
qed

lemma start_loop_stack:
  "start_loop env checkout opts n last_err w = (r, w') \<Longrightarrow> cautious w w' \<and> (\<forall>s. r = Inr s \<longrightarrow> (\<exists>w0. stack_of env opts w0 s))"
proof (induction env checkout opts n last_err w rule: start_loop.induct)
  case (2 env checkout opts n last_err w)
  obtain x v where run: "startAttempt env checkout opts w = (x, v)" by (metis surj_pair)
  note attempt = startAttempt_stack [OF run]
  show ?case
  proof (cases "\<exists>e. x = Inl e \<and> Contains (err_text e) ''address already in use'' \<and> \<not> is_cleanup e")
    case True
    then obtain e where e: "x = Inl e" "\<not> (\<not> Contains (err_text e) ''address already in use'' \<or> is_cleanup e)" by blast
    then have "start_loop env checkout opts n e v = (r, w')" using "2.prems" run by simp
    from "2.IH" [OF run [symmetric] e this] show ?thesis using attempt caution.rel_trans by blast
  next
    case False
    then have "w' = v" "r = x" using "2.prems" run by (auto split: sum.splits if_splits)
    then show ?thesis using attempt by blast
  qed
qed (auto simp: caution.rel_refl)

lemma Start_runs:
  assumes "Start env opts w = (r, w')"
  shows "w' = w \<and> (\<exists>e. r = Inl e) \<or> (\<exists>checkout. start_loop env checkout opts 3 (Err []) w = (r, w'))"
  using assms unfolding Start_def by (auto split: if_splits sum.splits)

lemma Start_stack:
  assumes "Start env opts w = (r, w')"
  shows "cautious w w' \<and> (\<forall>s. r = Inr s \<longrightarrow> (\<exists>w0. stack_of env opts w0 s))"
  using Start_runs [OF assms] start_loop_stack caution.rel_refl by blast

definition project_char :: "char \<Rightarrow> bool" where
  "project_char c \<longleftrightarrow> between 97 122 c \<or> between 48 57 c \<or> c = CHR ''-''"

lemma slug_chars: "list_all project_char (slug s)"
proof (induction s rule: length_induct)
  case (1 s)
  have known: "list_all project_char (smalls @ ''0123456789-'')"
    by (simp add: smalls_def project_char_def between_def byte_def)
  show ?case
  proof (cases s)
    case (Cons c cs)
    have rest: "list_all project_char (slug cs)" "list_all project_char (slug (drop 2 cs))" "list_all project_char (slug (drop 1 cs))"
      using 1 Cons by simp_all
    have letter: "\<forall>l. map_of (zip capitals smalls) c = Some l \<longrightarrow> project_char l"
      using known by (auto simp: list_all_iff dest!: map_of_SomeD set_zip_rightD)
    have plain: "c \<in> set smalls \<or> c \<in> set ''0123456789-'' \<longrightarrow> project_char c"
      using known unfolding list_all_iff set_append by blast
    have "project_char CHR ''k''" "project_char CHR ''i''" by (simp_all add: project_char_def between_def byte_def)
    then show ?thesis
      using rest letter plain unfolding Cons slug.simps
      by (simp only: list.pred_inject simp_thms split: option.split if_split) blast
  qed simp
qed

lemma projectName_shape:
  assumes "list_all uuid_char uuid"
  shows "list_all project_char (projectName uuid purpose)" "length (projectName uuid purpose) \<le> 39"
    "HasPrefix (projectName uuid purpose) ''ingestkit-''"
proof -
  have "list_all project_char (take n (slug purpose))" for n
    using slug_chars by (auto simp: list_all_iff dest: in_set_takeD)
  moreover have "list_all project_char (take n uuid)" for n
    using assms by (auto simp: list_all_iff uuid_char_def project_char_def between_def dest: in_set_takeD)
  ultimately show "list_all project_char (projectName uuid purpose)"
    by (simp add: projectName_def project_char_def between_def byte_def)
qed (simp_all add: projectName_def HasPrefix_def)

end
