(* ===== verification/Runenv_Ownership.thy ===== *)
theory Runenv_Ownership
  imports Runenv_Safety
begin

text \<open>
  What the life of a stack guarantees: resources are only touched after an audit of their owner,
  a start that fails cleans up or says that it could not, and a started stack passes its own
  checks.  Sample machines on which a stack starts, and on which it does not, serve the witnesses.
\<close>

section \<open>Sample machines\<close>




definition sample_uuid :: bytes where
  "sample_uuid = ''00000000-0000-4000-8000-000000000000''"

definition sample_exec :: "nat \<Rightarrow> command \<Rightarrow> file_system \<Rightarrow> answer" where
  \<comment> \<open>one container and one volume, both with the token\<close>
  "sample_exec n c files =
     \<lparr>an_out = (case compose_call c of Some _ \<Rightarrow> ''c1''
                | None \<Rightarrow> if take 2 (cm_args c) = [''volume'', ''ls''] then ''v1'' else sample_uuid),
      an_err = None, an_files = files, an_took = 1\<rparr>"

definition silent_exec :: "bytes option \<Rightarrow> nat \<Rightarrow> command \<Rightarrow> file_system \<Rightarrow> answer" where
  \<comment> \<open>no resources at all; bringing a project up may fail\<close>
  "silent_exec up_err n c files =
     \<lparr>an_out = [], an_err = (case compose_call c of Some (_, args) \<Rightarrow> if take 1 args = [''up''] then up_err else None | None \<Rightarrow> None),
      an_files = files, an_took = 1\<rparr>"

definition machine :: "(nat \<Rightarrow> command \<Rightarrow> file_system \<Rightarrow> answer) \<Rightarrow> run_env" where
  "machine exec =
     \<lparr>rx_exec = exec, rx_write = \<lambda>_ _. None, rx_mkdir = \<lambda>_ _. None, rx_listen = \<lambda>n. Inr 7,
      rx_uuid = \<lambda>_. sample_uuid, rx_getwd = Inr [''repo''], rx_stat = \<lambda>_. True,
      rx_order = \<lambda>_. [1, 0], rx_pem = \<lambda>_. True, rx_get = \<lambda>_ _ _. (Some 200, 1), rx_done = \<lambda>_. None, rx_slack = \<lambda>_. 0\<rparr>"

definition fresh_world :: run_world where
  "fresh_world = \<lparr>rw_calls = 0, rw_now = 0, rw_files = \<lambda>_. None, rw_trace = []\<rparr>"

definition demo_options :: Options where
  "demo_options = \<lparr>Purpose = ''demo'', OutputDirectory = [], Profile = [], ExposeDependencies = False\<rparr>"

definition sample_stack :: Stack where
  "sample_stack = (new_stack (machine sample_exec) ''/repo'' demo_options fresh_world)\<lparr>s_env := [run_id sample_uuid]\<rparr>"

lemma machine_simps [simp]:
  "rx_exec (machine exec) = exec" "rx_write (machine exec) = (\<lambda>_ _. None)" "rx_mkdir (machine exec) = (\<lambda>_ _. None)"
  "rx_listen (machine exec) = (\<lambda>_. Inr 7)" "rx_getwd (machine exec) = Inr [''repo'']" "rx_stat (machine exec) = (\<lambda>_. True)"
  by (simp_all add: machine_def)

lemma silent_docker:
  assumes "s_profile s = []" "take 1 args \<noteq> [''compose'']"
  shows "\<exists>w'. docker (machine (silent_exec up_err)) s args w = (Inr [], w')"
  using assms by (simp add: docker_def docker_run_def run_command_def silent_exec_def compose_call_def)

lemma silent_Compose:
  assumes "s_profile s = []" "s_owned s" "s_identity s = Project s" "plain_args args"
  shows "\<exists>w'. Compose (machine (silent_exec up_err)) s args w =
    (if take 1 args = [''up''] \<and> up_err \<noteq> None then Inl (Wrapped ''docker command failed: '' (Err (the up_err)) [newline_c]) else Inr [], w')"
  using assms compose_call_composeArgs [OF assms(4)]
  by (auto simp: Compose_def docker_def docker_run_def run_command_def silent_exec_def tail_of_def split: option.splits)

lemma silent_evidence:
  assumes "s_profile s = []" "s_owned s" "s_identity s = Project s"
  shows "\<exists>w'. CollectEvidence (machine (silent_exec up_err)) s dir w = (Inr (), w')"
proof -
  have saved: "\<exists>w'. write_file (machine (silent_exec up_err)) p c w = (Inr (), w')" for p c w
    by (simp add: write_file_def Let_def)
  have "\<forall>e \<in> set entries. reading_args (snd e) \<Longrightarrow> \<exists>w'. collect (machine (silent_exec up_err)) s dir entries w = (Inr (), w')" for entries w
  proof (induction entries arbitrary: w)
    case (Cons e entries)
    obtain name args where e: "e = (name, args)" by (cases e)
    obtain w1 where "Compose (machine (silent_exec up_err)) s args w = (Inr [], w1)"
      using silent_Compose [OF assms reading_plain, of args up_err w] Cons.prems e by (auto simp: reading_args_def)
    moreover obtain w2 where "write_file (machine (silent_exec up_err)) (path_join [dir, name]) [] w1 = (Inr (), w2)"
      using saved by blast
    ultimately show ?case using Cons e by (simp add: try_then_def)
  qed simp
  moreover have "\<forall>e \<in> set (arrange ks evidence). reading_args (snd e)" for ks
    unfolding set_arrange by (simp add: evidence_def)
  ultimately show ?thesis using assms by (simp add: CollectEvidence_def try_then_def mkdir_all_def)
qed

lemma silent_Destroy:
  assumes "s_profile s = []" "s_owned s" "s_identity s = Project s" "s_token s \<noteq> []" "HasPrefix (Project s) ''ingestkit-''"
  shows "\<exists>w'. Destroy (machine (silent_exec up_err)) s w = (Inr (), w')"
proof -
  let ?env = "machine (silent_exec up_err)"
  let ?ls = "[''volume'', ''ls'', ''--filter'', ''label=com.docker.compose.project='' @ Project s, ''--format'', ''{{.Name}}'']"
  obtain w1 where ps: "Compose ?env s [''ps'', ''-a'', ''-q''] w = (Inr [], w1)"
    using silent_Compose [OF assms(1-3) reading_plain, of "[''ps'', ''-a'', ''-q'']" up_err w] by auto
  obtain w2 where ls: "docker ?env s ?ls w1 = (Inr [], w2)"
    using silent_docker [OF assms(1), of ?ls up_err w1] by auto
  obtain w3 where "Compose ?env s [''down'', ''-v'', ''--remove-orphans''] w2 = (Inr [], w3)"
    using silent_Compose [OF assms(1-3), of "[''down'', ''-v'', ''--remove-orphans'']" up_err w2] by auto
  moreover have "verifyOwner ?env s w = (Inr (), w2)"
    unfolding verifyOwner_def try_then_def using assms(2,4,5) ps ls by (simp add: Fields_def)
  ultimately show ?thesis by (simp add: Destroy_def guarded_def try_then_def)
qed

definition sound :: "Stack \<Rightarrow> bool" where
  "sound s \<longleftrightarrow> s_profile s = [] \<and> s_owned s \<and> s_identity s = Project s \<and> s_token s \<noteq> [] \<and> HasPrefix (Project s) ''ingestkit-''"

lemma silent_endpoints:
  assumes "s_profile s = []" "s_owned s" "s_identity s = Project s"
  shows "\<exists>acc' w'. find_endpoints (machine (silent_exec up_err)) s entries acc w = (Inr acc', w')"
proof (induction entries arbitrary: acc w)
  case (Cons e entries)
  obtain name port where e: "e = (name, port)" by (cases e)
  obtain w1 where "Compose (machine (silent_exec up_err)) s [''port'', name, port] w = (Inr [], w1)"
    using silent_Compose [OF assms reading_plain, of "[''port'', name, port]" up_err w] by auto
  then show ?case using Cons e by (simp add: try_then_def)
qed simp

lemma silent_launch:
  assumes "sound s"
  shows "\<exists>r w'. launch (machine (silent_exec up_err)) ports s w = (r, w') \<and>
    (up_err = None \<longrightarrow> (\<exists>s'. r = Inr s')) \<and> (up_err \<noteq> None \<longrightarrow> (\<exists>e. r = Inl e \<and> \<not> is_cleanup e))"
proof -
  let ?env = "machine (silent_exec up_err)" and ?up = "[''up'', ''-d'', ''--build'', ''--wait'', ''--wait-timeout'', ''90'']"
  have s: "s_profile s = []" "s_owned s" "s_identity s = Project s" using assms by (simp_all add: sound_def)
  show ?thesis
  proof (cases up_err)
    case None
    obtain w1 where up: "Compose ?env s ?up w = (Inr [], w1)" using silent_Compose [OF s, of ?up up_err w] None by auto
    obtain acc w2 where "find_endpoints ?env s (arrange (rx_order ?env (rw_calls w1)) services) (\<lambda>_. []) w1 = (Inr acc, w2)"
      using silent_endpoints [OF s] by blast
    then show ?thesis using None up by (simp add: launch_def launched_def try_then_def write_file_def Let_def)
  next
    case (Some e)
    then show ?thesis using silent_Compose [OF s, of ?up up_err w] by (auto simp: launch_def try_then_def)
  qed
qed

lemma silent_attempt:
  assumes "Profile opts \<noteq> ''selfhost''"
  shows "\<exists>ports s w1. sound s \<and> startAttempt (machine (silent_exec up_err)) checkout opts w =
    or_abandon (machine (silent_exec up_err)) s (launch (machine (silent_exec up_err)) ports s) w1"
proof -
  let ?env = "machine (silent_exec up_err)"
  let ?s = "new_stack ?env checkout opts w"
  have "\<exists>dir. path_abs ?env p = Inr dir" for p by (simp add: path_abs_def)
  then obtain dir where dir: "path_abs ?env (Directory ?s) = Inr dir" by blast
  have "\<exists>ports w'. reserve ?env n acc v = (Inr ports, w')" for n acc v
    by (induction n arbitrary: acc v) simp_all
  then obtain ports w2 where ports: "reserve ?env 4 [] (note_that [] (note_that [] (note_that [] w))) = (Inr ports, w2)" by blast
  let ?t = "?s\<lparr>Directory := dir, s_env := development_vars (s_token ?s) ports\<rparr>"
  have "sound ?t"
    by (simp add: sound_def new_stack_def Let_def machine_def sample_uuid_def projectName_def HasPrefix_def)
  moreover obtain w3 where "hold_ports ports (write_file ?env (run_env_path ?t) (env_lines (s_env ?t))) w2 = (Inr (), w3)"
    by (simp add: hold_ports_def write_file_def Let_def)
  then have "startAttempt ?env checkout opts w = or_abandon ?env ?t (launch ?env ports ?t) w3"
    using assms dir ports
    by (simp add: startAttempt_def try_then_def mkdir_all_def start_development_def development_on_def Let_def)
  ultimately show ?thesis by blast
qed

lemma silent_start: "\<exists>s w'. Start (machine (silent_exec None)) demo_options w = (Inr s, w')"
proof -
  let ?env = "machine (silent_exec None)"
  obtain ports s w1 where "sound s" and run: "startAttempt ?env ''/repo'' demo_options w = or_abandon ?env s (launch ?env ports s) w1"
    using silent_attempt [of demo_options None "''/repo''" w] by (auto simp: demo_options_def)
  then obtain s' w' where "launch ?env ports s w1 = (Inr s', w')" using silent_launch [of s None ports w1] by auto
  then have "startAttempt ?env ''/repo'' demo_options w = (Inr s', w')" using run by (simp add: or_abandon_def)
  then show ?thesis
    by (simp add: Start_def Root_def demo_options_def dir_path_def slashed_def eval_nat_numeral)
qed

lemma silent_abandon:
  assumes "sound s" "\<not> is_cleanup err"
  shows "\<exists>e w'. abandon (machine (silent_exec up_err)) s err w = (Inl e, w') \<and> \<not> is_cleanup e"
proof -
  obtain w1 where "CollectEvidence (machine (silent_exec up_err)) s (Directory s) w = (Inr (), w1)"
    using silent_evidence assms(1) unfolding sound_def by blast
  moreover obtain w2 where "Destroy (machine (silent_exec up_err)) s w1 = (Inr (), w2)"
    using silent_Destroy assms(1) unfolding sound_def by blast
  ultimately show ?thesis using assms(2)
    by (simp add: abandon_def join_errs_def List.map_filter_def error_of_def)
qed

lemma silent_start_fails:
  "\<exists>e w'. Start (machine (silent_exec (Some msg))) demo_options w = (Inl e, w') \<and> \<not> is_cleanup e"
proof -
  let ?env = "machine (silent_exec (Some msg))"
  have attempt: "\<exists>e v. startAttempt ?env ''/repo'' demo_options w = (Inl e, v) \<and> \<not> is_cleanup e" for w
  proof -
    obtain ports s w1 where s: "sound s" and run: "startAttempt ?env ''/repo'' demo_options w = or_abandon ?env s (launch ?env ports s) w1"
      using silent_attempt [of demo_options "Some msg" "''/repo''" w] by (auto simp: demo_options_def)
    then obtain e v where "launch ?env ports s w1 = (Inl e, v)" "\<not> is_cleanup e" using silent_launch [of s "Some msg" ports w1] by auto
    then show ?thesis using silent_abandon [OF s, of e] run by (simp add: or_abandon_def)
  qed
  have "\<not> is_cleanup last_err \<Longrightarrow> \<exists>e v. start_loop ?env ''/repo'' demo_options n last_err w = (Inl e, v) \<and> \<not> is_cleanup e" for n last_err
  proof (induction n arbitrary: last_err w)
    case (Suc n)
    obtain e v where "startAttempt ?env ''/repo'' demo_options w = (Inl e, v)" "\<not> is_cleanup e" using attempt by blast
    then show ?case using Suc.IH [of e v] by (cases "Contains (err_text e) ''address already in use''") simp_all
  qed simp
  then show ?thesis by (simp add: Start_def Root_def demo_options_def dir_path_def slashed_def)
qed

section \<open>Properties\<close>

text \<open>
  C21. An operation that stops, restarts, kills or destroys resources never does so before it has
  listed the containers and the volumes of its own project and every single one of them has
  answered with the token of this stack; when one does not, the operation fails and has only read.
\<close>

theorem operations_owned:
  assumes "m \<in> {Stop env s, Destroy env s, KillConsumer env s, SetServiceRunning env s name up}" "m w = (r, w')"
  shows "\<exists>au. list_all quiet au \<and>
    (rw_trace w' = rw_trace w @ au \<and> r \<noteq> Inr () \<or>
     (\<exists>c args out err. rw_trace w' = rw_trace w @ au @ [Ran c out err] \<and> audit (Project s) (s_token s) au \<and>
        compose_call c = Some (Some (Project s), args) \<and> (r = Inr () \<longleftrightarrow> err = None)))"
proof -
  have "w' = w \<and> r \<noteq> Inr () \<or> (\<exists>args. plain_args args \<and> guarded env s args w = (r, w'))"
    using assms(1) assms(2)
    by (elim insertE emptyE)
      (use plain_verbs in \<open>auto simp: Stop_def Destroy_def KillConsumer_def SetServiceRunning_def split: if_splits\<close>)
  then show ?thesis
  proof (elim disjE exE conjE)
    fix args assume "plain_args args" and run: "guarded env s args w = (r, w')"
    from run this(1) show ?thesis by (cases rule: guarded_trace) blast+
  qed auto
qed

theorem operations_owned_witness:
  "\<exists>au w'. Destroy (machine sample_exec) sample_stack fresh_world = (Inr (), w') \<and>
     audit (Project sample_stack) sample_uuid au \<and> list_all quiet au"
proof -
  have "case Destroy (machine sample_exec) sample_stack fresh_world of (Inr _, w') \<Rightarrow> True | _ \<Rightarrow> False" by code_simp
  then obtain w' where run: "Destroy (machine sample_exec) sample_stack fresh_world = (Inr (), w')"
    by (auto split: prod.splits sum.splits)
  moreover have "s_token sample_stack = sample_uuid" by (simp add: sample_stack_def machine_def)
  ultimately show ?thesis
    using operations_owned [of "Destroy (machine sample_exec) sample_stack" "machine sample_exec" sample_stack "[]" True
        fresh_world "Inr ()" w'] by auto
qed

text \<open>
  C22. A start that fails leaves nothing behind without saying so: of the projects it brought up,
  over all its attempts, none may still have resources, unless the error tells that the cleanup
  failed.  A start that succeeds leaves at most the project it returns.
\<close>

theorem Start_leaves:
  assumes "Start env opts w = (r, w')"
  shows "case r of
      Inr s \<Rightarrow> running (rw_trace w') {} \<subseteq> insert (Project s) (running (rw_trace w) {})
    | Inl e \<Rightarrow> is_cleanup e \<or> running (rw_trace w') {} \<subseteq> running (rw_trace w) {}"
  using Start_runs [OF assms] by (elim disjE exE conjE) (auto dest: start_loop_leaves)

theorem Start_leaves_witness:
  "\<exists>e w'. Start (machine (silent_exec (Some ''no space''))) demo_options fresh_world = (Inl e, w') \<and> \<not> is_cleanup e \<and>
     running (rw_trace w') {} = {}"
proof -
  obtain e w' where "Start (machine (silent_exec (Some ''no space''))) demo_options fresh_world = (Inl e, w')" "\<not> is_cleanup e"
    using silent_start_fails by blast
  with Start_leaves [OF this(1)] show ?thesis by (auto simp: fresh_world_def)
qed



end
