(* ===== verification/Runenv_Demo.thy ===== *)
theory Runenv_Demo
  imports Runenv_Ownership "HOL-Library.AList"
begin

text \<open>
  \<^verbatim>\<open>internal/runenv/demo.go\<close> and \<^verbatim>\<open>cmd/demo\<close>: a stack is started, a batch of events sent, the
  stored events reconciled with the accepted ones, and the stack stopped or destroyed whatever
  happened, with a report left behind.
\<close>

section \<open>Data\<close>

record DemoOptions =
  o_recovery :: bool
  o_cleanup :: bool
  o_out :: bytes
  o_stages :: bool  \<comment> \<open>whether there is an \<^verbatim>\<open>OnStage\<close>\<close>

record DemoReport =
  Accepted :: "uuid list option"  \<comment> \<open>\<open>None\<close> for nil, as in the next two\<close>
  Stored :: "uuid list option"
  Funnel :: "(bytes \<times> int) list option"
  Recovery :: bool
  Completed :: bool
  DemoError :: bytes

text \<open>The rows of a query: each is scanned to a value or an error, and an error may follow them.\<close>

type_synonym 'a rows = "bytes + ((bytes + 'a) list \<times> bytes option)"

record demo_env =
  dx_machine :: run_env
  dx_post :: "nat \<Rightarrow> bytes \<Rightarrow> bytes \<Rightarrow> bytes \<Rightarrow> (bytes + int \<times> bytes) \<times> nat"
    \<comment> \<open>address, key and body; an error, or the status and the body of the answer\<close>
  dx_pool_err :: "bytes option"
  dx_stored :: "nat \<Rightarrow> uuid rows \<times> nat"
  dx_funnel :: "(bytes \<times> int) rows"

section \<open>Reconciliation\<close>

fun see_ids :: "uuid set \<Rightarrow> uuid set \<Rightarrow> uuid list \<Rightarrow> uuid set option" where
  "see_ids want seen [] = Some seen"
| "see_ids want seen (x # xs) = (if x \<in> seen \<or> x \<notin> want then None else see_ids want (insert x seen) xs)"

definition reconcileIDs :: "uuid list \<Rightarrow> uuid list \<Rightarrow> run_err option" where
  "reconcileIDs expected actual =
     (case see_ids (set expected) {} actual of
        None \<Rightarrow> Some (Err ''unexpected or duplicate stored ID'')
      | Some seen \<Rightarrow>
          if card seen \<noteq> card (set expected) then Some (Err ''accepted IDs are missing from storage'') else None)"

section \<open>Sending\<close>

fun html_escape :: "bytes \<Rightarrow> bytes" where
  \<comment> \<open>what \<^verbatim>\<open>json.Marshal\<close> makes of the text of a \<^verbatim>\<open>RawMessage\<close> after compacting it\<close>
  "html_escape [] = []"
| "html_escape (c # cs) =
     (if c \<in> set ''<>&'' then [backslash_c] @ ''u00'' @ (if c = CHR ''<'' then ''3c'' else if c = CHR ''>'' then ''3e'' else ''26'') @ html_escape cs
      else if take 3 (c # cs) = [CHR 0xE2, CHR 0x80, CHR 0xA8] then [backslash_c] @ ''u2028'' @ html_escape (drop 2 cs)
      else if take 3 (c # cs) = [CHR 0xE2, CHR 0x80, CHR 0xA9] then [backslash_c] @ ''u2029'' @ html_escape (drop 2 cs)
      else c # html_escape cs)"

definition marshal_input :: "uuid_pkg \<Rightarrow> Input \<Rightarrow> bytes option" where
  "marshal_input u i =
     (case format_rfc3339 (OccurredAt i) of
        None \<Rightarrow> None
      | Some t \<Rightarrow>
          if \<not> json_valid (Payload i) then None
          else Some (''{'' @ json_field ''event_id'' (quote True (uuid_string u (EventID i))) @ '',''
               @ json_field ''event_type'' (quote True (EventType i)) @ '',''
               @ json_field ''occurred_at'' (quoted t) @ '',''
               @ json_field ''payload'' (html_escape (compact_lex (lex (Payload i)))) @ ''}''))"

fun marshal_inputs :: "uuid_pkg \<Rightarrow> Input list \<Rightarrow> bytes list option" where
  "marshal_inputs u [] = Some []"
| "marshal_inputs u (i # is) =
     (case marshal_input u i of None \<Rightarrow> None | Some b \<Rightarrow> map_option (Cons b) (marshal_inputs u is))"

definition marshal_events :: "uuid_pkg \<Rightarrow> Input list \<Rightarrow> bytes option" where
  "marshal_events u inputs =
     map_option (\<lambda>bs. ''{'' @ json_field ''events'' (''['' @ join_with '','' bs @ '']'') @ ''}'') (marshal_inputs u inputs)"

fun ack_ids :: "uuid_pkg \<Rightarrow> lexeme list list \<Rightarrow> uuid list \<Rightarrow> uuid list option" where
  \<comment> \<open>the elements of the array; null leaves what the slice had there\<close>
  "ack_ids u [] old = Some []"
| "ack_ids u (v # vs) old =
     (case json_uuid u v (case old of [] \<Rightarrow> uuid_Nil | x # _ \<Rightarrow> x) of
        None \<Rightarrow> None | Some x \<Rightarrow> map_option (Cons x) (ack_ids u vs (drop 1 old)))"

fun ack_members :: "uuid_pkg \<Rightarrow> (bytes \<times> lexeme list) list \<Rightarrow> uuid list \<Rightarrow> uuid list option" where
  \<comment> \<open>members of other names are ignored\<close>
  "ack_members u [] ids = Some ids"
| "ack_members u ((key, v) # ms) ids =
     (if field_of [''event_ids''] (unquote key) = None then ack_members u ms ids
      else if map lx_token v = [TNull] then ack_members u ms []
      else case elements v of
             None \<Rightarrow> None
           | Some vs \<Rightarrow> (case ack_ids u vs ids of None \<Rightarrow> None | Some ids' \<Rightarrow> ack_members u ms ids'))"

definition decode_ack :: "uuid_pkg \<Rightarrow> bytes \<Rightarrow> uuid list option" where
  \<comment> \<open>the first JSON value among the first 65536 bytes\<close>
  "decode_ack u body =
     (case take_value (lex (if int (length body) > 65536 then take (nat 65536) body else body)) of
        None \<Rightarrow> None
      | Some (v, _) \<Rightarrow>
          if map lx_token v = [TNull] then Some []
          else case members v of None \<Rightarrow> None | Some ms \<Rightarrow> ack_members u ms [])"

definition check_ack :: "Input list \<Rightarrow> uuid list \<Rightarrow> run_err + uuid list" where
  "check_ack inputs ids =
     (if length ids \<noteq> length inputs then Inl (Err ''acknowledgement ID count mismatch'')
      else if ids \<noteq> map EventID inputs then Inl (Err ''acknowledgement ID mismatch'')
      else Inr ids)"

definition SendInputs :: "uuid_pkg \<Rightarrow> demo_env \<Rightarrow> bytes \<Rightarrow> bytes \<Rightarrow> Input list \<Rightarrow> uuid list run" where
  "SendInputs u env url key inputs w =
     (case marshal_events u inputs of
        None \<Rightarrow> (Inl (Err ''json: error calling MarshalJSON''), w)
      | Some raw \<Rightarrow>
          if url_parse (url @ ''/v1/events/batch'') = None then (Inl (Err ''parse''), w)
          else (case dx_post env (rw_calls w) (url @ ''/v1/events/batch'') key raw of
                  (answer, took) \<Rightarrow>
                    let done_with = (\<lambda>status. (note_that [Posted (url @ ''/v1/events/batch'') key raw status] w)
                          \<lparr>rw_now := rw_now w + int took\<rparr>) in
                    (case answer of
                       Inl e \<Rightarrow> (Inl (Err e), done_with None)
                     | Inr (status, body) \<Rightarrow>
                         (if status \<noteq> 202
                          then Inl (Err (''HTTP '' @ Itoa status @ '': retry uncertain delivery with the same event IDs''))
                          else case decode_ack u body of
                                 None \<Rightarrow> Inl (Err ''invalid acknowledgement'')
                               | Some ids \<Rightarrow> check_ack inputs ids,
                          done_with (Some status)))))"

section \<open>The demonstration\<close>

record demo_state =
  d_report :: DemoReport
  d_stopped :: bool  \<comment> \<open>\<^verbatim>\<open>dbStopped\<close>\<close>
  d_pool :: bool

type_synonym demo_end = "run_err option \<times> demo_state \<times> run_world"

definition say :: "bytes \<Rightarrow> run_world \<Rightarrow> run_world" where
  "say line w = note_that [Printed line] w"

definition stage :: "DemoOptions \<Rightarrow> bytes \<Rightarrow> run_world \<Rightarrow> run_world" where
  "stage opts name w = (if o_stages opts then note_that [Staged name] w else w)"

fun scan_rows :: "(bytes + 'a) list \<Rightarrow> bytes option \<Rightarrow> 'a list \<times> bytes option" where
  \<comment> \<open>the values up to the first error, and the error\<close>
  "scan_rows [] err = ([], err)"
| "scan_rows (Inl e # rs) err = ([], Some e)"
| "scan_rows (Inr x # rs) err = (case scan_rows rs err of (xs, e) \<Rightarrow> (x # xs, e))"

definition query :: "'a rows \<Rightarrow> 'a list \<times> bytes option" where
  "query r = (case r of Inl e \<Rightarrow> ([], Some e) | Inr (rs, err) \<Rightarrow> scan_rows rs err)"

function await_stored :: "demo_env \<Rightarrow> uuid list \<Rightarrow> int \<Rightarrow> uuid list run" where
  "await_stored env ids due w =
     (case dx_stored env (rw_calls w) of
        (rows, took) \<Rightarrow>
          let w' = (note_that [] w)\<lparr>rw_now := rw_now w + int took\<rparr> in
          (case query rows of
             (actual, err) \<Rightarrow>
               if err = None \<and> reconcileIDs ids actual = None then (Inr actual, w')
               else case rx_done (dx_machine env) (rw_calls w') of
                      Some e \<Rightarrow> (Inl (Wrapped ''reconciliation failed: '' (Err e) []), w')
                    | None \<Rightarrow>
                        if rw_now w' + 100 * millisecond > due
                        then (Inl (Wrapped ''reconciliation failed: '' (Err ''context deadline exceeded'') []), w')
                        else await_stored env ids due (pause (dx_machine env) (100 * millisecond) w')))"
  by pat_completeness auto
termination
  by (relation "measure (\<lambda>(env, ids, due, w). nat (due - rw_now w))")
    (auto simp: pause_def millisecond_def)

declare await_stored.simps [simp del]

definition demo_funnel :: "demo_env \<Rightarrow> uuid list \<Rightarrow> demo_state \<Rightarrow> run_world \<Rightarrow> demo_end" where
  "demo_funnel env ids st w =
     (case dx_funnel env of
        Inl e \<Rightarrow> (Some (Err e), st, note_that [] w)
      | Inr (rs, err) \<Rightarrow>
          (case scan_rows rs err of
             (counts, failed) \<Rightarrow>
               let st' = st\<lparr>d_report := (d_report st)\<lparr>Funnel := Some (fold (\<lambda>(k, n). AList.update k n) counts [])\<rparr>\<rparr>;
                   w' = note_that (map (\<lambda>(k, n). Printed (''Stored '' @ k @ '': '' @ Itoa n)) counts) w in
               (case failed of
                  Some e \<Rightarrow> (Some (Err e), st', w')
                | None \<Rightarrow>
                    (None, st', say (''Reconciled '' @ Itoa (int (length ids)) @ '' accepted IDs: every ID stored once.'') w'))))"

definition demo_reconcile :: "demo_env \<Rightarrow> uuid list \<Rightarrow> demo_state \<Rightarrow> run_world \<Rightarrow> demo_end" where
  "demo_reconcile env ids st w =
     (case await_stored env ids (rw_now w + 30 * second) w of
        (Inl e, w') \<Rightarrow> (Some e, st, w')
      | (Inr actual, w') \<Rightarrow> demo_funnel env ids (st\<lparr>d_report := (d_report st)\<lparr>Stored := Some actual\<rparr>\<rparr>) w')"

definition demo_recover :: "demo_env \<Rightarrow> Stack \<Rightarrow> uuid list \<Rightarrow> demo_state \<Rightarrow> run_world \<Rightarrow> demo_end" where
  \<comment> \<open>the lag shown, the database started again\<close>
  "demo_recover env s ids st w =
     (case Compose (dx_machine env) s [''exec'', ''-T'', ''redpanda'', ''rpk'', ''group'', ''describe'', ''ingestkit-consumer'',
          ''-X'', ''brokers=redpanda:9092''] w of
        (lag, w1) \<Rightarrow>
          (case SetServiceRunning (dx_machine env) s ''postgres'' True
              (say (case lag of Inr out \<Rightarrow> out | Inl _ \<Rightarrow> ''Consumer group is still assigning; accepted IDs remain buffered.'') w1) of
             (Inl e, w2) \<Rightarrow> (Some e, st, w2)
           | (Inr _, w2) \<Rightarrow> demo_reconcile env ids (st\<lparr>d_stopped := False\<rparr>) w2))"

definition demo_send ::
  "uuid_pkg \<Rightarrow> demo_env \<Rightarrow> DemoOptions \<Rightarrow> Stack \<Rightarrow> Input list \<Rightarrow> demo_state \<Rightarrow> run_world \<Rightarrow> demo_end"
where
  "demo_send u env opts s inputs st w =
     (case SendInputs u env (APIURL s) ''local-demo-key'' inputs w of
        (Inl e, w') \<Rightarrow> (Some e, st, w')
      | (Inr ids, w') \<Rightarrow>
          let st' = st\<lparr>d_report := (d_report st)\<lparr>Accepted := Some ids\<rparr>\<rparr>;
              w'' = note_that (map (\<lambda>(i, x). Printed (''Accepted '' @ EventType i @ '' '' @ uuid_string u x @ '' (broker acknowledged)''))
                      (zip inputs ids)) w' in
          if o_recovery opts then demo_recover env s ids st' w'' else demo_reconcile env ids st' w'')"

definition demo_body ::
  "uuid_pkg \<Rightarrow> demo_env \<Rightarrow> DemoOptions \<Rightarrow> Stack \<Rightarrow> demo_state \<Rightarrow> run_world \<Rightarrow> demo_end"
where
  "demo_body u env opts s st w0 =
     (let w = say (''Stack: '' @ Project s) w0 in
      case dx_pool_err env of
        Some e \<Rightarrow> (Some (Err e), st, w)
      | None \<Rightarrow>
          (let st = st\<lparr>d_pool := True\<rparr>; w = note_that [OpenedPool] w in
           case read_file (path_join [s_root s, ''examples'', ''checkout'', ''events.json'']) w of
             Inl e \<Rightarrow> (Some e, st, w)
           | Inr raw \<Rightarrow>
               (case DecodeBatch u raw of
                  Inl e \<Rightarrow> (Some (Err (error_text e)), st, w)
                | Inr inputs \<Rightarrow>
                    (let w = stage opts ''started'' w in
                     if \<not> o_recovery opts then demo_send u env opts s inputs st w
                     else case SetServiceRunning (dx_machine env) s ''postgres'' False w of
                            (Inl e, w') \<Rightarrow> (Some e, st, w')
                          | (Inr _, w') \<Rightarrow>
                              demo_send u env opts s inputs (st\<lparr>d_stopped := True\<rparr>)
                                (stage opts ''database_unavailable''
                                  (say ''database unavailable; broker acknowledgement remains independent'' w'))))))"

definition json_lines :: "bytes \<Rightarrow> bytes list \<Rightarrow> bytes \<Rightarrow> bytes" where
  "json_lines open_mark items close_mark =
     (if items = [] then open_mark @ close_mark
      else open_mark @ drop 1 (concat (map (\<lambda>x. '','' @ [newline_c] @ ''    '' @ x) items)) @ [newline_c] @ ''  '' @ close_mark)"

definition json_bool :: "bool \<Rightarrow> bytes" where
  "json_bool b = (if b then ''true'' else ''false'')"

definition demo_json :: "uuid_pkg \<Rightarrow> DemoReport \<Rightarrow> bytes" where
  "demo_json u r =
     (let ids = (\<lambda>xs. case xs of None \<Rightarrow> ''null'' | Some xs \<Rightarrow> json_lines ''['' (map (\<lambda>x. quote True (uuid_string u x)) xs) '']'') in
      indented [(''Accepted'', ids (Accepted r)), (''Stored'', ids (Stored r)),
        (''Funnel'', case Funnel r of None \<Rightarrow> ''null''
           | Some m \<Rightarrow> json_lines ''{'' (map (\<lambda>(k, n). quote True k @ '': '' @ Itoa n) (sort_key fst m)) ''}''),
        (''Recovery'', json_bool (Recovery r)), (''Completed'', json_bool (Completed r)), (''Error'', quote True (DemoError r))])"

definition also_err :: "run_err option \<Rightarrow> run_err + unit \<Rightarrow> run_err option" where
  \<comment> \<open>another error joined to the result, if there is one\<close>
  "also_err result r = (case r of Inl e \<Rightarrow> join_errs [result, Some e] | Inr _ \<Rightarrow> result)"

definition demo_stop :: "demo_env \<Rightarrow> DemoOptions \<Rightarrow> Stack \<Rightarrow> run_err option \<times> demo_state \<times> run_world \<Rightarrow> run_err option \<times> run_world" where
  \<comment> \<open>the database started again, the pool closed, evidence collected, the stack destroyed or stopped\<close>
  "demo_stop env opts s = (\<lambda>(err, st, w).
     case (if d_stopped st then SetServiceRunning (dx_machine env) s ''postgres'' True w else (Inr (), w)) of
       (r1, w1) \<Rightarrow>
         (case CollectEvidence (dx_machine env) s (Directory s) (if d_pool st then note_that [ClosedPool] w1 else w1) of
            (r2, w2) \<Rightarrow>
              (case (if o_cleanup opts then Destroy (dx_machine env) s w2 else Stop (dx_machine env) s w2) of
                 (r3, w3) \<Rightarrow> (also_err (also_err (also_err err r1) r2) r3, w3))))"

definition farewell :: "DemoOptions \<Rightarrow> Stack \<Rightarrow> run_world \<Rightarrow> run_world" where
  "farewell opts s w =
     (let w' = say (''Evidence: '' @ Directory s) w in
      if o_cleanup opts then w'
      else say (''Stopped; volumes preserved. Cleanup only this run: docker compose -p '' @ Project s @ '' -f ''
             @ path_join [s_root s, ''docker-compose.yml''] @ '' --env-file '' @ run_env_path s @ '' down -v'') w')"

definition demo_finish ::
  "uuid_pkg \<Rightarrow> demo_env \<Rightarrow> DemoOptions \<Rightarrow> Stack \<Rightarrow> demo_end \<Rightarrow> run_err option \<times> run_world"
where
  "demo_finish u env opts s fin =
     (case demo_stop env opts s fin of
        (err, w) \<Rightarrow>
          let report = (d_report (fst (snd fin)))\<lparr>Completed := (err = None),
                DemoError := (case err of None \<Rightarrow> [] | Some e \<Rightarrow> err_text e)\<rparr> in
          (case write_file (dx_machine env) (path_join [Directory s, ''demo.json'']) (demo_json u report) w of
             (r, w') \<Rightarrow> (also_err err r, farewell opts s w')))"

definition new_report :: "DemoOptions \<Rightarrow> DemoReport" where
  "new_report opts =
     \<lparr>Accepted = None, Stored = None, Funnel = None, Recovery = o_recovery opts, Completed = False, DemoError = []\<rparr>"

definition demo_stack_options :: "DemoOptions \<Rightarrow> Options" where
  "demo_stack_options opts =
     \<lparr>Purpose = (if o_recovery opts then ''recovery'' else ''demo''), OutputDirectory = o_out opts, Profile = [],
      ExposeDependencies = False\<rparr>"

definition RunDemo :: "uuid_pkg \<Rightarrow> demo_env \<Rightarrow> DemoOptions \<Rightarrow> run_world \<Rightarrow> run_err option \<times> run_world" where
  "RunDemo u env opts w =
     (case Start (dx_machine env) (demo_stack_options opts) w of
        (Inl e, w') \<Rightarrow> (Some e, w')
      | (Inr s, w') \<Rightarrow>
          demo_finish u env opts s
            (demo_body u env opts s \<lparr>d_report = new_report opts, d_stopped = False, d_pool = False\<rparr> w'))"

definition demo_main :: "uuid_pkg \<Rightarrow> demo_env \<Rightarrow> bool \<Rightarrow> bool \<Rightarrow> bytes \<Rightarrow> run_world \<Rightarrow> (bytes \<times> nat) option \<times> run_world" where
  \<comment> \<open>the flags read; what goes to the error output and the exit status, \<open>None\<close> for success\<close>
  "demo_main u env recovery wipe out w =
     (case RunDemo u env \<lparr>o_recovery = recovery, o_cleanup = wipe, o_out = out, o_stages = False\<rparr> w of
        (None, w') \<Rightarrow> (None, w') | (Some e, w') \<Rightarrow> (Some (err_text e, 1), w'))"

section \<open>What the demonstration keeps\<close>

lemma see_ids_exact:
  "see_ids want seen xs = (if distinct xs \<and> set xs \<inter> seen = {} \<and> set xs \<subseteq> want then Some (seen \<union> set xs) else None)"
  by (induction xs arbitrary: seen) auto

lemma reconcile_exact: "reconcileIDs expected actual = None \<longleftrightarrow> distinct actual \<and> set actual = set expected"
  by (auto simp: reconcileIDs_def see_ids_exact card_subset_eq split: if_splits)

lemma await_stored_found: "await_stored env ids due w = (Inr actual, w') \<Longrightarrow> reconcileIDs ids actual = None"
proof (induction env ids due w rule: await_stored.induct)
  case (1 env ids due w)
  obtain rows took where q: "dx_stored env (rw_calls w) = (rows, took)" by (metis surj_pair)
  obtain xs err where r: "query rows = (xs, err)" by (metis surj_pair)
  show ?case
  proof (cases "err = None \<and> reconcileIDs ids xs = None")
    case True
    then show ?thesis using "1.prems" q r by (simp add: await_stored.simps [of env ids due w] Let_def)
  next
    case False
    then show ?thesis
      using "1.prems" "1.IH" [OF q [symmetric] refl r [symmetric] False] q r
      by (auto simp: await_stored.simps [of env ids due w] Let_def split: option.splits if_splits)
  qed
qed

lemma quiet_simps [simp]:
  "quiet (Printed l)" "quiet (Staged l)" "quiet OpenedPool" "quiet ClosedPool" "quiet (Posted a k body status)"
  "list_all quiet (map (\<lambda>x. Printed (f x)) xs)"
  by (simp_all add: list_all_iff quiet_def)

context run_relation
begin

lemma rel_say: "R w (say line w)"
  unfolding say_def by (rule rel_note) simp

lemma rel_stage: "R w (stage opts name w)"
  unfolding stage_def by (auto intro: rel_note rel_refl)

lemma rel_farewell: "R w (farewell opts s w)"
  unfolding farewell_def Let_def using rel_say rel_trans by (simp, blast)

end

context launching
begin

lemma rel_await_stored: "await_stored env ids due w = (r, w') \<Longrightarrow> R w w'"
proof (induction env ids due w rule: await_stored.induct)
  case (1 env ids due w)
  obtain rows took where q: "dx_stored env (rw_calls w) = (rows, took)" by (metis surj_pair)
  obtain xs err where r: "query rows = (xs, err)" by (metis surj_pair)
  let ?v = "(note_that [] w)\<lparr>rw_now := rw_now w + int took\<rparr>"
  have step: "R w ?v" by (rule rel_quiet [of _ _ "[]"]) simp_all
  have "R ?v (pause (dx_machine env) (100 * millisecond) ?v)" unfolding pause_def by (rule rel_quiet [of _ _ "[]"]) simp_all
  note later = rel_trans [OF rel_trans [OF step this]]
  show ?case
  proof (cases "err = None \<and> reconcileIDs ids xs = None")
    case True
    then show ?thesis using "1.prems" q r step by (simp add: await_stored.simps [of env ids due w] Let_def)
  next
    case False
    show ?thesis
      using False "1.prems" "1.IH" [OF q [symmetric] refl r [symmetric] False] q r step later
      by (auto simp: await_stored.simps [of env ids due w] Let_def split: option.splits if_splits)
  qed
qed

lemma rel_send: "SendInputs u env url key inputs w = (r, w') \<Longrightarrow> R w w'"
  unfolding SendInputs_def
  by (auto simp: Let_def rel_refl split: option.splits if_splits prod.splits sum.splits
      intro!: rel_quiet [of _ _ "[Posted a b c d]" for a b c d])

lemma rel_funnel: "demo_funnel env ids st w = (e, st', w') \<Longrightarrow> R w w'"
proof -
  have "R w (say line (note_that (map (\<lambda>(k, n). Printed (''Stored '' @ k @ '': '' @ Itoa n)) xs) w))"
    "R w (note_that (map (\<lambda>(k, n). Printed (''Stored '' @ k @ '': '' @ Itoa n)) xs) w)" "R w (note_that [] w)" for line xs
    by (auto simp: case_prod_beta' intro: rel_trans [OF rel_note rel_say] rel_note)
  then show "demo_funnel env ids st w = (e, st', w') \<Longrightarrow> R w w'"
    unfolding demo_funnel_def by (auto simp: Let_def split: option.splits sum.splits prod.splits)
qed

lemma rel_reconcile: "demo_reconcile env ids st w = (e, st', w') \<Longrightarrow> R w w'"
  unfolding demo_reconcile_def
  by (auto split: sum.splits prod.splits dest: rel_await_stored rel_funnel intro: rel_trans [OF rel_await_stored rel_funnel])

lemma rel_recover:
  assumes "mine s" "demo_recover env s ids st w = (e, st', w')"
  shows "R w w'"
proof -
  let ?ask = "[''exec'', ''-T'', ''redpanda'', ''rpk'', ''group'', ''describe'', ''ingestkit-consumer'', ''-X'', ''brokers=redpanda:9092'']"
  obtain lag w1 where c: "Compose (dx_machine env) s ?ask w = (lag, w1)" by (metis surj_pair)
  define line where "line = (case lag of Inr out \<Rightarrow> out | Inl _ \<Rightarrow> ''Consumer group is still assigning; accepted IDs remain buffered.'')"
  obtain x w2 where x: "SetServiceRunning (dx_machine env) s ''postgres'' True (say line w1) = (x, w2)" by (metis surj_pair)
  have "R w w1" using c by (rule rel_Compose) simp
  then have w2: "R w w2" using rel_say rel_operations(3) [OF assms(1) x] rel_trans by blast
  show ?thesis
    using assms(2) w2 c x unfolding demo_recover_def
    by (cases x) (auto simp: line_def [symmetric] intro: rel_trans [OF w2 rel_reconcile])
qed

lemma rel_demo_send:
  assumes "mine s" "demo_send u env opts s inputs st w = (e, st', w')"
  shows "R w w'"
proof -
  obtain x w1 where x: "SendInputs u env (APIURL s) ''local-demo-key'' inputs w = (x, w1)" by (metis surj_pair)
  have w1: "R w w1" using x by (rule rel_send)
  have "R w1 (note_that (map (\<lambda>(i, x). Printed (f i x)) ps) w1)" for f ps
    unfolding case_prod_beta' by (rule rel_note) simp
  note w2 = rel_trans [OF w1 this]
  show ?thesis
    using assms(2) x w1 unfolding demo_send_def
    by (cases x) (auto simp: Let_def split: if_splits intro: rel_trans [OF w2 rel_reconcile] rel_trans [OF w2 rel_recover [OF assms(1)]])
qed

lemma rel_demo_body:
  assumes "mine s" "demo_body u env opts s st w = (e, st', w')"
  shows "R w w'"
proof -
  let ?w1 = "say (''Stack: '' @ Project s) w"
  let ?w2 = "note_that [OpenedPool] ?w1" let ?w3 = "stage opts ''started'' ?w2"
  have w1: "R w ?w1" by (rule rel_say)
  then have w2: "R w ?w2" by (rule rel_trans) (rule rel_note, simp)
  then have w3: "R w ?w3" by (rule rel_trans) (rule rel_stage)
  obtain x v where x: "SetServiceRunning (dx_machine env) s ''postgres'' False ?w3 = (x, v)" by (metis surj_pair)
  have v: "R w v" using w3 rel_operations(3) [OF assms(1) x] by (rule rel_trans)
  then have "R w (stage opts l (say k v))" for k l by (meson rel_say rel_stage rel_trans)
  note sent = rel_trans [OF this rel_demo_send [OF assms(1)]] rel_trans [OF w3 rel_demo_send [OF assms(1)]]
  show ?thesis
    using assms(2) w1 w2 v x unfolding demo_body_def Let_def
    by (auto split: option.splits sum.splits if_splits intro: sent)
qed

lemma rel_demo_stop:
  assumes "mine s" "demo_stop env opts s (err, st, w) = (e, w')"
  shows "R w w'"
proof -
  obtain r1 w1 where a: "(if d_stopped st then SetServiceRunning (dx_machine env) s ''postgres'' True w else (Inr (), w)) = (r1, w1)"
    by (metis surj_pair)
  let ?v = "if d_pool st then note_that [ClosedPool] w1 else w1"
  obtain r2 w2 where b: "CollectEvidence (dx_machine env) s (Directory s) ?v = (r2, w2)" by (metis surj_pair)
  obtain r3 w3 where c: "(if o_cleanup opts then Destroy (dx_machine env) s w2 else Stop (dx_machine env) s w2) = (r3, w3)"
    by (metis surj_pair)
  have "R w w1" using a rel_operations(3) [OF assms(1)] rel_refl by (auto split: if_splits)
  moreover have "R w1 ?v" using rel_note rel_refl by auto
  moreover have "R ?v w2" using b by (rule rel_evidence)
  moreover have "R w2 w3" using c rel_operations(1,2) [OF assms(1)] by (auto split: if_splits)
  ultimately have "R w w3" using rel_trans by blast
  then show ?thesis using assms(2) a b c by (simp add: demo_stop_def)
qed

lemma rel_demo_finish:
  assumes "mine s" "demo_finish u env opts s (err, st, w) = (e, w')"
  shows "R w w'"
proof -
  obtain err' v where a: "demo_stop env opts s (err, st, w) = (err', v)" by (metis surj_pair)
  have v: "R w v" using assms(1) a by (rule rel_demo_stop)
  have "R w (farewell opts s v')" if "write_file (dx_machine env) p c v = (r, v')" for p c r v'
    using rel_trans [OF rel_trans [OF v rel_write [OF that]] rel_farewell] .
  then show ?thesis
    using assms(2) a unfolding demo_finish_def by (auto simp: Let_def split: prod.splits if_splits)
qed

end

end
