(* ===== verification/Demo_Outcome.thy ===== *)
theory Demo_Outcome
  imports Runenv_Demo
begin

text \<open>
  What a demonstration that reports success has shown, and that it leaves nothing behind.
\<close>

section \<open>Reports\<close>

lemma SendInputs_ids: "SendInputs u env url key inputs w = (Inr ids, w') \<Longrightarrow> ids = map EventID inputs"
  by (auto simp: SendInputs_def check_ack_def Let_def split: option.splits if_splits prod.splits sum.splits)

definition reconciled :: "Input list \<Rightarrow> DemoReport \<Rightarrow> bool" where
  "reconciled inputs r \<longleftrightarrow>
     Accepted r = Some (map EventID inputs) \<and>
     (\<exists>stored. Stored r = Some stored \<and> distinct stored \<and> set stored = set (map EventID inputs))"

lemma demo_funnel_report:
  "demo_funnel env ids st w = (e, st', w') \<Longrightarrow> Accepted (d_report st') = Accepted (d_report st) \<and> Stored (d_report st') = Stored (d_report st)"
  by (auto simp: demo_funnel_def Let_def split: sum.splits prod.splits option.splits)

lemma demo_reconcile_report:
  assumes "demo_reconcile env (map EventID inputs) st w = (None, st', w')" "Accepted (d_report st) = Some (map EventID inputs)"
  shows "reconciled inputs (d_report st')"
  using assms
  by (auto simp: demo_reconcile_def reconciled_def dest!: demo_funnel_report
      dest: await_stored_found [unfolded reconcile_exact] split: sum.splits prod.splits)

lemma demo_send_report:
  assumes "demo_send u env opts s inputs st w = (None, st', w')"
  shows "reconciled inputs (d_report st')"
  using assms
  by (auto simp: demo_send_def demo_recover_def Let_def dest!: SendInputs_ids
      split: sum.splits prod.splits if_splits elim!: demo_reconcile_report)

lemma demo_body_report:
  assumes "demo_body u env opts s st w = (None, st', w')"
  shows "\<exists>raw inputs. DecodeBatch u raw = Inr inputs \<and> reconciled inputs (d_report st')"
  using assms
  by (auto simp: demo_body_def Let_def split: sum.splits prod.splits if_splits option.splits dest: demo_send_report)

lemma demo_stop_None:
  assumes "demo_stop env opts s (err, st, w) = (None, w')"
  shows "err = None" "o_cleanup opts \<Longrightarrow> running (rw_trace w') {} \<subseteq> running (rw_trace w) {} - {Project s}"
proof -
  obtain r1 w1 where a: "(if d_stopped st then SetServiceRunning (dx_machine env) s ''postgres'' True w else (Inr (), w)) = (r1, w1)"
    by (metis surj_pair)
  let ?v = "if d_pool st then note_that [ClosedPool] w1 else w1"
  obtain r2 w2 where b: "CollectEvidence (dx_machine env) s (Directory s) ?v = (r2, w2)" by (metis surj_pair)
  obtain r3 w3 where c: "(if o_cleanup opts then Destroy (dx_machine env) s w2 else Stop (dx_machine env) s w2) = (r3, w3)"
    by (metis surj_pair)
  have none: "err = None" "r3 = Inr ()" "w' = w3"
    using assms a b c by (auto simp: demo_stop_def also_err_def split: sum.splits)
  show "err = None" by (rule none)
  assume "o_cleanup opts"
  then have "running (rw_trace w') {} = running (rw_trace w2) {} - {Project s}"
    using c none(2,3) Destroy_running by simp
  moreover have "leaves (Project s) w w1"
    using a tidy.rel_operations(3) [OF refl] tidy.rel_refl by (auto split: if_splits)
  moreover have "leaves (Project s) w1 ?v" using tidy.rel_note tidy.rel_refl by auto
  moreover have "leaves (Project s) ?v w2" using b by (rule tidy.rel_evidence)
  ultimately show "running (rw_trace w') {} \<subseteq> running (rw_trace w) {} - {Project s}" by (auto simp: leaves_def)
qed

lemma demo_finish_None:
  assumes "demo_finish u env opts s (err, st, w) = (None, w')"
  shows "err = None" "o_cleanup opts \<Longrightarrow> running (rw_trace w') {} \<subseteq> running (rw_trace w) {} - {Project s}"
    "Wrote (path_join [Directory s, ''demo.json'']) (demo_json u ((d_report st)\<lparr>Completed := True, DemoError := []\<rparr>)) \<in> set (rw_trace w')"
proof -
  let ?p = "path_join [Directory s, ''demo.json'']" and ?c = "demo_json u ((d_report st)\<lparr>Completed := True, DemoError := []\<rparr>)"
  obtain err' v where a: "demo_stop env opts s (err, st, w) = (err', v)" by (metis surj_pair)
  have none: "err' = None"
    using assms a by (auto simp: demo_finish_def also_err_def Let_def split: prod.splits sum.splits)
  note stop = demo_stop_None [OF a [unfolded none]]
  show "err = None" by (rule stop(1))
  obtain r v' where wr: "write_file (dx_machine env) ?p ?c v = (r, v')" by (metis surj_pair)
  have w': "w' = farewell opts s v'" using assms a none wr by (simp add: demo_finish_def Let_def)
  have tr: "rw_trace v' = rw_trace v @ [Wrote ?p ?c]"
    using wr by (auto simp: write_file_def Let_def split: option.splits prod.splits)
  obtain hs where hs: "rw_trace w' = rw_trace v' @ hs" "list_all quiet hs"
    using quietness.rel_farewell [of v' opts s] w' by (auto simp: quietly_def)
  show "Wrote ?p ?c \<in> set (rw_trace w')" using tr hs(1) by simp
  assume "o_cleanup opts"
  from stop(2) [OF this] show "running (rw_trace w') {} \<subseteq> running (rw_trace w) {} - {Project s}"
    using tr hs running_quiet by (simp add: note_run_def)
qed

lemma RunDemo_runs:
  assumes "RunDemo u env opts w = (r, w')"
  obtains (unstarted) e where "Start (dx_machine env) (demo_stack_options opts) w = (Inl e, w')" "r = Some e"
  | (started) s w1 err st w2 where "Start (dx_machine env) (demo_stack_options opts) w = (Inr s, w1)"
      "demo_body u env opts s \<lparr>d_report = new_report opts, d_stopped = False, d_pool = False\<rparr> w1 = (err, st, w2)"
      "demo_finish u env opts s (err, st, w2) = (r, w')"
  using assms by (auto simp: RunDemo_def split: prod.splits sum.splits intro: that) (metis surj_pair)

section \<open>A demonstration that succeeds\<close>

definition sample_events :: bytes where
  \<open>sample_events = ''{"events":[{"event_id":"00000000-0000-0000-0000-000000000007","event_type":"a",''
     @ ''"occurred_at":"2026-01-02T00:00:00Z","payload":{}}]}''\<close>

definition sample_ack :: bytes where
  \<open>sample_ack = ''{"accepted":1,"event_ids":["00000000-0000-0000-0000-000000000007"]}''\<close>

definition events_file :: os_file where
  "events_file = \<lparr>f_stat_ok = True, f_regular = True, f_perm = 420, f_content = sample_events, f_read_err = False\<rparr>"

definition shop :: run_env where
  \<comment> \<open>every command succeeds without a word and finds the same files\<close>
  "shop = machine (\<lambda>n c files. \<lparr>an_out = [], an_err = None, an_files = (\<lambda>_. Some events_file), an_took = 1\<rparr>)"

definition shop_demo :: demo_env where
  "shop_demo =
     \<lparr>dx_machine = shop, dx_post = \<lambda>_ _ _ _. (Inr (202, sample_ack), 1), dx_pool_err = None,
      dx_stored = \<lambda>_. (Inr ([Inr 7], None), 1), dx_funnel = Inr ([Inr (''a'', 1)], None)\<rparr>"

definition shop_options :: DemoOptions where
  "shop_options = \<lparr>o_recovery = False, o_cleanup = True, o_out = ''/d'', o_stages = True\<rparr>"

definition shop_after :: "command \<Rightarrow> run_world \<Rightarrow> run_world" where
  "shop_after c w = (note_that [Ran c [] None] w)\<lparr>rw_files := (\<lambda>_. Some events_file), rw_now := rw_now w + 1\<rparr>"

lemma shop_docker:
  "s_profile s = [] \<Longrightarrow> docker shop s args w =
     (Inr [], shop_after \<lparr>cm_prog = ''docker'', cm_args = args, cm_dir = s_root s, cm_env = s_env s\<rparr> w)"
  by (simp add: docker_def docker_run_def run_command_def shop_def shop_after_def)

lemma shop_simps [simp]:
  "rx_write shop = (\<lambda>_ _. None)" "rx_mkdir shop = (\<lambda>_ _. None)" "rx_listen shop = (\<lambda>_. Inr 7)"
  "rx_getwd shop = Inr [''repo'']" "rx_stat shop = (\<lambda>_. True)" "rx_order shop = (\<lambda>_. [1, 0])"
  "rx_uuid shop = (\<lambda>_. sample_uuid)" "dx_machine shop_demo = shop"
  by (simp_all add: shop_def machine_def shop_demo_def)

lemma shop_write:
  "\<exists>w'. write_file shop p c w = (Inr (), w') \<and> rw_calls w' = Suc (rw_calls w) \<and> (\<forall>q. q \<noteq> p \<longrightarrow> rw_files w' q = rw_files w q)"
  by (simp add: write_file_def Let_def note_that_def)

lemma TrimSpace_Nil: "TrimSpace [] = []"
  by code_simp

lemma shop_launch:
  assumes "sound s"
  shows "\<exists>v s'. launch shop ports s w = (Inr s', v) \<and> sound s' \<and> Directory s' = Directory s \<and> s_root s' = s_root s \<and>
    APIURL s' = ''http://'' \<and> (\<forall>q. q \<noteq> path_join [Directory s, ''stack.json''] \<longrightarrow> rw_files v q = Some events_file)"
  using assms
  by (simp add: sound_def launch_def launched_def try_then_def Compose_def shop_docker services_def Let_def write_file_def
      apiAddress_def shop_after_def TrimSpace_Nil)

lemma shop_reserve: "\<exists>ports w'. reserve shop n acc w = (Inr ports, w')"
  by (induction n arbitrary: acc w) simp_all

lemma shop_start:
  "\<exists>s w'. Start shop (demo_stack_options shop_options) fresh_world = (Inr s, w') \<and> sound s \<and> Directory s = ''/d'' \<and>
     s_root s = ''/repo'' \<and> APIURL s = ''http://'' \<and> (\<forall>q. q \<noteq> ''/d/stack.json'' \<longrightarrow> rw_files w' q = Some events_file)"
proof -
  let ?opts = "demo_stack_options shop_options"
  let ?s = "(new_stack shop ''/repo'' ?opts fresh_world)\<lparr>Directory := ''/d''\<rparr>"
  have dir: "path_abs shop (Directory (new_stack shop ''/repo'' ?opts fresh_world)) = Inr ''/d''" by code_simp
  obtain ports w1 where ports: "reserve shop 4 [] (note_that [] (note_that [] (note_that [] fresh_world))) = (Inr ports, w1)"
    using shop_reserve by blast
  let ?t = "?s\<lparr>s_env := development_vars (s_token ?s) ports\<rparr>"
  have t: "sound ?t" "Directory ?t = ''/d''" "s_root ?t = ''/repo''"
    by (simp_all add: sound_def new_stack_def Let_def sample_uuid_def projectName_def HasPrefix_def)
  obtain w2 where w2: "hold_ports ports (write_file shop (run_env_path ?t) (env_lines (s_env ?t))) w1 = (Inr (), w2)"
    by (simp add: hold_ports_def write_file_def Let_def)
  have stack_path: "path_join [''/d'', ''stack.json''] = ''/d/stack.json''" by code_simp
  obtain s' v where run: "launch shop ports ?t w2 = (Inr s', v)" and res: "sound s'" "Directory s' = ''/d''" "s_root s' = ''/repo''"
    "APIURL s' = ''http://''" "\<forall>q. q \<noteq> ''/d/stack.json'' \<longrightarrow> rw_files v q = Some events_file"
    using shop_launch [OF t(1), of ports w2] t(2,3) stack_path by auto
  have "Profile ?opts = []" "ExposeDependencies ?opts = False" by (simp_all add: demo_stack_options_def)
  then have "startAttempt shop ''/repo'' ?opts fresh_world = (Inr s', v)"
    using dir ports w2 run
    by (simp add: startAttempt_def try_then_def mkdir_all_def start_development_def development_on_def or_abandon_def Let_def)
  then have "Start shop ?opts fresh_world = (Inr s', v)"
    by (simp add: Start_def Root_def demo_stack_options_def dir_path_def slashed_def eval_nat_numeral)
  then show ?thesis using res by blast
qed

lemma shop_body:
  assumes "s_root s = ''/repo''" "APIURL s = ''http://''" "\<forall>q. q \<noteq> ''/d/stack.json'' \<longrightarrow> rw_files w q = Some events_file"
  shows "\<exists>st' w'. demo_body uuid_canonical shop_demo shop_options s st w = (None, st', w')"
proof -
  have "case DecodeBatch uuid_canonical sample_events of Inl _ \<Rightarrow> False
      | Inr inputs \<Rightarrow> marshal_events uuid_canonical inputs \<noteq> None \<and> map EventID inputs = [7]" by code_simp
  then obtain inputs raw where inputs: "DecodeBatch uuid_canonical sample_events = Inr inputs"
    "marshal_events uuid_canonical inputs = Some raw" "map EventID inputs = [7]" by (auto split: sum.splits)
  have q: "path_join [''/repo'', ''examples'', ''checkout'', ''events.json''] = ''/repo/examples/checkout/events.json''"
    by code_simp
  have "url_parse ''http:///v1/events/batch'' \<noteq> None" "decode_ack uuid_canonical sample_ack = Some [7]"
    "reconcileIDs [7] [7] = None" by code_simp+
  moreover have "check_ack inputs [7] = Inr [7]" using inputs(3) by (auto simp: check_ack_def)
  ultimately show ?thesis
    using assms inputs q
    by (simp add: demo_body_def read_file_def events_file_def shop_options_def stage_def say_def demo_send_def SendInputs_def
        demo_reconcile_def demo_funnel_def shop_demo_def Let_def query_def await_stored.simps)
qed

lemma shop_finish:
  assumes "sound s" "\<not> d_stopped st"
  shows "\<exists>w'. demo_finish uuid_canonical shop_demo shop_options s (None, st, w) = (None, w')"
proof -
  have s: "s_profile s = []" "s_owned s" "s_identity s = Project s" "s_token s \<noteq> []" "HasPrefix (Project s) ''ingestkit-''"
    using assms(1) by (simp_all add: sound_def)
  have saved: "\<exists>w'. write_file shop p c w = (Inr (), w')" for p c w by (simp add: write_file_def Let_def)
  have "\<exists>w'. collect shop s dir entries w = (Inr (), w')" for dir entries w
  proof (induction entries arbitrary: w)
    case (Cons e entries)
    obtain w1 where "write_file shop (path_join [dir, fst e]) [] (shop_after \<lparr>cm_prog = ''docker'',
        cm_args = composeArgs s (snd e), cm_dir = s_root s, cm_env = s_env s\<rparr> w) = (Inr (), w1)" using saved by blast
    then show ?case using Cons s by (cases e) (simp add: try_then_def Compose_def shop_docker)
  qed simp
  then have "\<exists>w'. CollectEvidence shop s dir w = (Inr (), w')" for dir w
    using s by (simp add: CollectEvidence_def try_then_def mkdir_all_def)
  moreover have "\<exists>w'. Destroy shop s w = (Inr (), w')" for w
    using s by (simp add: Destroy_def guarded_def verifyOwner_def try_then_def Compose_def shop_docker Fields_def)
  ultimately obtain w1 w2 where
    "CollectEvidence shop s (Directory s) (if d_pool st then note_that [ClosedPool] w else w) = (Inr (), w1)"
    "Destroy shop s w1 = (Inr (), w2)" by metis
  then have "demo_stop shop_demo shop_options s (None, st, w) = (None, w2)"
    using assms(2) by (simp add: demo_stop_def shop_options_def also_err_def)
  moreover obtain w3 where "write_file shop (path_join [Directory s, ''demo.json''])
      (demo_json uuid_canonical ((d_report st)\<lparr>Completed := True, DemoError := []\<rparr>)) w2 = (Inr (), w3)"
    using saved by blast
  ultimately show ?thesis by (simp add: demo_finish_def Let_def also_err_def)
qed

lemma demo_body_stopped:
  assumes "demo_body u env opts s st w = (err, st', w')" "\<not> o_recovery opts"
  shows "d_stopped st' = d_stopped st"
  using assms
  by (auto simp: demo_body_def demo_send_def demo_reconcile_def demo_funnel_def Let_def
      split: option.splits sum.splits prod.splits)

lemma shop_succeeds: "\<exists>w'. RunDemo uuid_canonical shop_demo shop_options fresh_world = (None, w')"
proof -
  obtain s w1 where start: "Start shop (demo_stack_options shop_options) fresh_world = (Inr s, w1)" and s: "sound s"
    "s_root s = ''/repo''" "APIURL s = ''http://''" "\<forall>q. q \<noteq> ''/d/stack.json'' \<longrightarrow> rw_files w1 q = Some events_file"
    using shop_start by blast
  let ?st = "\<lparr>d_report = new_report shop_options, d_stopped = False, d_pool = False\<rparr>"
  obtain st w2 where body: "demo_body uuid_canonical shop_demo shop_options s ?st w1 = (None, st, w2)"
    using shop_body [OF s(2-4)] by blast
  then have "\<not> d_stopped st" using demo_body_stopped [OF body] by (simp add: shop_options_def)
  then obtain w' where "demo_finish uuid_canonical shop_demo shop_options s (None, st, w2) = (None, w')"
    using shop_finish [OF s(1)] by blast
  then show ?thesis using start body by (simp add: RunDemo_def)
qed

section \<open>Properties\<close>

text \<open>
  C26. The reconciliation passes exactly when the stored identifiers are the accepted ones, each of
  them stored once, in any order.
\<close>

theorem reconcileIDs_exact:
  "reconcileIDs expected actual = None \<longleftrightarrow> distinct actual \<and> set actual = set expected"
  by (rule reconcile_exact)

text \<open>
  C25. The demonstration never touches resources it does not own, and when it is asked to clean up
  and reports success, no project that it brought up may still have resources.
\<close>

theorem RunDemo_tidy:
  assumes "RunDemo u env opts w = (r, w')"
  shows "(\<exists>tr. rw_trace w' = rw_trace w @ tr \<and> careful tr) \<and>
    (r = None \<and> o_cleanup opts \<longrightarrow> running (rw_trace w') {} \<subseteq> running (rw_trace w) {})"
  using assms
proof (cases rule: RunDemo_runs)
  case (unstarted e)
  then show ?thesis using Start_stack [OF unstarted(1)] by (simp add: cautious_def)
next
  case (started s w1 err st w2)
  obtain w0 where s: "cautious w w1" "stack_of (dx_machine env) (demo_stack_options opts) w0 s"
    using Start_stack [OF started(1)] by blast
  then have "marked s" by (simp add: stack_of_def)
  then have "cautious w w'"
    using s(1) caution.rel_demo_body [OF _ started(2)] caution.rel_demo_finish [OF _ started(3)] caution.rel_trans by blast
  moreover have "running (rw_trace w') {} \<subseteq> running (rw_trace w) {}" if "r = None" "o_cleanup opts"
  proof -
    have "running (rw_trace w1) {} \<subseteq> insert (Project s) (running (rw_trace w) {})"
      using Start_runs [OF started(1)] start_loop_leaves [where r = "Inr s"] by fastforce
    moreover have "leaves (Project s) w1 w2" using refl started(2) by (rule tidy.rel_demo_body)
    ultimately show ?thesis
      using demo_finish_None(2) [OF started(3) [unfolded that(1)] that(2)] by (auto simp: leaves_def)
  qed
  ultimately show ?thesis by (simp add: cautious_def)
qed

theorem RunDemo_tidy_witness:
  "\<exists>w'. RunDemo uuid_canonical shop_demo shop_options fresh_world = (None, w') \<and> running (rw_trace w') {} = {} \<and>
     (\<exists>tr. rw_trace w' = rw_trace fresh_world @ tr \<and> careful tr)"
proof -
  obtain w' where run: "RunDemo uuid_canonical shop_demo shop_options fresh_world = (None, w')" using shop_succeeds by blast
  from RunDemo_tidy [OF run] run show ?thesis by (auto simp: shop_options_def fresh_world_def)
qed



end
